(* ===== verification/Prelude.thy ===== *)
theory Prelude
  imports
    Main
    "HOL-Library.Multiset"
    "HOL-Library.Char_ord"
    "HOL-Library.List_Lexorder"
    "HOL-Library.Product_Lexorder"
begin

text \<open>
  What every component of the model shares.

  \<^item> Go strings and byte slices are \<^typ>\<open>string\<close>, a list of bytes.  The order that
    \<^verbatim>\<open>sort.Strings\<close> and \<^verbatim>\<open><\<close> use on strings is bytewise lexicographic, which is the
    \<^verbatim>\<open>linorder\<close> of \<^verbatim>\<open>List_Lexorder\<close> over \<^verbatim>\<open>Char_ord\<close>.
  \<^item> Go errors are values of \<open>go_error\<close>: a sentinel, a leaf, or a wrapped error
    (\<^verbatim>\<open>fmt.Errorf("...: %w", err)\<close>).  A fallible Go function returns \<open>go_error + 'a\<close>.
  \<^item> A Go map is an association list with distinct keys; the order of the list is the
    order in which \<^verbatim>\<open>range\<close> happens to visit the map, which Go leaves open.  A result that
    does not depend on that order is a theorem about permuted lists.
  \<^item> Code that may stop its goroutine (\<^verbatim>\<open>runtime.Goexit\<close>, called by \<^verbatim>\<open>FailNow\<close> and
    \<^verbatim>\<open>SkipNow\<close>), panic or end the process is an \<open>act\<close>: a state transformer whose outcome
    is a value, \<open>Goexit\<close>, a panic, or the exit code given to \<^verbatim>\<open>os.Exit\<close>.
\<close>

section \<open>Errors\<close>

datatype go_error =
    ErrNotFound
  | ErrNotExist
  | ErrPermission
  | ErrDockerUnavailable
  | ErrServerClosed
  | ErrText string
  | ErrWrap string go_error

text \<open>\<^verbatim>\<open>errors.Is(err, target)\<close>: some error of the wrap chain is the target.\<close>

fun errors_is :: "go_error \<Rightarrow> go_error \<Rightarrow> bool" where
  "errors_is (ErrWrap msg e) target = (ErrWrap msg e = target \<or> errors_is e target)"
| "errors_is e target = (e = target)"

text \<open>Arguments of a formatted message, kept as the values the code passes.\<close>

datatype arg = AStr string | ALit string | AInt int | AErr go_error | AList "string list"

section \<open>Outcomes and actions\<close>

datatype 'a outcome = Ret 'a | Goexit | Panicked string | Exited int

type_synonym ('s, 'a) act = "'s \<Rightarrow> 'a outcome \<times> 's"

named_theorems act_simps "how an action runs, one step at a time"

definition ret :: "'a \<Rightarrow> ('s, 'a) act" where
  "ret x s = (Ret x, s)"

definition bnd :: "('s, 'a) act \<Rightarrow> ('a \<Rightarrow> ('s, 'b) act) \<Rightarrow> ('s, 'b) act" where
  "bnd m f s =
     (case m s of
        (Ret x, s') \<Rightarrow> f x s'
      | (Goexit, s') \<Rightarrow> (Goexit, s')
      | (Panicked p, s') \<Rightarrow> (Panicked p, s')
      | (Exited c, s') \<Rightarrow> (Exited c, s'))"

definition andthen :: "('s, unit) act \<Rightarrow> ('s, 'b) act \<Rightarrow> ('s, 'b) act" where
  "andthen m k = bnd m (\<lambda>_. k)"

definition skip :: "('s, unit) act" where
  "skip = ret ()"

definition panic :: "string \<Rightarrow> ('s, 'a) act" where
  "panic p s = (Panicked p, s)"

definition gets :: "('s \<Rightarrow> 'a) \<Rightarrow> ('s, 'a) act" where
  "gets f s = (Ret (f s), s)"

definition os_exit :: "int \<Rightarrow> ('s, 'a) act" where
  "os_exit code s = (Exited code, s)"

definition modify :: "('s \<Rightarrow> 's) \<Rightarrow> ('s, unit) act" where
  "modify f s = (Ret (), f s)"

text \<open>A loop over a slice whose body is an action.\<close>

fun for_each :: "'a list \<Rightarrow> ('a \<Rightarrow> ('s, unit) act) \<Rightarrow> ('s, unit) act" where
  "for_each [] f = skip"
| "for_each (x # xs) f = andthen (f x) (for_each xs f)"

lemma ret_run [act_simps]: "ret x s = (Ret x, s)"
  by (simp add: ret_def)

lemma skip_run [act_simps]: "skip s = (Ret (), s)"
  by (simp add: skip_def ret_def)

lemma panic_run [act_simps]: "panic p s = (Panicked p, s)"
  by (simp add: panic_def)

lemma os_exit_run [act_simps]: "os_exit c s = (Exited c, s)"
  by (simp add: os_exit_def)

lemma gets_run [act_simps]: "gets f s = (Ret (f s), s)"
  by (simp add: gets_def)

lemma modify_run [act_simps]: "modify f s = (Ret (), f s)"
  by (simp add: modify_def)

lemma bnd_run [act_simps]:
  "bnd m f s =
     (case m s of
        (Ret x, s') \<Rightarrow> f x s'
      | (Goexit, s') \<Rightarrow> (Goexit, s')
      | (Panicked p, s') \<Rightarrow> (Panicked p, s')
      | (Exited c, s') \<Rightarrow> (Exited c, s'))"
  by (simp add: bnd_def)

lemma andthen_run [act_simps]:
  "andthen m k s =
     (case m s of
        (Ret x, s') \<Rightarrow> k s'
      | (Goexit, s') \<Rightarrow> (Goexit, s')
      | (Panicked p, s') \<Rightarrow> (Panicked p, s')
      | (Exited c, s') \<Rightarrow> (Exited c, s'))"
  by (simp add: andthen_def bnd_def split: outcome.splits prod.splits)

lemma bnd_assoc: "bnd (bnd m f) g = bnd m (\<lambda>x. bnd (f x) g)"
  by (rule ext) (simp add: bnd_def split: outcome.splits prod.splits)

lemma bnd_ret_left: "bnd (ret x) f = f x"
  by (rule ext) (simp add: bnd_def ret_def)

lemma andthen_skip_left: "andthen skip k = k"
  by (simp add: andthen_def skip_def bnd_ret_left)

lemma for_each_append: "for_each (xs @ ys) f = andthen (for_each xs f) (for_each ys f)"
  by (induction xs) (simp_all add: andthen_skip_left, simp add: andthen_def bnd_assoc)

section \<open>Lists, maps and sorting\<close>

text \<open>Go's \<^verbatim>\<open>m[k] = v\<close> on an association list: overwrite in place, or add the key.\<close>

fun put :: "'k \<Rightarrow> 'v \<Rightarrow> ('k \<times> 'v) list \<Rightarrow> ('k \<times> 'v) list" where
  "put k v [] = [(k, v)]"
| "put k v ((k', v') # m) = (if k' = k then (k, v) # m else (k', v') # put k v m)"

text \<open>Go's \<^verbatim>\<open>delete(m, k)\<close>.\<close>

definition del :: "'k \<Rightarrow> ('k \<times> 'v) list \<Rightarrow> ('k \<times> 'v) list" where
  "del k m = filter (\<lambda>(k', v). k' \<noteq> k) m"

definition keys_distinct :: "('k \<times> 'v) list \<Rightarrow> bool" where
  "keys_distinct m \<longleftrightarrow> distinct (map fst m)"

lemma map_of_put [simp]: "map_of (put k v m) = (map_of m)(k \<mapsto> v)"
  by (induction k v m rule: put.induct) (auto simp: fun_eq_iff)

lemma map_of_del [simp]: "map_of (del k m) = (map_of m)(k := None)"
  by (induction m) (auto simp: del_def fun_eq_iff)

lemma fst_set_put: "fst ` set (put k v m) = insert k (fst ` set m)"
  by (induction k v m rule: put.induct) auto

lemma keys_distinct_Nil [simp]: "keys_distinct []"
  by (simp add: keys_distinct_def)

lemma keys_distinct_single [simp]: "keys_distinct [p]"
  by (simp add: keys_distinct_def)

lemma keys_distinct_put [simp]: "keys_distinct m \<Longrightarrow> keys_distinct (put k v m)"
proof (induction k v m rule: put.induct)
  case (1 k v)
  show ?case by (simp add: keys_distinct_def)
next
  case (2 k v k' v' m)
  then show ?case
    using fst_set_put [of k v m] by (auto simp: keys_distinct_def)
qed

lemma keys_distinct_del [simp]: "keys_distinct m \<Longrightarrow> keys_distinct (del k m)"
  unfolding keys_distinct_def del_def by (rule distinct_map_filter)

text \<open>Two lists with the same elements, in any order, hold the same map.\<close>

lemma map_of_perm:
  assumes "keys_distinct m" and "mset m' = mset m"
  shows "map_of m' = map_of m"
proof -
  have "distinct (map fst m')"
    using assms by (metis keys_distinct_def mset_eq_imp_distinct_iff mset_map)
  moreover have "set m' = set m"
    using assms(2) by (rule mset_eq_setD)
  ultimately show ?thesis
    using assms(1) by (intro map_of_inject_set [THEN iffD2]) (auto simp: keys_distinct_def)
qed

lemma keys_distinct_perm: "keys_distinct m \<Longrightarrow> mset m' = mset m \<Longrightarrow> keys_distinct m'"
  by (metis keys_distinct_def mset_eq_imp_distinct_iff mset_map)

lemma find_SomeD: "find P xs = Some x \<Longrightarrow> x \<in> set xs \<and> P x"
  by (induction xs) (auto split: if_splits)

text \<open>\<^verbatim>\<open>sort.Strings\<close> forgets the order of its input.\<close>

lemma sort_perm:
  fixes xs ys :: "'a::linorder list"
  assumes "mset xs = mset ys"
  shows "sort xs = sort ys"
  by (rule properties_for_sort) (simp_all add: assms)

lemma sort_eq_Nil_iff [simp]: "sort xs = [] \<longleftrightarrow> xs = []"
  by (metis mset_sort mset_zero_iff)

lemma concat_map_perm:
  assumes "mset xs = mset ys"
  shows "mset (concat (map f xs)) = mset (concat (map f ys))"
  using assms by (metis mset_concat mset_map sum_mset_sum_list)

end
