(* ===== verification/Go_Strings.thy ===== *)
theory Go_Strings
  imports Prelude
begin

text \<open>
  The parts of Go's \<^verbatim>\<open>strings\<close>, \<^verbatim>\<open>strconv\<close>, \<^verbatim>\<open>encoding/hex\<close> and (lexical) \<^verbatim>\<open>path/filepath\<close>
  packages that the repository calls, on byte strings, as executable functions.
\<close>

section \<open>strings\<close>

definition has_prefix :: "string \<Rightarrow> string \<Rightarrow> bool" where
  "has_prefix s p \<longleftrightarrow> take (length p) s = p"

definition has_suffix :: "string \<Rightarrow> string \<Rightarrow> bool" where
  "has_suffix s p \<longleftrightarrow> length p \<le> length s \<and> drop (length s - length p) s = p"

lemma has_prefix_iff: "has_prefix s p \<longleftrightarrow> (\<exists>r. s = p @ r)"
  unfolding has_prefix_def by (metis append_eq_conv_conj append_take_drop_id)

lemma has_prefix_simps [simp]:
  "has_prefix s []"
  "\<not> has_prefix [] (y # p)"
  "has_prefix (x # s) (y # p) \<longleftrightarrow> x = y \<and> has_prefix s p"
  by (auto simp: has_prefix_def)

lemma has_prefix_append [simp]: "has_prefix (p @ r) p"
  by (simp add: has_prefix_def)

lemma has_suffix_iff: "has_suffix s p \<longleftrightarrow> (\<exists>r. s = r @ p)"
  unfolding has_suffix_def
  by (metis append_take_drop_id diff_add_inverse2 diff_diff_cancel drop_eq_nths
      append_eq_conv_conj le_add2 length_append)

fun join :: "string \<Rightarrow> string list \<Rightarrow> string" where
  "join sep [] = []"
| "join sep [x] = x"
| "join sep (x # y # ys) = x @ sep @ join sep (y # ys)"

text \<open>\<^verbatim>\<open>strings.Split(s, c)\<close> for a one-byte separator: never empty, one more part than separators.\<close>

fun split_on :: "char \<Rightarrow> string \<Rightarrow> string list" where
  "split_on c [] = [[]]"
| "split_on c (x # xs) =
     (if x = c then [] # split_on c xs
      else (case split_on c xs of [] \<Rightarrow> [[x]] | p # ps \<Rightarrow> (x # p) # ps))"

lemma split_on_not_Nil [simp]: "split_on c s \<noteq> []"
  by (induction s) (auto split: list.splits)

lemma join_Cons: "ps \<noteq> [] \<Longrightarrow> join sep (p # ps) = p @ sep @ join sep ps"
  by (cases ps) simp_all

lemma join_split: "join [c] (split_on c s) = s"
proof (induction s)
  case Nil
  then show ?case by simp
next
  case (Cons x xs)
  obtain p ps where ps: "split_on c xs = p # ps"
    by (cases "split_on c xs") auto
  show ?case
  proof (cases "x = c")
    case True
    with Cons show ?thesis by (simp add: join_Cons)
  next
    case False
    with Cons ps show ?thesis by (cases ps) auto
  qed
qed

lemma split_on_parts: "p \<in> set (split_on c s) \<Longrightarrow> c \<notin> set p"
  by (induction s arbitrary: p) (auto split: list.splits if_splits)

lemma length_split_on: "length (split_on c s) = Suc (count_list s c)"
  by (induction s) (auto split: list.splits)

text \<open>
  \<^verbatim>\<open>strings.TrimSpace\<close>: the UTF-8 encodings of the runes for which \<^verbatim>\<open>unicode.IsSpace\<close> holds
  are cut at both ends.  An encoding read at the start (or the end) of a string is the rune
  that \<^verbatim>\<open>utf8.DecodeRune\<close> (or \<^verbatim>\<open>DecodeLastRune\<close>) reads there.
\<close>

definition space_encodings :: "string list" where
  "space_encodings =
     [[CHR 0x09], [CHR 0x0A], [CHR 0x0B], [CHR 0x0C], [CHR 0x0D], [CHR 0x20],
      [CHR 0xC2, CHR 0x85], [CHR 0xC2, CHR 0xA0], [CHR 0xE1, CHR 0x9A, CHR 0x80],
      [CHR 0xE2, CHR 0x80, CHR 0x80], [CHR 0xE2, CHR 0x80, CHR 0x81],
      [CHR 0xE2, CHR 0x80, CHR 0x82], [CHR 0xE2, CHR 0x80, CHR 0x83],
      [CHR 0xE2, CHR 0x80, CHR 0x84], [CHR 0xE2, CHR 0x80, CHR 0x85],
      [CHR 0xE2, CHR 0x80, CHR 0x86], [CHR 0xE2, CHR 0x80, CHR 0x87],
      [CHR 0xE2, CHR 0x80, CHR 0x88], [CHR 0xE2, CHR 0x80, CHR 0x89],
      [CHR 0xE2, CHR 0x80, CHR 0x8A], [CHR 0xE2, CHR 0x80, CHR 0xA8],
      [CHR 0xE2, CHR 0x80, CHR 0xA9], [CHR 0xE2, CHR 0x80, CHR 0xAF],
      [CHR 0xE2, CHR 0x81, CHR 0x9F], [CHR 0xE3, CHR 0x80, CHR 0x80]]"

definition cut_one :: "string list \<Rightarrow> string \<Rightarrow> string option" where
  "cut_one seqs s = map_option (\<lambda>q. drop (length q) s) (find (has_prefix s) seqs)"

lemma cut_one_shorter: "cut_one seqs s = Some r \<Longrightarrow> [] \<notin> set seqs \<Longrightarrow> length r < length s"
proof -
  assume a: "cut_one seqs s = Some r" "[] \<notin> set seqs"
  then obtain q where q: "find (has_prefix s) seqs = Some q" "r = drop (length q) s"
    by (auto simp: cut_one_def)
  then have "has_prefix s q" "q \<in> set seqs"
    by (auto simp: find_Some_iff)
  with a(2) q(2) show ?thesis
    by (cases q) (auto simp: has_prefix_iff)
qed

function trim_with :: "string list \<Rightarrow> string \<Rightarrow> string" where
  "trim_with seqs s =
     (if [] \<in> set seqs then s
      else (case cut_one seqs s of None \<Rightarrow> s | Some r \<Rightarrow> trim_with seqs r))"
  by pat_completeness auto
termination
  by (relation "measure (\<lambda>(seqs, s). length s)") (auto dest: cut_one_shorter)

declare trim_with.simps [simp del]

definition trim_left :: "string \<Rightarrow> string" where
  "trim_left s = trim_with space_encodings s"

definition trim_right :: "string \<Rightarrow> string" where
  "trim_right s = rev (trim_with (map rev space_encodings) (rev s))"

definition trim_space :: "string \<Rightarrow> string" where
  "trim_space s = trim_right (trim_left s)"

lemma trim_with_suffix: "\<exists>pre. s = pre @ trim_with seqs s"
proof (induction seqs s rule: trim_with.induct)
  case (1 seqs s)
  show ?case
  proof (cases "[] \<in> set seqs \<or> cut_one seqs s = None")
    case True
    then show ?thesis by (auto simp: trim_with.simps [of seqs s])
  next
    case False
    then obtain r where r: "cut_one seqs s = Some r" "[] \<notin> set seqs" by auto
    then obtain q where "r = drop (length q) s" "s = q @ r"
      by (auto simp: cut_one_def find_Some_iff has_prefix_iff)
    moreover obtain pre where "r = pre @ trim_with seqs r"
      using 1 r by blast
    ultimately show ?thesis
      using r by (metis append.assoc option.simps(5) trim_with.simps)
  qed
qed

text \<open>What is left holds no further space at its ends.\<close>

lemma trim_with_fix: "[] \<notin> set seqs \<Longrightarrow> cut_one seqs (trim_with seqs s) = None"
proof (induction seqs s rule: trim_with.induct)
  case (1 seqs s)
  then show ?case
    by (cases "cut_one seqs s") (simp_all add: trim_with.simps [of seqs s])
qed

section \<open>strconv and hex\<close>

definition digit :: "nat \<Rightarrow> char" where
  "digit d = ''0123456789abcdef'' ! d"

fun nat_digits :: "nat \<Rightarrow> string" where
  "nat_digits n = (if n < 10 then [digit n] else nat_digits (n div 10) @ [digit (n mod 10)])"

declare nat_digits.simps [simp del]

text \<open>\<^verbatim>\<open>strconv.Itoa\<close>, \<^verbatim>\<open>strconv.FormatInt(_, 10)\<close> and the verb \<^verbatim>\<open>%d\<close>.\<close>

definition itoa :: "int \<Rightarrow> string" where
  "itoa i = (if i < 0 then CHR ''-'' # nat_digits (nat (- i)) else nat_digits (nat i))"

text \<open>\<^verbatim>\<open>hex.EncodeToString\<close>.\<close>

definition hex_encode :: "string \<Rightarrow> string" where
  "hex_encode bs =
     concat (map (\<lambda>b. [digit (of_char b div 16), digit (of_char b mod 16)]) bs)"

definition hex_chars :: "string" where
  "hex_chars = ''0123456789abcdef''"

lemma digit_in_hex: "d < 16 \<Longrightarrow> digit d \<in> set hex_chars"
  unfolding digit_def hex_chars_def by (rule nth_mem) simp

lemma of_char_less_256: "(of_char c :: nat) < 256"
  by (metis char_of_take_bit_eq nat_of_char_less_256)

lemma hex_encode_chars: "set (hex_encode bs) \<subseteq> set hex_chars"
proof -
  have "of_char b div 16 < (16::nat)" for b :: char
    using of_char_less_256 [of b] by (simp add: less_mult_imp_div_less)
  then show ?thesis by (auto simp: hex_encode_def digit_in_hex)
qed

lemma length_hex_encode: "length (hex_encode bs) = 2 * length bs"
  by (induction bs) (simp_all add: hex_encode_def)

section \<open>Lexical paths (Unix)\<close>

text \<open>
  \<^verbatim>\<open>filepath.Clean\<close> works on the components between slashes: empty ones and \<^verbatim>\<open>.\<close> are
  dropped, \<^verbatim>\<open>..\<close> removes the component before it, and at the front it is kept in a
  relative path and dropped in a rooted one.
\<close>

definition rooted :: "string \<Rightarrow> bool" where
  "rooted p = has_prefix p ''/''"

definition components :: "string \<Rightarrow> string list" where
  "components p = filter (\<lambda>c. c \<noteq> [] \<and> c \<noteq> ''.'') (split_on CHR ''/'' p)"

text \<open>\<open>stack\<close> holds the components kept so far, the last one first.\<close>

fun clean_comps :: "bool \<Rightarrow> string list \<Rightarrow> string list \<Rightarrow> string list" where
  "clean_comps r stack [] = rev stack"
| "clean_comps r stack (c # cs) =
     (if c = ''..'' then
        (case stack of
           [] \<Rightarrow> clean_comps r (if r then [] else [''..'']) cs
         | t # ts \<Rightarrow> if t = ''..'' then clean_comps r (''..'' # stack) cs else clean_comps r ts cs)
      else clean_comps r (c # stack) cs)"

definition path_text :: "bool \<Rightarrow> string list \<Rightarrow> string" where
  "path_text r cs =
     (if r then ''/'' @ join ''/'' cs else if cs = [] then ''.'' else join ''/'' cs)"

definition path_clean :: "string \<Rightarrow> string" where
  "path_clean p = path_text (rooted p) (clean_comps (rooted p) [] (components p))"

text \<open>\<^verbatim>\<open>filepath.Join\<close>: leading empty elements are skipped, the rest is joined and cleaned.\<close>

definition path_join :: "string list \<Rightarrow> string" where
  "path_join es =
     (case dropWhile (\<lambda>e. e = []) es of [] \<Rightarrow> [] | es' \<Rightarrow> path_clean (join ''/'' es'))"

text \<open>\<^verbatim>\<open>filepath.Base\<close>: the last component as written, so \<^verbatim>\<open>.\<close> and \<^verbatim>\<open>..\<close> count.\<close>

definition path_base :: "string \<Rightarrow> string" where
  "path_base p =
     (if p = [] then ''.''
      else (case rev (filter (\<lambda>c. c \<noteq> []) (split_on CHR ''/'' p)) of
              [] \<Rightarrow> ''/'' | c # _ \<Rightarrow> c))"

text \<open>\<^verbatim>\<open>filepath.Dir\<close>: everything up to the last slash, cleaned.\<close>

definition path_dir :: "string \<Rightarrow> string" where
  "path_dir p = path_clean (rev (dropWhile (\<lambda>c. c \<noteq> CHR ''/'') (rev p)))"

text \<open>\<^verbatim>\<open>filepath.Rel\<close>: how to name \<open>targ\<close> from \<open>base\<close>, both cleaned first.\<close>

fun strip_common :: "string list \<Rightarrow> string list \<Rightarrow> string list \<times> string list" where
  "strip_common (b # bs) (t # ts) = (if b = t then strip_common bs ts else (b # bs, t # ts))"
| "strip_common bs ts = (bs, ts)"

definition path_rel :: "string \<Rightarrow> string \<Rightarrow> go_error + string" where
  "path_rel base targ =
     (if rooted base \<noteq> rooted targ then Inl (ErrText ''Rel: can't make target relative to base'')
      else (case strip_common (clean_comps (rooted base) [] (components base))
                              (clean_comps (rooted targ) [] (components targ)) of
              (bs, ts) \<Rightarrow>
                (case bs of
                   [] \<Rightarrow> Inr (path_text False ts)
                 | b # _ \<Rightarrow>
                     if b = ''..'' then Inl (ErrText ''Rel: can't make target relative to base'')
                     else Inr (path_text False (map (\<lambda>_. ''..'') bs @ ts)))))"

text \<open>A component that names an entry: not empty, no slash, not \<^verbatim>\<open>.\<close> or \<^verbatim>\<open>..\<close>.\<close>

definition plain :: "string \<Rightarrow> bool" where
  "plain c \<longleftrightarrow> c \<noteq> [] \<and> c \<noteq> ''.'' \<and> c \<noteq> ''..'' \<and> CHR ''/'' \<notin> set c"

lemma clean_comps_plain:
  "list_all plain cs \<Longrightarrow> clean_comps r stack cs = rev stack @ cs"
  by (induction cs arbitrary: stack) (auto simp: plain_def)

lemma split_on_no_sep: "c \<notin> set p \<Longrightarrow> split_on c p = [p]"
  by (induction p) auto

lemma split_on_append: "c \<notin> set p \<Longrightarrow> split_on c (p @ c # s) = p # split_on c s"
  by (induction p) auto

lemma split_join: "ps \<noteq> [] \<Longrightarrow> \<forall>p\<in>set ps. c \<notin> set p \<Longrightarrow> split_on c (join [c] ps) = ps"
proof (induction "[c]" ps rule: join.induct)
  case (3 x y ys)
  then show ?case by (simp add: split_on_append)
qed (auto simp: split_on_no_sep)

lemma filter_plain: "list_all plain cs \<Longrightarrow> filter (\<lambda>c. c \<noteq> [] \<and> c \<noteq> ''.'') cs = cs"
  by (induction cs) (auto simp: plain_def)

lemma plain_no_slash: "list_all plain cs \<Longrightarrow> \<forall>p\<in>set cs. CHR ''/'' \<notin> set p"
  by (auto simp: list_all_iff plain_def)

text \<open>The text of a plain absolute path and its components determine each other.\<close>

definition abs_text :: "string list \<Rightarrow> string" where
  "abs_text cs = path_text True cs"

lemma rooted_abs_text [simp]: "rooted (abs_text cs)"
  by (simp add: rooted_def abs_text_def path_text_def)

lemma components_abs_text [simp]: "list_all plain cs \<Longrightarrow> components (abs_text cs) = cs"
proof (cases "cs = []")
  case False
  assume p: "list_all plain cs"
  have "split_on CHR ''/'' (CHR ''/'' # join ''/'' cs) = [] # cs"
    using False plain_no_slash [OF p] by (simp add: split_join)
  then show ?thesis
    using filter_plain [OF p] by (simp add: components_def abs_text_def path_text_def)
qed (simp add: components_def abs_text_def path_text_def)

lemma path_clean_abs_text [simp]: "list_all plain cs \<Longrightarrow> path_clean (abs_text cs) = abs_text cs"
  by (simp add: path_clean_def clean_comps_plain, simp add: abs_text_def)

lemma components_append_slash:
  "components (p @ CHR ''/'' # s) = components p @ components s"
proof -
  have "split_on CHR ''/'' (p @ CHR ''/'' # s) = split_on CHR ''/'' p @ split_on CHR ''/'' s"
    by (induction p) (auto split: list.splits)
  then show ?thesis by (simp add: components_def)
qed

lemma components_join: "list_all plain cs \<Longrightarrow> components (join ''/'' cs) = cs"
proof (cases "cs = []")
  case False
  assume p: "list_all plain cs"
  then have "split_on CHR ''/'' (join ''/'' cs) = cs"
    using False plain_no_slash [OF p] by (simp add: split_join)
  then show ?thesis using filter_plain [OF p] by (simp add: components_def)
qed (simp add: components_def)

lemma components_path_text: "list_all plain cs \<Longrightarrow> components (path_text r cs) = cs"
  using components_abs_text [of cs] components_join [of cs]
  by (auto simp: path_text_def abs_text_def components_def)

lemma abs_text_not_Nil [simp]: "abs_text cs \<noteq> []"
  by (simp add: abs_text_def path_text_def)

lemma path_join_abs_text [simp]:
  assumes "list_all plain cs" and "list_all plain ds"
  shows "path_join [abs_text cs, path_text False ds] = abs_text (cs @ ds)"
proof -
  have "path_join [abs_text cs, path_text False ds] =
          path_clean (abs_text cs @ CHR ''/'' # path_text False ds)"
    by (simp add: path_join_def)
  moreover have "rooted (abs_text cs @ CHR ''/'' # path_text False ds)"
    by (simp add: rooted_def abs_text_def path_text_def)
  moreover have "list_all plain (cs @ ds)"
    using assms by simp
  ultimately show ?thesis
    using assms
    by (simp add: path_clean_def components_append_slash components_path_text clean_comps_plain
        abs_text_def)
qed

lemma path_join_abs_text1 [simp]:
  assumes "list_all plain cs" and "plain n"
  shows "path_join [abs_text cs, n] = abs_text (cs @ [n])"
  using path_join_abs_text [of cs "[n]"] assms by (simp add: path_text_def)

lemma strip_common_append: "strip_common bs (bs @ ts) = ([], ts)"
  by (induction bs) (cases ts, simp_all)

lemma path_rel_abs_text [simp]:
  assumes "list_all plain cs" and "list_all plain ds"
  shows "path_rel (abs_text cs) (abs_text (cs @ ds)) = Inr (path_text False ds)"
  using assms by (simp add: path_rel_def clean_comps_plain strip_common_append)

lemma join_snoc: "cs \<noteq> [] \<Longrightarrow> join sep (cs @ [n]) = join sep cs @ sep @ n"
  by (induction cs rule: induct_list012) simp_all

lemma abs_text_snoc:
  "abs_text (cs @ [n]) = (if cs = [] then [] else abs_text cs) @ CHR ''/'' # n"
  by (simp add: abs_text_def path_text_def join_snoc)

lemma drop_last_segment:
  "CHR ''/'' \<notin> set n \<Longrightarrow>
   rev (dropWhile (\<lambda>c. c \<noteq> CHR ''/'') (rev (p @ CHR ''/'' # n))) = p @ ''/''"
  by (simp add: dropWhile_append)

lemma path_dir_abs_text [simp]:
  assumes "list_all plain cs" and "plain n"
  shows "path_dir (abs_text (cs @ [n])) = abs_text cs"
proof -
  have n: "CHR ''/'' \<notin> set n" using assms(2) by (simp add: plain_def)
  have d: "path_dir (abs_text (cs @ [n])) =
               path_clean ((if cs = [] then [] else abs_text cs) @ ''/'')"
    unfolding path_dir_def abs_text_snoc by (simp only: drop_last_segment [OF n])
  show ?thesis
  proof (cases "cs = []")
    case True
    with d show ?thesis
      by (simp add: path_clean_def rooted_def components_def abs_text_def)
  next
    case False
    have "rooted (abs_text cs @ ''/'')"
      by (simp add: rooted_def abs_text_def path_text_def)
    with d False assms(1) show ?thesis
      by (simp add: path_clean_def components_append_slash clean_comps_plain)
         (simp add: components_def abs_text_def clean_comps_plain)
  qed
qed

end
