(* ===== verification/File_System.thy ===== *)
theory File_System
  imports Go_Strings
begin

text \<open>
  The file system as the repository sees it through Go's \<^verbatim>\<open>os\<close> and \<^verbatim>\<open>path/filepath\<close>: a finite
  map from absolute component lists to directories, regular files and symbolic links, a
  working directory, a umask, and a fault table, which makes any single call fail with any
  error (no space, no permission) so that every error branch of the code can be reached.
  Paths are strings, as in the code; \<open>walk_links\<close> resolves them as the kernel does.
\<close>

section \<open>State\<close>

datatype node = NDir | NFile string nat | NLink string

record fsys =
  nodes :: "(string list \<times> node) list"
  cwd :: "string list"
  umask :: nat
  fault :: "string \<Rightarrow> string \<Rightarrow> go_error option"

definition node_at :: "fsys \<Rightarrow> string list \<Rightarrow> node option" where
  "node_at s q = (if q = [] then Some NDir else map_of (nodes s) q)"

definition set_node :: "string list \<Rightarrow> node \<Rightarrow> fsys \<Rightarrow> fsys" where
  "set_node q n s = s\<lparr>nodes := put q n (nodes s)\<rparr>"

text \<open>The names of the entries of a directory, sorted, as \<^verbatim>\<open>os.ReadDir\<close> lists them.\<close>

definition child_names :: "fsys \<Rightarrow> string list \<Rightarrow> string list" where
  "child_names s q =
     sort (remdups (map (\<lambda>(p, _). last p)
       (filter (\<lambda>(p, _). p \<noteq> [] \<and> butlast p = q) (nodes s))))"

section \<open>Resolving paths\<close>

text \<open>
  A path under resolution is a flag (rooted?) and the components already resolved; a relative
  one may start with \<^verbatim>\<open>..\<close> components, which are read from the working directory.
\<close>

definition place :: "fsys \<Rightarrow> bool \<Rightarrow> string list \<Rightarrow> string list" where
  "place s r dest = clean_comps True [] ((if r then [] else cwd s) @ dest)"

definition step_up :: "bool \<Rightarrow> string list \<Rightarrow> string list" where
  "step_up r dest =
     (if dest = [] then (if r then [] else [''..''])
      else if last dest = ''..'' then dest @ [''..''] else butlast dest)"

definition too_many_links :: go_error where
  "too_many_links = ErrText ''too many links''"

definition not_a_directory :: go_error where
  "not_a_directory = ErrText ''not a directory''"

definition is_a_directory :: go_error where
  "is_a_directory = ErrText ''is a directory''"

text \<open>
  \<open>follow\<close>: whether a link in the last position is followed; \<open>create\<close>: whether the last
  component may be missing (it is about to be created).  \<open>links\<close> bounds the links walked.
\<close>

function walk_links ::
  "fsys \<Rightarrow> bool \<Rightarrow> bool \<Rightarrow> nat \<Rightarrow> bool \<Rightarrow> string list \<Rightarrow> string list \<Rightarrow> go_error + bool \<times> string list"
where
  "walk_links s follow create links r dest [] = Inr (r, dest)"
| "walk_links s follow create links r dest (c # cs) =
     (if c = ''..'' then walk_links s follow create links r (step_up r dest) cs
      else (case node_at s (place s r (dest @ [c])) of
              None \<Rightarrow> if create \<and> cs = [] then Inr (r, dest @ [c]) else Inl ErrNotExist
            | Some NDir \<Rightarrow> walk_links s follow create links r (dest @ [c]) cs
            | Some (NFile _ _) \<Rightarrow>
                if cs = [] then Inr (r, dest @ [c]) else Inl not_a_directory
            | Some (NLink t) \<Rightarrow>
                if cs = [] \<and> \<not> follow then Inr (r, dest @ [c])
                else (case links of
                        0 \<Rightarrow> Inl too_many_links
                      | Suc l \<Rightarrow>
                          walk_links s follow create l (rooted t \<or> r)
                            (if rooted t then [] else dest) (components t @ cs))))"
  by pat_completeness auto
termination
  by (relation "measures [\<lambda>(s, follow, create, links, r, dest, cs). links,
                          \<lambda>(s, follow, create, links, r, dest, cs). length cs]") auto

text \<open>The kernel gives up after 40 links; \<^verbatim>\<open>filepath.EvalSymlinks\<close> after 255.\<close>

definition locate :: "fsys \<Rightarrow> bool \<Rightarrow> bool \<Rightarrow> string \<Rightarrow> go_error + string list" where
  "locate s follow create p =
     (if p = [] then Inl ErrNotExist
      else (case walk_links s follow create 40 (rooted p) [] (components p) of
              Inl e \<Rightarrow> Inl e
            | Inr (r, dest) \<Rightarrow> Inr (place s r dest)))"

definition eval_symlinks :: "fsys \<Rightarrow> string \<Rightarrow> go_error + string" where
  "eval_symlinks s p =
     (case fault s ''evalsymlinks'' p of Some e \<Rightarrow> Inl e | None \<Rightarrow>
      case walk_links s True False 255 (rooted p) [] (components p) of
        Inl e \<Rightarrow> Inl e
      | Inr (r, dest) \<Rightarrow> Inr (path_text r dest))"

section \<open>Operations of package os\<close>

definition stat_with :: "string \<Rightarrow> bool \<Rightarrow> fsys \<Rightarrow> string \<Rightarrow> go_error + node" where
  "stat_with op follow s p =
     (case fault s op p of Some e \<Rightarrow> Inl e | None \<Rightarrow>
      case locate s follow False p of
        Inl e \<Rightarrow> Inl e
      | Inr q \<Rightarrow> (case node_at s q of None \<Rightarrow> Inl ErrNotExist | Some n \<Rightarrow> Inr n))"

definition os_stat :: "fsys \<Rightarrow> string \<Rightarrow> go_error + node" where
  "os_stat = stat_with ''stat'' True"

definition os_lstat :: "fsys \<Rightarrow> string \<Rightarrow> go_error + node" where
  "os_lstat = stat_with ''lstat'' False"

definition os_read_file :: "fsys \<Rightarrow> string \<Rightarrow> go_error + string" where
  "os_read_file s p =
     (case stat_with ''open'' True s p of
        Inl e \<Rightarrow> Inl e
      | Inr (NFile content _) \<Rightarrow>
          (case fault s ''read'' p of Some e \<Rightarrow> Inl e | None \<Rightarrow> Inr content)
      | Inr _ \<Rightarrow> Inl is_a_directory)"

text \<open>Opening with \<^verbatim>\<open>O_CREATE|O_WRONLY|O_TRUNC\<close>: a new file gets the masked mode, an old one keeps its own.\<close>

definition masked :: "fsys \<Rightarrow> nat \<Rightarrow> nat" where
  "masked s mode = mode - Bit_Operations.and mode (umask s)"

definition os_open_trunc :: "string \<Rightarrow> nat \<Rightarrow> fsys \<Rightarrow> (go_error + string list) \<times> fsys" where
  "os_open_trunc p mode s =
     (case fault s ''create'' p of Some e \<Rightarrow> (Inl e, s) | None \<Rightarrow>
      case locate s True True p of
        Inl e \<Rightarrow> (Inl e, s)
      | Inr q \<Rightarrow>
          (case node_at s q of
             None \<Rightarrow> (Inr q, set_node q (NFile [] (masked s mode)) s)
           | Some (NFile _ m) \<Rightarrow> (Inr q, set_node q (NFile [] m) s)
           | Some _ \<Rightarrow> (Inl is_a_directory, s)))"

definition put_content :: "string list \<Rightarrow> string \<Rightarrow> fsys \<Rightarrow> fsys" where
  "put_content q data s =
     (case node_at s q of Some (NFile _ m) \<Rightarrow> set_node q (NFile data m) s | _ \<Rightarrow> s)"

definition os_write_file :: "string \<Rightarrow> string \<Rightarrow> nat \<Rightarrow> fsys \<Rightarrow> (go_error + unit) \<times> fsys" where
  "os_write_file p data mode s =
     (case os_open_trunc p mode s of
        (Inl e, s') \<Rightarrow> (Inl e, s')
      | (Inr q, s') \<Rightarrow>
          (case fault s ''write'' p of
             Some e \<Rightarrow> (Inl e, s')
           | None \<Rightarrow> (Inr (), put_content q data s')))"

text \<open>\<^verbatim>\<open>os.MkdirAll\<close>: every missing directory of the path, from the top.\<close>

fun mkdir_each :: "fsys \<Rightarrow> bool \<Rightarrow> string list \<Rightarrow> string list \<Rightarrow> (go_error + unit) \<times> fsys" where
  "mkdir_each s r pre [] = (Inr (), s)"
| "mkdir_each s r pre (c # cs) =
     (case walk_links s True True 40 r [] (pre @ [c]) of
        Inl e \<Rightarrow> (Inl e, s)
      | Inr (r', dest) \<Rightarrow>
          (case node_at s (place s r' dest) of
             None \<Rightarrow> mkdir_each (set_node (place s r' dest) NDir s) r (pre @ [c]) cs
           | Some NDir \<Rightarrow> mkdir_each s r (pre @ [c]) cs
           | Some _ \<Rightarrow> (Inl not_a_directory, s)))"

definition os_mkdir_all :: "string \<Rightarrow> fsys \<Rightarrow> (go_error + unit) \<times> fsys" where
  "os_mkdir_all p s =
     (case fault s ''mkdir'' p of Some e \<Rightarrow> (Inl e, s) | None \<Rightarrow>
      if p = [] then (Inl ErrNotExist, s)
      else mkdir_each s (rooted p) [] (components p))"

definition os_mkdir :: "string \<Rightarrow> fsys \<Rightarrow> (go_error + unit) \<times> fsys" where
  "os_mkdir p s =
     (case fault s ''mkdir'' p of Some e \<Rightarrow> (Inl e, s) | None \<Rightarrow>
      case locate s False True p of
        Inl e \<Rightarrow> (Inl e, s)
      | Inr q \<Rightarrow>
          (case node_at s q of
             None \<Rightarrow> (Inr (), set_node q NDir s)
           | Some _ \<Rightarrow> (Inl (ErrText ''file exists''), s)))"

definition os_read_dir :: "fsys \<Rightarrow> string \<Rightarrow> go_error + (string \<times> node) list" where
  "os_read_dir s p =
     (case fault s ''readdir'' p of Some e \<Rightarrow> Inl e | None \<Rightarrow>
      case locate s True False p of
        Inl e \<Rightarrow> Inl e
      | Inr q \<Rightarrow>
          (case node_at s q of
             Some NDir \<Rightarrow>
               Inr (List.map_filter
                      (\<lambda>n. map_option (Pair n) (node_at s (q @ [n]))) (child_names s q))
           | _ \<Rightarrow> Inl not_a_directory))"

text \<open>\<^verbatim>\<open>os.RemoveAll\<close>: the path itself (a link is not followed) and all below it.\<close>

definition under :: "string list \<Rightarrow> string list \<Rightarrow> bool" where
  "under q p \<longleftrightarrow> take (length q) p = q"

definition remove_tree :: "string list \<Rightarrow> fsys \<Rightarrow> fsys" where
  "remove_tree q s = s\<lparr>nodes := filter (\<lambda>(p, _). \<not> under q p) (nodes s)\<rparr>"

definition os_remove_all :: "string \<Rightarrow> fsys \<Rightarrow> (go_error + unit) \<times> fsys" where
  "os_remove_all p s =
     (case fault s ''remove'' p of Some e \<Rightarrow> (Inl e, s) | None \<Rightarrow>
      case locate s False False p of
        Inl ErrNotExist \<Rightarrow> (Inr (), s)
      | Inl e \<Rightarrow> (Inl e, s)
      | Inr q \<Rightarrow> (Inr (), remove_tree q s))"

section \<open>filepath.WalkDir\<close>

text \<open>
  The callback sees a path, the entry (\<open>None\<close> when the root itself cannot be read) and the
  error of reading it, and may change the state it shares with the walk.  The state has a
  file system in it, reached through \<open>fsof\<close>, because the walk reads each directory when it
  enters it.  Directories nest no deeper than \<open>fuel\<close>; running out is the value \<open>None\<close>.
\<close>

datatype walk_ret = WOk | WSkipDir | WErr go_error

type_synonym 's walk_fn =
  "'s \<Rightarrow> string \<Rightarrow> node option \<Rightarrow> go_error option \<Rightarrow> (walk_ret \<times> 's) option"

fun walk_dir :: "('s \<Rightarrow> fsys) \<Rightarrow> nat \<Rightarrow> 's walk_fn \<Rightarrow> string \<Rightarrow> node \<Rightarrow> 's \<Rightarrow> (walk_ret \<times> 's) option"
and walk_entries ::
  "('s \<Rightarrow> fsys) \<Rightarrow> nat \<Rightarrow> 's walk_fn \<Rightarrow> string \<Rightarrow> (string \<times> node) list \<Rightarrow> 's \<Rightarrow> (walk_ret \<times> 's) option"
where
  "walk_dir fsof 0 fn path d s = None"
| "walk_dir fsof (Suc fuel) fn path d s =
     (case fn s path (Some d) None of
        None \<Rightarrow> None
      | Some (WErr e, s') \<Rightarrow> Some (WErr e, s')
      | Some (WSkipDir, s') \<Rightarrow> Some (if d = NDir then WOk else WSkipDir, s')
      | Some (WOk, s') \<Rightarrow>
          if d \<noteq> NDir then Some (WOk, s')
          else (case os_read_dir (fsof s') path of
                  Inl e \<Rightarrow>
                    (case fn s' path (Some d) (Some e) of
                       Some (WSkipDir, s'') \<Rightarrow> Some (WOk, s'')
                     | res \<Rightarrow> res)
                | Inr ents \<Rightarrow> walk_entries fsof fuel fn path ents s'))"
| "walk_entries fsof fuel fn path [] s = Some (WOk, s)"
| "walk_entries fsof fuel fn path ((name, d) # ents) s =
     (case walk_dir fsof fuel fn (path_join [path, name]) d s of
        None \<Rightarrow> None
      | Some (WOk, s') \<Rightarrow> walk_entries fsof fuel fn path ents s'
      | Some (WSkipDir, s') \<Rightarrow> Some (WOk, s')
      | Some (WErr e, s') \<Rightarrow> Some (WErr e, s'))"

definition walk :: "('s \<Rightarrow> fsys) \<Rightarrow> nat \<Rightarrow> 's walk_fn \<Rightarrow> string \<Rightarrow> 's \<Rightarrow> (go_error option \<times> 's) option" where
  "walk fsof fuel fn root s =
     (case (case os_lstat (fsof s) root of
              Inl e \<Rightarrow> fn s root None (Some e)
            | Inr d \<Rightarrow> walk_dir fsof fuel fn root d s) of
        None \<Rightarrow> None
      | Some (WErr e, s') \<Rightarrow> Some (Some e, s')
      | Some (_, s') \<Rightarrow> Some (None, s'))"

section \<open>Lemmas\<close>

named_theorems fs_simps "reading a file system after a write"

lemma node_at_root [fs_simps, simp]: "node_at s [] = Some NDir"
  by (simp add: node_at_def)

lemma node_at_set_node [fs_simps]:
  "q \<noteq> [] \<Longrightarrow> node_at (set_node q n s) p = (if p = q then Some n else node_at s p)"
  by (auto simp: node_at_def set_node_def)

lemma set_node_frame [fs_simps, simp]:
  "cwd (set_node q n s) = cwd s"
  "umask (set_node q n s) = umask s"
  "fault (set_node q n s) = fault s"
  by (simp_all add: set_node_def)

lemma put_content_frame [fs_simps, simp]:
  "cwd (put_content q d s) = cwd s"
  "umask (put_content q d s) = umask s"
  "fault (put_content q d s) = fault s"
  by (simp_all add: put_content_def split: option.splits node.splits)

lemma node_at_put_content [fs_simps]:
  "node_at (put_content q d s) p =
     (case node_at s q of
        Some (NFile _ m) \<Rightarrow> if p = q then Some (NFile d m) else node_at s p
      | _ \<Rightarrow> node_at s p)"
  by (cases "q = []") (auto simp: put_content_def node_at_set_node split: option.splits node.splits)

text \<open>
  A well-formed file system: every path is a plain, non-empty component list whose parent is
  a directory, and no path occurs twice.
\<close>

definition fs_wf :: "fsys \<Rightarrow> bool" where
  "fs_wf s \<longleftrightarrow> keys_distinct (nodes s) \<and>
     (\<forall>p\<in>set (map fst (nodes s)). p \<noteq> [] \<and> list_all plain p \<and> node_at s (butlast p) = Some NDir)"

lemma fs_wf_node:
  assumes "fs_wf s" and "node_at s q = Some n" and "q \<noteq> []"
  shows "list_all plain q" and "node_at s (butlast q) = Some NDir"
proof -
  from assms(2,3) have "(q, n) \<in> set (nodes s)"
    by (auto simp: node_at_def dest: map_of_SomeD)
  then have "q \<in> set (map fst (nodes s))" by force
  with assms(1) show "list_all plain q" and "node_at s (butlast q) = Some NDir"
    by (auto simp: fs_wf_def)
qed

lemma node_at_set_node_dir:
  "node_at s p = Some NDir \<Longrightarrow> node_at s q \<noteq> Some NDir \<or> n = NDir \<Longrightarrow>
   node_at (set_node q n s) p = Some NDir"
  by (auto simp: node_at_def set_node_def)

text \<open>Writing a node keeps well-formedness when its parent is a directory and no directory is overwritten.\<close>

lemma fs_wf_set_node:
  assumes "fs_wf s" and "q \<noteq> []" and "list_all plain q"
    and "node_at s (butlast q) = Some NDir" and "node_at s q \<noteq> Some NDir \<or> n = NDir"
  shows "fs_wf (set_node q n s)"
  unfolding fs_wf_def
proof (intro conjI ballI)
  show "keys_distinct (nodes (set_node q n s))"
    using assms(1) by (simp add: fs_wf_def set_node_def)
  fix p
  assume "p \<in> set (map fst (nodes (set_node q n s)))"
  then consider "p = q" | "p \<in> set (map fst (nodes s))"
    by (auto simp: set_node_def fst_set_put)
  then have "p \<noteq> [] \<and> list_all plain p \<and> node_at s (butlast p) = Some NDir"
    by cases (use assms in \<open>auto simp: fs_wf_def\<close>)
  then show "p \<noteq> []" and "list_all plain p" and "node_at (set_node q n s) (butlast p) = Some NDir"
    using node_at_set_node_dir [OF _ assms(5)] by blast+
qed

subsection \<open>Resolving a path that holds no link\<close>

definition dir_chain :: "fsys \<Rightarrow> string list \<Rightarrow> bool" where
  "dir_chain s q \<longleftrightarrow> (\<forall>k\<le>length q. node_at s (take k q) = Some NDir)"

lemma dir_chain_Nil [simp]: "dir_chain s []"
  by (simp add: dir_chain_def)

lemma dir_chain_snoc: "dir_chain s (q @ [c]) \<longleftrightarrow> dir_chain s q \<and> node_at s (q @ [c]) = Some NDir"
  unfolding dir_chain_def
  by (auto simp: le_Suc_eq)

lemma dir_chain_wf: "fs_wf s \<Longrightarrow> node_at s q = Some NDir \<Longrightarrow> dir_chain s q"
proof (induction q rule: rev_induct)
  case Nil
  then show ?case by simp
next
  case (snoc c q)
  then show ?case
    using fs_wf_node(2) [of s "q @ [c]" NDir] by (simp add: dir_chain_snoc)
qed

lemma place_plain [simp]: "list_all plain q \<Longrightarrow> place s True q = q"
  by (simp add: place_def clean_comps_plain)

lemma not_plain_dotdot [simp]: "\<not> plain ''..''"
  by (simp add: plain_def)

lemma walk_links_dirs:
  assumes "list_all plain (dest @ q)" and "dir_chain s (dest @ q)"
  shows "walk_links s follow create links True dest (q @ cs) =
         walk_links s follow create links True (dest @ q) cs"
  using assms
proof (induction q arbitrary: dest)
  case Nil
  then show ?case by simp
next
  case (Cons c q)
  have "node_at s (take (Suc (length dest)) (dest @ c # q)) = Some NDir"
    using Cons.prems(2) unfolding dir_chain_def
    by (metis append_eq_append_conv2 length_append le_add1 length_Cons add_Suc_right Suc_le_mono)
  then have "node_at s (dest @ [c]) = Some NDir" by simp
  moreover have "c \<noteq> ''..''" and "place s True (dest @ [c]) = dest @ [c]"
    using Cons.prems(1) by auto
  ultimately show ?case
    using Cons.prems Cons.IH [of "dest @ [c]"] by simp
qed

text \<open>The outcomes of resolving a plain absolute path whose parent chain is directories.\<close>

lemma walk_links_last:
  assumes "list_all plain (q @ [c])" and "dir_chain s q"
  shows "walk_links s follow create links True [] (q @ [c]) =
           walk_links s follow create links True q [c]"
  using walk_links_dirs [of "[]" q s follow create links "[c]"] assms by simp

lemma locate_node:
  assumes "list_all plain q" and "q \<noteq> [] \<longrightarrow> dir_chain s (butlast q)"
    and "node_at s q = Some n" and "\<And>t. n = NLink t \<Longrightarrow> \<not> follow"
  shows "locate s follow create (abs_text q) = Inr q"
proof (cases q rule: rev_exhaust)
  case Nil
  then show ?thesis by (simp add: locate_def)
next
  case (snoc q' c)
  then have "c \<noteq> ''..''" and "place s True q = q"
    using assms(1) by auto
  with snoc assms have "walk_links s follow create 40 True [] q = Inr (True, q)"
    by (cases n) (auto simp: walk_links_last)
  then show ?thesis using assms(1) by (simp add: locate_def)
qed

lemma locate_missing:
  assumes "list_all plain (q @ [c])" and "dir_chain s q" and "node_at s (q @ [c]) = None"
  shows "locate s follow create (abs_text (q @ [c])) =
           (if create then Inr (q @ [c]) else Inl ErrNotExist)"
proof -
  have "c \<noteq> ''..''" and "place s True (q @ [c]) = q @ [c]"
    using assms(1) by auto
  then have "walk_links s follow create 40 True [] (q @ [c]) =
          (if create then Inr (True, q @ [c]) else Inl ErrNotExist)"
    using assms by (simp add: walk_links_last)
  then show ?thesis using assms(1) by (auto simp: locate_def)
qed

subsection \<open>Directory listings\<close>

lemma set_child_names:
  assumes "fs_wf s"
  shows "set (child_names s q) = {c. node_at s (q @ [c]) \<noteq> None}"
proof -
  have "c \<in> set (child_names s q) \<longleftrightarrow> q @ [c] \<in> fst ` set (nodes s)" for c
    by (auto simp: child_names_def image_iff) (metis append_butlast_last_id fst_conv, force)
  then show ?thesis
    by (auto simp: node_at_def map_of_eq_None_iff)
qed

lemma distinct_child_names [simp]: "distinct (child_names s q)"
  by (simp add: child_names_def)

lemma sorted_child_names [simp]: "sorted (child_names s q)"
  by (simp add: child_names_def)

lemma read_dir_entries:
  assumes "fs_wf s" and "fault s = (\<lambda>_ _. None)" and "node_at s q = Some NDir"
  shows "os_read_dir s (abs_text q) =
    Inr (List.map_filter (\<lambda>c. map_option (Pair c) (node_at s (q @ [c]))) (child_names s q))"
proof -
  have "list_all plain q" "q \<noteq> [] \<longrightarrow> dir_chain s (butlast q)"
    using fs_wf_node [OF assms(1,3)] dir_chain_wf [OF assms(1)] by (cases "q = []"; simp)+
  then have "locate s True False (abs_text q) = Inr q"
    using assms(3) by (intro locate_node) auto
  then show ?thesis
    using assms(2,3) by (simp add: os_read_dir_def)
qed

subsection \<open>Making directories and writing files\<close>

lemma set_node_twice: "set_node q n (set_node q n' s) = set_node q n s"
proof -
  have "put q n (put q n' m) = put q n m" for m :: "(string list \<times> node) list"
    by (induction m rule: list.induct) auto
  then show ?thesis by (simp add: set_node_def)
qed

lemma dir_chain_prefix: "dir_chain s (p @ q) \<Longrightarrow> dir_chain s p"
  unfolding dir_chain_def
proof (intro allI impI)
  fix k
  assume chain: "\<forall>k\<le>length (p @ q). node_at s (take k (p @ q)) = Some NDir" and k: "k \<le> length p"
  then have "take k (p @ q) = take k p" by simp
  with chain k show "node_at s (take k p) = Some NDir"
    by (metis le_add1 le_trans length_append)
qed

text \<open>Above a node there are only directories.\<close>

lemma wf_parent:
  assumes "fs_wf s" and "node_at s (p @ y) \<noteq> None" and "y \<noteq> []"
  shows "node_at s p = Some NDir" and "node_at s (p @ [hd y]) \<noteq> None"
proof -
  obtain ys c where y: "y = ys @ [c]" using assms(3) by (cases y rule: rev_exhaust) auto
  then have "node_at s (p @ ys) = Some NDir"
    using fs_wf_node(2) [OF assms(1), of "p @ y"] assms(2) by (auto simp: butlast_append)
  then have chain: "dir_chain s (p @ ys)" by (rule dir_chain_wf [OF assms(1)])
  from dir_chain_prefix [OF this] show "node_at s p = Some NDir"
    by (simp add: dir_chain_def) (metis order_refl take_all)
  show "node_at s (p @ [hd y]) \<noteq> None"
  proof (cases ys)
    case Nil
    with y assms(2) show ?thesis by simp
  next
    case (Cons a as)
    then have "dir_chain s (p @ [a])"
      using chain dir_chain_prefix [of s "p @ [a]" as] by simp
    with y Cons show ?thesis by (simp add: dir_chain_snoc)
  qed
qed

lemma mkdir_each_dirs:
  assumes "list_all plain (pre @ q)" and "dir_chain s (pre @ q)"
  shows "mkdir_each s True pre (q @ cs) = mkdir_each s True (pre @ q) cs"
  using assms
proof (induction q arbitrary: pre)
  case (Cons c q)
  have chain: "dir_chain s (pre @ [c])"
    using dir_chain_prefix [of s "pre @ [c]" q] Cons.prems(2) by simp
  then have "walk_links s True True 40 True [] (pre @ [c]) = Inr (True, pre @ [c])"
    using walk_links_dirs [of "[]" "pre @ [c]" s True True 40 "[]"] Cons.prems(1) by simp
  moreover have "node_at s (pre @ [c]) = Some NDir"
    using chain by (simp add: dir_chain_snoc)
  moreover have "place s True (pre @ [c]) = pre @ [c]"
    using Cons.prems(1) by simp
  ultimately show ?case
    using Cons.IH [of "pre @ [c]"] Cons.prems by simp
qed simp

lemma mkdir_all_existing:
  assumes "list_all plain q" and "dir_chain s q" and "fault s ''mkdir'' (abs_text q) = None"
  shows "os_mkdir_all (abs_text q) s = (Inr (), s)"
  using mkdir_each_dirs [of "[]" q s "[]"] assms by (simp add: os_mkdir_all_def)

lemma mkdir_all_new:
  assumes "list_all plain (q @ [c])" and "dir_chain s q" and "node_at s (q @ [c]) = None"
    and "fault s ''mkdir'' (abs_text (q @ [c])) = None"
  shows "os_mkdir_all (abs_text (q @ [c])) s = (Inr (), set_node (q @ [c]) NDir s)"
proof -
  have "walk_links s True True 40 True [] (q @ [c]) = Inr (True, q @ [c])"
    using assms by (auto simp: walk_links_last plain_def)
  moreover have "place s True (q @ [c]) = q @ [c]"
    using assms(1) by simp
  ultimately show ?thesis
    using mkdir_each_dirs [of "[]" q s "[c]"] assms by (simp add: os_mkdir_all_def)
qed

text \<open>Writing a file into an existing directory, with no fault on the way.\<close>

lemma write_file_in_dir:
  assumes "fs_wf s" and "list_all plain (d @ [n])" and "node_at s d = Some NDir"
    and "fault s = (\<lambda>_ _. None)" and "\<forall>t. node_at s (d @ [n]) \<noteq> Some (NLink t)"
    and "node_at s (d @ [n]) \<noteq> Some NDir"
  shows "\<exists>s' m. os_write_file (abs_text (d @ [n])) data mode s = (Inr (), s') \<and> fs_wf s' \<and>
     fault s' = fault s \<and> (\<forall>p. node_at s' p = (if p = d @ [n] then Some (NFile data m) else node_at s p))"
proof -
  have chain: "dir_chain s d" using dir_chain_wf [OF assms(1,3)] .
  show ?thesis
  proof (cases "node_at s (d @ [n])")
    case None
    then have "locate s True True (abs_text (d @ [n])) = Inr (d @ [n])"
      using locate_missing [of d n s True True] assms(2) chain by simp
    moreover have "fs_wf (set_node (d @ [n]) (NFile data m) s)" for m
      using assms by (intro fs_wf_set_node) auto
    ultimately show ?thesis
      using None assms(4)
      by (auto simp: os_write_file_def os_open_trunc_def put_content_def node_at_set_node set_node_twice)
  next
    case (Some nd)
    then obtain c m where nd: "nd = NFile c m" using assms(5,6) by (cases nd) auto
    have "locate s True True (abs_text (d @ [n])) = Inr (d @ [n])"
      using locate_node [of "d @ [n]" s nd True True] assms(2) chain Some nd by simp
    moreover have "fs_wf (set_node (d @ [n]) (NFile data m) s)" for m
      using assms by (intro fs_wf_set_node) auto
    ultimately show ?thesis
      using Some nd assms(4)
      by (auto simp: os_write_file_def os_open_trunc_def put_content_def node_at_set_node set_node_twice)
  qed
qed

end
