(* ===== verification/Testing.thy ===== *)
theory Testing
  imports File_System
begin

text \<open>
  The world a test runs in, Go's \<^verbatim>\<open>testing.TB\<close> as an interface, and the real \<^verbatim>\<open>testing.T\<close>
  behind it.

  Library code is written against \<^verbatim>\<open>testing.TB\<close>, so its model takes the interface value (a
  record of methods, \<open>tb_iface\<close>) as an argument, as Go passes it.  The contract both
  implementations keep is the locale \<open>test_handle\<close>; the code's lemmas are proved in it once
  and hold for the real \<^verbatim>\<open>testing.T\<close> (here) and for the repository's own \<^verbatim>\<open>FakeTB\<close>
  (theory \<^verbatim>\<open>Fake_TB\<close>).  A closure given to \<^verbatim>\<open>Cleanup\<close> is a value of the type \<open>'c\<close>.
\<close>

section \<open>Contexts and the world\<close>

datatype ctx = Background | TestCtx | CallerCtx nat | WithoutCancel ctx

record ('t, 'x) world =
  w_tb :: 't
  w_env :: "string \<Rightarrow> string option"
  w_goos :: string
  w_fs :: fsys
  w_rand :: "string list"
  w_cancelled :: "ctx list"
  w_trace :: "'x list"

text \<open>
  \<^verbatim>\<open>w_tb\<close> is the state of the test handle, \<^verbatim>\<open>w_rand\<close> the names \<^verbatim>\<open>os.MkdirTemp\<close> will draw,
  \<^verbatim>\<open>w_cancelled\<close> the contexts whose cancel function was called, and \<^verbatim>\<open>w_trace\<close> the calls made
  so far to what is outside the process (Docker, Terraform, AWS).  An answer from outside is
  a function of the calls before it: for every behaviour of the outside there is such a
  function, so a theorem that holds for all of them holds for all behaviours, and the trace
  says which calls were made in which order.
\<close>

definition ask :: "'x \<Rightarrow> ('x list \<Rightarrow> 'a) \<Rightarrow> (('t, 'x, 'm) world_scheme, 'a) act" where
  "ask call answer w = (Ret (answer (w_trace w)), w\<lparr>w_trace := w_trace w @ [call]\<rparr>)"

lemma ask_run [act_simps]:
  "ask call answer w = (Ret (answer (w_trace w)), w\<lparr>w_trace := w_trace w @ [call]\<rparr>)"
  by (simp add: ask_def)

definition getenv :: "('t, 'x, 'm) world_scheme \<Rightarrow> string \<Rightarrow> string" where
  "getenv w k = (case w_env w k of None \<Rightarrow> [] | Some v \<Rightarrow> v)"

definition temp_root :: "('t, 'x, 'm) world_scheme \<Rightarrow> string" where
  "temp_root w = (if getenv w ''TMPDIR'' = [] then ''/tmp'' else getenv w ''TMPDIR'')"

definition user_home_dir :: "('t, 'x, 'm) world_scheme \<Rightarrow> go_error + string" where
  "user_home_dir w =
     (if getenv w ''HOME'' = [] then Inl (ErrText ''$HOME is not defined'')
      else Inr (getenv w ''HOME''))"

text \<open>\<^verbatim>\<open>ctx.Err() != nil\<close>.  \<^verbatim>\<open>context.WithoutCancel\<close> is never done.\<close>

definition ctx_done :: "('t, 'x, 'm) world_scheme \<Rightarrow> ctx \<Rightarrow> bool" where
  "ctx_done w c =
     (case c of Background \<Rightarrow> False | WithoutCancel _ \<Rightarrow> False | _ \<Rightarrow> c \<in> set (w_cancelled w))"

lemma ctx_done_simps [simp]:
  "\<not> ctx_done w Background"
  "\<not> ctx_done w (WithoutCancel c)"
  by (simp_all add: ctx_done_def)

lemma ctx_done_frame [simp]:
  "ctx_done (w\<lparr>w_tb := t\<rparr>) c = ctx_done w c"
  "ctx_done (w\<lparr>w_fs := s\<rparr>) c = ctx_done w c"
  "ctx_done (w\<lparr>w_rand := r\<rparr>) c = ctx_done w c"
  "ctx_done (w\<lparr>w_trace := tr\<rparr>) c = ctx_done w c"
  by (simp_all add: ctx_done_def split: ctx.splits)

definition cancel :: "ctx \<Rightarrow> ('t, 'x, 'm) world_scheme \<Rightarrow> ('t, 'x, 'm) world_scheme" where
  "cancel c w = w\<lparr>w_cancelled := c # w_cancelled w\<rparr>"

lemma self_tb: "P (w_tb w) \<Longrightarrow> \<exists>t. w = w\<lparr>w_tb := t\<rparr> \<and> P t"
  by (rule exI [of _ "w_tb w"]) simp

section \<open>The interface testing.TB\<close>

record ('w, 'c) tb_iface =
  m_name :: "'w \<Rightarrow> string"
  m_failed :: "'w \<Rightarrow> bool"
  m_context :: "'w \<Rightarrow> ctx"
  m_errorf :: "string \<Rightarrow> arg list \<Rightarrow> ('w, unit) act"
  m_fatalf :: "string \<Rightarrow> arg list \<Rightarrow> ('w, unit) act"
  m_logf :: "string \<Rightarrow> arg list \<Rightarrow> ('w, unit) act"
  m_skip :: "string \<Rightarrow> ('w, unit) act"
  m_cleanup :: "'c \<Rightarrow> ('w, unit) act"
  m_temp_dir :: "('w, string) act"

text \<open>
  Reporting on a condition, the shape of every assertion: the call returns, the handle ends up
  failed exactly when it was failed before or the condition holds, no closure is registered,
  and nothing outside the handle changes.
\<close>

definition reports ::
  "(('t, 'x, 'm) world_scheme, 'c) tb_iface \<Rightarrow> ('t \<Rightarrow> 'c list) \<Rightarrow> bool \<Rightarrow> ('t, 'x, 'm) world_scheme \<Rightarrow>
   unit outcome \<times> ('t, 'x, 'm) world_scheme \<Rightarrow> bool"
where
  "reports I cleanups_of bad w res \<longleftrightarrow>
     (\<exists>t. res = (Ret (), w\<lparr>w_tb := t\<rparr>) \<and> cleanups_of t = cleanups_of (w_tb w) \<and>
          (m_failed I (w\<lparr>w_tb := t\<rparr>) \<longleftrightarrow> m_failed I w \<or> bad))"

text \<open>
  What every handle promises.  \<open>cleanups_of\<close> reads the registered closures, oldest first.
  A method changes the handle and nothing else of the world.  \<^verbatim>\<open>Fatalf\<close> and \<^verbatim>\<open>Skip\<close> either
  return or stop the goroutine, which is where the implementations differ.
\<close>

locale test_handle =
  fixes I :: "(('t, 'x, 'm) world_scheme, 'c) tb_iface"
    and cleanups_of :: "'t \<Rightarrow> 'c list"
  assumes errorf_law: "\<exists>t. m_errorf I f as w = (Ret (), w\<lparr>w_tb := t\<rparr>) \<and>
      m_failed I (w\<lparr>w_tb := t\<rparr>) \<and> cleanups_of t = cleanups_of (w_tb w)"
    and fatalf_law: "\<exists>oc t. m_fatalf I f as w = (oc, w\<lparr>w_tb := t\<rparr>) \<and> oc \<in> {Ret (), Goexit} \<and>
      m_failed I (w\<lparr>w_tb := t\<rparr>) \<and> cleanups_of t = cleanups_of (w_tb w)"
    and logf_law: "\<exists>t. m_logf I f as w = (Ret (), w\<lparr>w_tb := t\<rparr>) \<and>
      m_failed I (w\<lparr>w_tb := t\<rparr>) = m_failed I w \<and> cleanups_of t = cleanups_of (w_tb w)"
    and skip_law: "\<exists>oc t. m_skip I f w = (oc, w\<lparr>w_tb := t\<rparr>) \<and> oc \<in> {Ret (), Goexit} \<and>
      m_failed I (w\<lparr>w_tb := t\<rparr>) = m_failed I w \<and> cleanups_of t = cleanups_of (w_tb w)"
    and cleanup_law: "\<exists>t. m_cleanup I c w = (Ret (), w\<lparr>w_tb := t\<rparr>) \<and>
      m_failed I (w\<lparr>w_tb := t\<rparr>) = m_failed I w \<and> cleanups_of t = cleanups_of (w_tb w) @ [c]"
    and failed_law: "w_tb w = w_tb w' \<Longrightarrow> m_failed I w = m_failed I w'"
begin

lemma reports_errorf: "reports I cleanups_of True w (m_errorf I f as w)"
  using errorf_law [of f as w] by (auto simp: reports_def)

lemma reports_skip: "reports I cleanups_of False w (Ret (), w)"
proof -
  have "w = w\<lparr>w_tb := w_tb w\<rparr>" by simp
  then show ?thesis unfolding reports_def by (intro exI [of _ "w_tb w"]) simp
qed

lemma reports_andthen:
  assumes "reports I cleanups_of b w (m w)"
    and "\<And>t. reports I cleanups_of b' (w\<lparr>w_tb := t\<rparr>) (k (w\<lparr>w_tb := t\<rparr>))"
  shows "reports I cleanups_of (b \<or> b') w (andthen m k w)"
proof -
  obtain t where t: "m w = (Ret (), w\<lparr>w_tb := t\<rparr>)" "cleanups_of t = cleanups_of (w_tb w)"
      "m_failed I (w\<lparr>w_tb := t\<rparr>) \<longleftrightarrow> m_failed I w \<or> b"
    using assms(1) by (auto simp: reports_def)
  obtain t' where "k (w\<lparr>w_tb := t\<rparr>) = (Ret (), w\<lparr>w_tb := t'\<rparr>)" "cleanups_of t' = cleanups_of t"
      "m_failed I (w\<lparr>w_tb := t'\<rparr>) \<longleftrightarrow> m_failed I (w\<lparr>w_tb := t\<rparr>) \<or> b'"
    using assms(2) [of t] by (auto simp: reports_def)
  with t show ?thesis by (auto simp: reports_def andthen_run)
qed

end

section \<open>The real testing.T\<close>

record 'c gotest =
  t_name :: string
  t_failed :: bool
  t_skipped :: bool
  t_cleanups :: "'c list"
  t_output :: "(string \<times> arg list) list"
  t_temp :: string
  t_seq :: nat

type_synonym ('c, 'x, 'm) tworld = "('c gotest, 'x, 'm) world_scheme"

definition on_tb :: "('t \<Rightarrow> 't) \<Rightarrow> ('t, 'x, 'm) world_scheme \<Rightarrow> ('t, 'x, 'm) world_scheme" where
  "on_tb f w = w\<lparr>w_tb := f (w_tb w)\<rparr>"

definition t_log :: "string \<Rightarrow> arg list \<Rightarrow> 'c gotest \<Rightarrow> 'c gotest" where
  "t_log f as t = t\<lparr>t_output := t_output t @ [(f, as)]\<rparr>"

text \<open>\<^verbatim>\<open>Errorf\<close> is \<^verbatim>\<open>Logf\<close> and \<^verbatim>\<open>Fail\<close>; \<^verbatim>\<open>Fatalf\<close> is \<^verbatim>\<open>Logf\<close> and \<^verbatim>\<open>FailNow\<close>, which stops the goroutine.\<close>

definition real_errorf :: "string \<Rightarrow> arg list \<Rightarrow> (('c, 'x, 'm) tworld, unit) act" where
  "real_errorf f as w = (Ret (), on_tb (\<lambda>t. (t_log f as t)\<lparr>t_failed := True\<rparr>) w)"

definition real_fatalf :: "string \<Rightarrow> arg list \<Rightarrow> (('c, 'x, 'm) tworld, unit) act" where
  "real_fatalf f as w = (Goexit, on_tb (\<lambda>t. (t_log f as t)\<lparr>t_failed := True\<rparr>) w)"

definition real_logf :: "string \<Rightarrow> arg list \<Rightarrow> (('c, 'x, 'm) tworld, unit) act" where
  "real_logf f as w = (Ret (), on_tb (t_log f as) w)"

definition real_skip :: "string \<Rightarrow> (('c, 'x, 'm) tworld, unit) act" where
  "real_skip f w = (Goexit, on_tb (\<lambda>t. (t_log f [] t)\<lparr>t_skipped := True\<rparr>) w)"

definition real_cleanup :: "'c \<Rightarrow> (('c, 'x, 'm) tworld, unit) act" where
  "real_cleanup c w = (Ret (), on_tb (\<lambda>t. t\<lparr>t_cleanups := t_cleanups t @ [c]\<rparr>) w)"

text \<open>
  \<^verbatim>\<open>os.MkdirTemp("", name)\<close>: draw names until one is free.  The supply \<^verbatim>\<open>w_rand\<close> stands for
  the random numbers; when it is used up the call fails, as it does after 10000 tries.
\<close>

fun mkdir_temp :: "string \<Rightarrow> string \<Rightarrow> string list \<Rightarrow> fsys \<Rightarrow> (go_error + string) \<times> string list \<times> fsys" where
  "mkdir_temp root pre [] s = (Inl (ErrText ''MkdirTemp: file exists''), [], s)"
| "mkdir_temp root pre (r # rs) s =
     (let p = path_join [root, pre @ r] in
      case fault s ''mkdirtemp'' p of
        Some e \<Rightarrow> (Inl e, rs, s)
      | None \<Rightarrow>
          (case locate s False True p of
             Inl e \<Rightarrow> (Inl e, rs, s)
           | Inr q \<Rightarrow>
               (case node_at s q of
                  Some _ \<Rightarrow> mkdir_temp root pre rs s
                | None \<Rightarrow> (Inr p, rs, set_node q NDir s))))"

text \<open>\<^verbatim>\<open>%03d\<close> of the per-test sequence number.\<close>

definition seq_name :: "nat \<Rightarrow> string" where
  "seq_name n = (let d = nat_digits n in replicate (3 - length d) CHR ''0'' @ d)"

text \<open>
  \<^verbatim>\<open>t.TempDir()\<close>: the first call makes the test's temporary directory and registers its
  removal (the closure \<open>rm dir\<close>); each call makes the next numbered directory in it.
\<close>

definition real_temp_dir :: "(string \<Rightarrow> 'c) \<Rightarrow> (('c, 'x, 'm) tworld, string) act" where
  "real_temp_dir rm =
     andthen
       (\<lambda>w. if t_temp (w_tb w) \<noteq> [] then (Ret (), w)
            else (case mkdir_temp (temp_root w) (t_name (w_tb w)) (w_rand w) (w_fs w) of
                    (Inl e, rs, s) \<Rightarrow> real_fatalf ''TempDir: %v'' [AErr e] (w\<lparr>w_rand := rs, w_fs := s\<rparr>)
                  | (Inr dir, rs, s) \<Rightarrow>
                      real_cleanup (rm dir)
                        (on_tb (\<lambda>t. t\<lparr>t_temp := dir\<rparr>) (w\<lparr>w_rand := rs, w_fs := s\<rparr>))))
       (\<lambda>w. let n = Suc (t_seq (w_tb w));
                dir = t_temp (w_tb w) @ ''/'' @ seq_name n;
                w' = on_tb (\<lambda>t. t\<lparr>t_seq := n\<rparr>) w
            in case os_mkdir dir (w_fs w') of
                 (Inl e, s) \<Rightarrow> bnd (real_fatalf ''TempDir: %v'' [AErr e]) (\<lambda>_. ret dir) (w'\<lparr>w_fs := s\<rparr>)
               | (Inr _, s) \<Rightarrow> (Ret dir, w'\<lparr>w_fs := s\<rparr>))"

definition real_tb :: "(string \<Rightarrow> 'c) \<Rightarrow> (('c, 'x, 'm) tworld, 'c) tb_iface" where
  "real_tb rm =
     \<lparr>m_name = (\<lambda>w. t_name (w_tb w)),
      m_failed = (\<lambda>w. t_failed (w_tb w)),
      m_context = (\<lambda>_. TestCtx),
      m_errorf = real_errorf, m_fatalf = real_fatalf, m_logf = real_logf, m_skip = real_skip,
      m_cleanup = real_cleanup, m_temp_dir = real_temp_dir rm\<rparr>"

lemmas real_tb_defs = real_tb_def real_errorf_def real_fatalf_def real_logf_def real_skip_def
  real_cleanup_def on_tb_def t_log_def

interpretation real: test_handle "real_tb rm" t_cleanups
  by unfold_locales (auto simp: real_tb_defs)

section \<open>Running a test\<close>

text \<open>
  After the body has returned, called \<^verbatim>\<open>runtime.Goexit\<close> or panicked, \<^verbatim>\<open>testing\<close> cancels the
  test's context and then calls the registered closures, the last one first; one that stops
  its goroutine or panics does not keep the others from running, and one may register more.
  The result is \<open>None\<close> when \<open>fuel\<close> closures were not enough.
\<close>

fun drain :: "nat \<Rightarrow> ('c \<Rightarrow> (('c, 'x, 'm) tworld, unit) act) \<Rightarrow> ('c, 'x, 'm) tworld \<Rightarrow> ('c, 'x, 'm) tworld option" where
  "drain fuel exec w =
     (case rev (t_cleanups (w_tb w)) of
        [] \<Rightarrow> Some w
      | c # cs \<Rightarrow>
          (case fuel of
             0 \<Rightarrow> None
           | Suc n \<Rightarrow> drain n exec (snd (exec c (on_tb (\<lambda>t. t\<lparr>t_cleanups := rev cs\<rparr>) w)))))"

declare drain.simps [simp del]

definition run_test ::
  "nat \<Rightarrow> ('c \<Rightarrow> (('c, 'x, 'm) tworld, unit) act) \<Rightarrow> (('c, 'x, 'm) tworld, unit) act \<Rightarrow>
   ('c, 'x, 'm) tworld \<Rightarrow> ('c, 'x, 'm) tworld option"
where
  "run_test fuel exec body w = drain fuel exec (cancel TestCtx (snd (body w)))"

text \<open>
  When no closure registers another one, as many steps as there are closures are enough, and
  the run is the closures in reverse order of registration.
\<close>

fun call_each :: "('c \<Rightarrow> (('c, 'x, 'm) tworld, unit) act) \<Rightarrow> 'c list \<Rightarrow> ('c, 'x, 'm) tworld \<Rightarrow> ('c, 'x, 'm) tworld" where
  "call_each exec [] w = w"
| "call_each exec (c # cs) w =
     call_each exec cs (snd (exec c (on_tb (\<lambda>t. t\<lparr>t_cleanups := rev cs\<rparr>) w)))"

locale cleanup_runner =
  fixes exec :: "'c \<Rightarrow> (('c, 'x, 'm) tworld, unit) act"
  assumes keeps: "t_cleanups (w_tb (snd (exec c w))) = t_cleanups (w_tb w)"
begin

lemma drain_all:
  "t_cleanups (w_tb w) = rev cs \<Longrightarrow> length cs \<le> fuel \<Longrightarrow>
   drain fuel exec w = Some (call_each exec cs w)"
proof (induction cs arbitrary: w fuel)
  case Nil
  then show ?case by (simp add: drain.simps [of fuel])
next
  case (Cons c cs)
  then obtain n where n: "fuel = Suc n" "length cs \<le> n" by (cases fuel) auto
  let ?w = "snd (exec c (on_tb (\<lambda>t. t\<lparr>t_cleanups := rev cs\<rparr>) w))"
  have "t_cleanups (w_tb ?w) = rev cs"
    by (simp add: keeps on_tb_def)
  then have "drain n exec ?w = Some (call_each exec cs ?w)"
    using Cons.IH n(2) by blast
  then show ?case
    using Cons.prems(1) n(1) by (simp add: drain.simps [of "Suc n"])
qed

end

end
