(* ===== verification/Fake_TB.thy ===== *)
theory Fake_TB
  imports Testing
begin

text \<open>
  \<^verbatim>\<open>internal/testfake\<close>: the recording stand-in for \<^verbatim>\<open>testing.TB\<close> that the repository's own
  tests hand to the code.  It keeps the contract \<open>test_handle\<close>, but \<^verbatim>\<open>Fatalf\<close> and \<^verbatim>\<open>Skip\<close>
  return to their caller.  Every method holds the mutex for its whole body, so a concurrent
  run is some sequence of whole calls.
\<close>

record 'c fake_tb =
  f_errored :: bool
  f_skipped :: bool
  f_fatalled :: bool
  f_cleanups :: "'c list"

definition NewFakeTB :: "'c fake_tb" where
  "NewFakeTB = \<lparr>f_errored = False, f_skipped = False, f_fatalled = False, f_cleanups = []\<rparr>"

definition Fake_Errorf :: "'c fake_tb \<Rightarrow> 'c fake_tb" where
  "Fake_Errorf f = f\<lparr>f_errored := True\<rparr>"

definition Fake_Error :: "'c fake_tb \<Rightarrow> 'c fake_tb" where
  "Fake_Error f = f\<lparr>f_errored := True\<rparr>"

definition Fake_Fatalf :: "'c fake_tb \<Rightarrow> 'c fake_tb" where
  "Fake_Fatalf f = f\<lparr>f_fatalled := True\<rparr>"

definition Fake_Fatal :: "'c fake_tb \<Rightarrow> 'c fake_tb" where
  "Fake_Fatal f = f\<lparr>f_fatalled := True\<rparr>"

definition Fake_Skip :: "'c fake_tb \<Rightarrow> 'c fake_tb" where
  "Fake_Skip f = f\<lparr>f_skipped := True\<rparr>"

definition Fake_Skipf :: "'c fake_tb \<Rightarrow> 'c fake_tb" where
  "Fake_Skipf f = f\<lparr>f_skipped := True\<rparr>"

definition Fake_SkipNow :: "'c fake_tb \<Rightarrow> 'c fake_tb" where
  "Fake_SkipNow f = f\<lparr>f_skipped := True\<rparr>"

definition Fake_Logf :: "'c fake_tb \<Rightarrow> 'c fake_tb" where
  "Fake_Logf f = f"

definition Fake_Cleanup :: "'c \<Rightarrow> 'c fake_tb \<Rightarrow> 'c fake_tb" where
  "Fake_Cleanup c f = f\<lparr>f_cleanups := f_cleanups f @ [c]\<rparr>"

definition Fake_Context :: ctx where
  "Fake_Context = Background"

definition Errored :: "'c fake_tb \<Rightarrow> bool" where
  "Errored f = f_errored f"

definition Skipped :: "'c fake_tb \<Rightarrow> bool" where
  "Skipped f = f_skipped f"

definition Fatalled :: "'c fake_tb \<Rightarrow> bool" where
  "Fatalled f = f_fatalled f"

definition NumCleanups :: "'c fake_tb \<Rightarrow> nat" where
  "NumCleanups f = length (f_cleanups f)"

definition Fake_Name :: string where
  "Fake_Name = ''FakeTB''"

definition Fake_Failed :: "'c fake_tb \<Rightarrow> bool" where
  "Fake_Failed f \<longleftrightarrow> f_errored f \<or> f_fatalled f"

definition Fake_Fail :: "'c fake_tb \<Rightarrow> 'c fake_tb" where
  "Fake_Fail f = f\<lparr>f_errored := True\<rparr>"

definition Fake_FailNow :: "'c fake_tb \<Rightarrow> 'c fake_tb" where
  "Fake_FailNow f = f\<lparr>f_fatalled := True\<rparr>"

definition Fake_TempDir :: "('c fake_tb, 'x, 'm) world_scheme \<Rightarrow> string" where
  "Fake_TempDir w = temp_root w"

definition Fake_Setenv :: "string \<Rightarrow> string \<Rightarrow> 'c fake_tb \<Rightarrow> 'c fake_tb" where
  "Fake_Setenv k v f = f"

definition Fake_Helper :: "'c fake_tb \<Rightarrow> 'c fake_tb" where
  "Fake_Helper f = f"

definition Fake_Log :: "arg list \<Rightarrow> 'c fake_tb \<Rightarrow> 'c fake_tb" where
  "Fake_Log as f = f"

definition Fake_Chdir :: "string \<Rightarrow> 'c fake_tb \<Rightarrow> 'c fake_tb" where
  "Fake_Chdir d f = f"

lemmas fake_defs = NewFakeTB_def Fake_Errorf_def Fake_Error_def Fake_Fatalf_def Fake_Fatal_def
  Fake_Skip_def Fake_Skipf_def Fake_SkipNow_def Fake_Logf_def Fake_Cleanup_def Fake_Context_def
  Errored_def Skipped_def Fatalled_def NumCleanups_def Fake_Name_def Fake_Failed_def
  Fake_Fail_def Fake_FailNow_def Fake_TempDir_def Fake_Setenv_def Fake_Chdir_def

section \<open>As a testing.TB\<close>

definition fake_iface :: "(('c fake_tb, 'x, 'm) world_scheme, 'c) tb_iface" where
  "fake_iface =
     \<lparr>m_name = (\<lambda>_. Fake_Name),
      m_failed = (\<lambda>w. Fake_Failed (w_tb w)),
      m_context = (\<lambda>_. Fake_Context),
      m_errorf = (\<lambda>_ _ w. (Ret (), on_tb Fake_Errorf w)),
      m_fatalf = (\<lambda>_ _ w. (Ret (), on_tb Fake_Fatalf w)),
      m_logf = (\<lambda>_ _ w. (Ret (), on_tb Fake_Logf w)),
      m_skip = (\<lambda>_ w. (Ret (), on_tb Fake_Skip w)),
      m_cleanup = (\<lambda>c w. (Ret (), on_tb (Fake_Cleanup c) w)),
      m_temp_dir = (\<lambda>w. (Ret (Fake_TempDir w), w))\<rparr>"

interpretation fake: test_handle fake_iface f_cleanups
  by unfold_locales (auto simp: fake_iface_def fake_defs on_tb_def intro!: self_tb)

section \<open>Concurrent use\<close>

datatype 'c fake_op =
    CErrorf | CError | CFatalf | CFatal | CSkip | CSkipf | CSkipNow | CLogf
  | CCleanup 'c | CFail | CFailNow | CSetenv string string | CChdir string

fun fake_call :: "'c fake_op \<Rightarrow> 'c fake_tb \<Rightarrow> 'c fake_tb" where
  "fake_call CErrorf = Fake_Errorf"
| "fake_call CError = Fake_Error"
| "fake_call CFatalf = Fake_Fatalf"
| "fake_call CFatal = Fake_Fatal"
| "fake_call CSkip = Fake_Skip"
| "fake_call CSkipf = Fake_Skipf"
| "fake_call CSkipNow = Fake_SkipNow"
| "fake_call CLogf = Fake_Logf"
| "fake_call (CCleanup c) = Fake_Cleanup c"
| "fake_call CFail = Fake_Fail"
| "fake_call CFailNow = Fake_FailNow"
| "fake_call (CSetenv k v) = Fake_Setenv k v"
| "fake_call (CChdir d) = Fake_Chdir d"

definition fake_run :: "'c fake_op list \<Rightarrow> 'c fake_tb" where
  "fake_run calls = fold fake_call calls NewFakeTB"

definition is_error :: "'c fake_op \<Rightarrow> bool" where
  "is_error c \<longleftrightarrow> c = CErrorf \<or> c = CError \<or> c = CFail"

definition is_fatal :: "'c fake_op \<Rightarrow> bool" where
  "is_fatal c \<longleftrightarrow> c = CFatalf \<or> c = CFatal \<or> c = CFailNow"

definition is_skip :: "'c fake_op \<Rightarrow> bool" where
  "is_skip c \<longleftrightarrow> c = CSkip \<or> c = CSkipf \<or> c = CSkipNow"

fun registered :: "'c fake_op \<Rightarrow> 'c list" where
  "registered (CCleanup c) = [c]"
| "registered _ = []"

lemma fake_fold:
  "fold fake_call calls f =
     f\<lparr>f_errored := f_errored f \<or> list_ex is_error calls,
       f_skipped := f_skipped f \<or> list_ex is_skip calls,
       f_fatalled := f_fatalled f \<or> list_ex is_fatal calls,
       f_cleanups := f_cleanups f @ concat (map registered calls)\<rparr>"
proof (induction calls arbitrary: f)
  case Nil
  then show ?case by simp
next
  case (Cons c calls)
  show ?case
    by (cases c) (simp_all add: Cons fake_defs is_error_def is_fatal_def is_skip_def)
qed

lemma fake_run_eq:
  "fake_run calls =
     \<lparr>f_errored = list_ex is_error calls, f_skipped = list_ex is_skip calls,
      f_fatalled = list_ex is_fatal calls, f_cleanups = concat (map registered calls)\<rparr>"
  by (simp add: fake_run_def fake_fold NewFakeTB_def)

lemma list_ex_perm: "mset xs = mset ys \<Longrightarrow> list_ex P xs = list_ex P ys"
  by (metis list_ex_iff mset_eq_setD)



end
