(* ===== verification/Map_Store.thy ===== *)
theory Map_Store
  imports Prelude
begin

text \<open>
  \<^verbatim>\<open>sneakystack/store.go\<close>: the in-memory object store behind the service handlers.  The Go
  interface \<^verbatim>\<open>Store\<close> is the locale \<open>object_store\<close>, its laws stated over a map from
  (kind, id) to objects; \<^verbatim>\<open>MapStore\<close>, a map of maps, is an interpretation of it.  Every
  method takes the store's mutex for its whole body, so a concurrent run is a sequence of
  whole operations.
\<close>

section \<open>The interface Store\<close>

record filter_opt =
  flt_parent :: string
  flt_tags :: "(string \<times> string) list"

text \<open>A returned slice is \<open>None\<close> when it is nil.\<close>

locale object_store =
  fixes put_op :: "string \<Rightarrow> string \<Rightarrow> 'o \<Rightarrow> 's \<Rightarrow> (go_error + unit) \<times> 's"
    and get_op :: "string \<Rightarrow> string \<Rightarrow> 's \<Rightarrow> go_error + 'o"
    and list_op :: "string \<Rightarrow> filter_opt \<Rightarrow> 's \<Rightarrow> go_error + 'o list option"
    and delete_op :: "string \<Rightarrow> string \<Rightarrow> 's \<Rightarrow> (go_error + unit) \<times> 's"
    and contents :: "'s \<Rightarrow> string \<times> string \<Rightarrow> 'o option"
    and valid :: "'s \<Rightarrow> bool"
  assumes put_law: "valid s \<Longrightarrow> \<exists>s'. put_op k i x s = (Inr (), s') \<and> valid s' \<and>
      contents s' = (contents s)((k, i) \<mapsto> x)"
    and get_law: "valid s \<Longrightarrow> get_op k i s =
      (case contents s (k, i) of None \<Rightarrow> Inl ErrNotFound | Some x \<Rightarrow> Inr x)"
    and list_law: "valid s \<Longrightarrow> \<exists>xs. list_op k f s = Inr xs \<and>
      finite {i. contents s (k, i) \<noteq> None} \<and>
      mset (case xs of None \<Rightarrow> [] | Some ys \<Rightarrow> ys) =
        image_mset (\<lambda>i. the (contents s (k, i))) (mset_set {i. contents s (k, i) \<noteq> None})"
    and delete_missing_law: "valid s \<Longrightarrow> contents s (k, i) = None \<Longrightarrow>
      delete_op k i s = (Inl ErrNotFound, s)"
    and delete_law: "valid s \<Longrightarrow> contents s (k, i) = Some x \<Longrightarrow>
      \<exists>s'. delete_op k i s = (Inr (), s') \<and> valid s' \<and> contents s' = (contents s)((k, i) := None)"
begin

lemma get_after_put:
  "valid s \<Longrightarrow> get_op k' i' (snd (put_op k i x s)) =
     (if (k', i') = (k, i) then Inr x else get_op k' i' s)"
  using put_law [of s k i x] get_law [of s k' i'] get_law [of "snd (put_op k i x s)" k' i']
  by auto

lemma get_after_delete:
  "valid s \<Longrightarrow> get_op k' i' (snd (delete_op k i s)) =
     (if (k', i') = (k, i) then Inl ErrNotFound else get_op k' i' s)"
proof -
  assume v: "valid s"
  show ?thesis
  proof (cases "contents s (k, i)")
    case None
    with v show ?thesis by (auto simp: delete_missing_law get_law)
  next
    case (Some x)
    with v obtain s' where "delete_op k i s = (Inr (), s')" "valid s'"
        "contents s' = (contents s)((k, i) := None)"
      using delete_law by blast
    with v show ?thesis by (auto simp: get_law)
  qed
qed

lemma delete_twice:
  "valid s \<Longrightarrow> fst (delete_op k i (snd (delete_op k i s))) = Inl ErrNotFound"
proof -
  assume v: "valid s"
  show ?thesis
  proof (cases "contents s (k, i)")
    case None
    with v show ?thesis by (simp add: delete_missing_law)
  next
    case (Some x)
    with v obtain s' where "delete_op k i s = (Inr (), s')" "valid s'"
        "contents s' = (contents s)((k, i) := None)"
      using delete_law by blast
    then show ?thesis by (simp add: delete_missing_law)
  qed
qed

end

section \<open>MapStore\<close>

record 'o map_store =
  st_data :: "(string \<times> (string \<times> 'o) list) list"

definition NewMapStore :: "'o map_store" where
  "NewMapStore = \<lparr>st_data = []\<rparr>"

definition store_Put :: "string \<Rightarrow> string \<Rightarrow> 'o \<Rightarrow> 'o map_store \<Rightarrow> (go_error + unit) \<times> 'o map_store" where
  "store_Put kind oid obj s =
     (let d = (if map_of (st_data s) kind = None then put kind [] (st_data s) else st_data s)
      in case map_of d kind of
           None \<Rightarrow> (Inr (), s\<lparr>st_data := d\<rparr>)
         | Some bucket \<Rightarrow> (Inr (), s\<lparr>st_data := put kind (put oid obj bucket) d\<rparr>))"

definition store_Get :: "string \<Rightarrow> string \<Rightarrow> 'o map_store \<Rightarrow> go_error + 'o" where
  "store_Get kind oid s =
     (case map_of (st_data s) kind of
        None \<Rightarrow> Inl ErrNotFound
      | Some bucket \<Rightarrow>
          (case map_of bucket oid of None \<Rightarrow> Inl ErrNotFound | Some obj \<Rightarrow> Inr obj))"

definition store_List :: "string \<Rightarrow> filter_opt \<Rightarrow> 'o map_store \<Rightarrow> go_error + 'o list option" where
  "store_List kind flt s =
     (case map_of (st_data s) kind of
        None \<Rightarrow> Inr None
      | Some bucket \<Rightarrow> Inr (Some (map snd bucket)))"

definition store_Delete :: "string \<Rightarrow> string \<Rightarrow> 'o map_store \<Rightarrow> (go_error + unit) \<times> 'o map_store" where
  "store_Delete kind oid s =
     (case map_of (st_data s) kind of
        None \<Rightarrow> (Inl ErrNotFound, s)
      | Some bucket \<Rightarrow>
          if map_of bucket oid = None then (Inl ErrNotFound, s)
          else (Inr (), s\<lparr>st_data := put kind (del oid bucket) (st_data s)\<rparr>))"

lemmas store_defs = store_Put_def store_Get_def store_List_def store_Delete_def Let_def

text \<open>The invariant: the maps have one entry per key.\<close>

definition store_valid :: "'o map_store \<Rightarrow> bool" where
  "store_valid s \<longleftrightarrow> keys_distinct (st_data s) \<and>
     list_all (\<lambda>(k, bucket). keys_distinct bucket) (st_data s)"

definition store_contents :: "'o map_store \<Rightarrow> string \<times> string \<Rightarrow> 'o option" where
  "store_contents s =
     (\<lambda>(k, i). case map_of (st_data s) k of None \<Rightarrow> None | Some bucket \<Rightarrow> map_of bucket i)"

lemma list_all_put:
  "list_all (\<lambda>(k, b). P b) d \<Longrightarrow> P b \<Longrightarrow> list_all (\<lambda>(k, b). P b) (put k b d)"
  by (induction k b d rule: put.induct) auto

lemma store_valid_bucket:
  "store_valid s \<Longrightarrow> map_of (st_data s) k = Some b \<Longrightarrow> keys_distinct b"
  by (auto simp: store_valid_def list_all_iff dest: map_of_SomeD)

lemma store_valid_put:
  "store_valid s \<Longrightarrow> keys_distinct b \<Longrightarrow> store_valid (s\<lparr>st_data := put k b (st_data s)\<rparr>)"
  by (simp add: store_valid_def list_all_put)

lemma put_put [simp]: "put k b (put k c d) = put k b d"
  by (induction k c d rule: put.induct) auto

lemma store_Put_eq:
  "store_Put k i x s =
     (Inr (), s\<lparr>st_data := put k (put i x (case map_of (st_data s) k of None \<Rightarrow> [] | Some b \<Rightarrow> b)) (st_data s)\<rparr>)"
  by (auto simp: store_Put_def Let_def split: option.splits)

lemma values_mset:
  assumes "keys_distinct b"
  shows "mset (map snd b) = image_mset (\<lambda>i. the (map_of b i)) (mset_set {i. map_of b i \<noteq> None})"
proof -
  have "{i. map_of b i \<noteq> None} = set (map fst b)"
    by (auto simp: map_of_eq_None_iff)
  moreover have "mset (map fst b) = mset_set (set (map fst b))"
    using assms by (metis keys_distinct_def mset_set_set)
  moreover have "map snd b = map (\<lambda>i. the (map_of b i)) (map fst b)"
    using assms by (auto simp: keys_distinct_def)
  ultimately show ?thesis by (metis mset_map)
qed

lemma finite_map_of_ids: "finite {i. map_of b i \<noteq> None}"
  using finite_dom_map_of [of b] by (simp add: dom_def)

interpretation map_store: object_store store_Put store_Get store_List store_Delete store_contents store_valid
proof (unfold_locales, goal_cases)
  case (1 s k i x)
  then show ?case
    by (auto simp: store_Put_eq store_contents_def fun_eq_iff store_valid_put
        dest: store_valid_bucket intro!: store_valid_put split: option.splits)
next
  case (2 s k i)
  then show ?case by (simp add: store_defs store_contents_def split: option.splits)
next
  case (3 s k f)
  then show ?case
  proof (cases "map_of (st_data s) k")
    case None
    then show ?thesis by (simp add: store_defs store_contents_def)
  next
    case (Some b)
    with 3 have "keys_distinct b" by (rule store_valid_bucket)
    with Some show ?thesis
      using finite_map_of_ids [of b] values_mset [of b]
      by (simp add: store_defs store_contents_def del: not_None_eq)
  qed
next
  case (4 s k i)
  then show ?case by (auto simp: store_defs store_contents_def split: option.splits)
next
  case (5 s k i x)
  then show ?case
    by (auto simp: store_defs store_contents_def fun_eq_iff store_valid_put
        dest: store_valid_bucket intro!: store_valid_put split: option.splits)
qed

section \<open>Sequences of operations\<close>

datatype 'o store_op =
    PutOp string string 'o | GetOp string string | ListOp string filter_opt | DeleteOp string string

datatype 'o store_resp =
    DoneResp "go_error option" | GetResp "go_error + 'o" | ListResp "go_error + 'o list option"

fun op_kind :: "'o store_op \<Rightarrow> string" where
  "op_kind (PutOp k i x) = k"
| "op_kind (GetOp k i) = k"
| "op_kind (ListOp k f) = k"
| "op_kind (DeleteOp k i) = k"

definition err_of :: "go_error + 'a \<Rightarrow> go_error option" where
  "err_of r = (case r of Inl e \<Rightarrow> Some e | Inr _ \<Rightarrow> None)"

fun store_step :: "'o store_op \<Rightarrow> 'o map_store \<Rightarrow> 'o store_resp \<times> 'o map_store" where
  "store_step (PutOp k i x) s = (case store_Put k i x s of (r, s') \<Rightarrow> (DoneResp (err_of r), s'))"
| "store_step (GetOp k i) s = (GetResp (store_Get k i s), s)"
| "store_step (ListOp k f) s = (ListResp (store_List k f s), s)"
| "store_step (DeleteOp k i) s = (case store_Delete k i s of (r, s') \<Rightarrow> (DoneResp (err_of r), s'))"

fun store_run :: "'o store_op list \<Rightarrow> 'o map_store \<Rightarrow> ('o store_op \<times> 'o store_resp) list \<times> 'o map_store" where
  "store_run [] s = ([], s)"
| "store_run (op # ops) s =
     (case store_step op s of (r, s') \<Rightarrow>
      case store_run ops s' of (rs, s'') \<Rightarrow> ((op, r) # rs, s''))"

definition bucket_of :: "'o map_store \<Rightarrow> string \<Rightarrow> (string \<times> 'o) list option" where
  "bucket_of s k = map_of (st_data s) k"

lemma step_same_kind:
  "bucket_of s k = bucket_of s' k \<Longrightarrow> op_kind op = k \<Longrightarrow>
   fst (store_step op s) = fst (store_step op s') \<and>
   bucket_of (snd (store_step op s)) k = bucket_of (snd (store_step op s')) k"
  by (cases op) (auto simp: store_Put_eq store_defs bucket_of_def split: option.splits prod.splits)

lemma step_other_kind:
  "op_kind op \<noteq> k \<Longrightarrow> bucket_of (snd (store_step op s)) k = bucket_of s k"
  by (cases op) (auto simp: store_Put_eq store_defs bucket_of_def split: option.splits prod.splits)

lemma run_kind_gen:
  "bucket_of s k = bucket_of s' k \<Longrightarrow>
   filter (\<lambda>(op, r). op_kind op = k) (fst (store_run ops s)) =
     fst (store_run (filter (\<lambda>op. op_kind op = k) ops) s') \<and>
   bucket_of (snd (store_run ops s)) k =
     bucket_of (snd (store_run (filter (\<lambda>op. op_kind op = k) ops) s')) k"
proof (induction ops arbitrary: s s')
  case Nil
  then show ?case by simp
next
  case (Cons op ops)
  show ?case
  proof (cases "op_kind op = k")
    case True
    note same = step_same_kind [OF Cons.prems True]
    then have "bucket_of (snd (store_step op s)) k = bucket_of (snd (store_step op s')) k" by simp
    from Cons.IH [OF this] same True show ?thesis
      by (auto simp: split_beta)
  next
    case False
    then have "bucket_of (snd (store_step op s)) k = bucket_of s' k"
      using step_other_kind Cons.prems by metis
    from Cons.IH [OF this] False show ?thesis
      by (auto simp: split_beta)
  qed
qed



text \<open>
  Services that keep their objects under their own kind do not see each other: in any
  interleaving of operations, the answers to the operations on one kind are exactly the
  answers those operations give when they run alone, in the same order.
\<close>

theorem store_kinds_isolated:
  "filter (\<lambda>(op, r). op_kind op = k) (fst (store_run ops s)) =
   fst (store_run (filter (\<lambda>op. op_kind op = k) ops) s)"
  using run_kind_gen [of s k s ops] by simp

end
