(* ===== verification/Proxy.thy ===== *)
theory Proxy
  imports Map_Store Testing
begin

text \<open>
  \<^verbatim>\<open>sneakystack/proxy.go\<close> and \<^verbatim>\<open>sneakystack/sidecar.go\<close>: the HTTP proxy in front of LocalStack,
  and the sidecar that runs it.  A handler is a value of the type \<open>'h\<close>; serving a request
  yields either the handler that gets it or the request that is sent downstream.  Parsing a
  URL is the argument \<open>parse_url\<close>; paths are decoded paths (no \<^verbatim>\<open>RawPath\<close>).
\<close>

section \<open>Requests\<close>

record url =
  u_scheme :: string
  u_host :: string
  u_path :: string
  u_query :: string

record request =
  r_url :: url
  r_host :: string
  r_header :: "(string \<times> string list) list"
  r_client_ip :: "string option"
  r_tls :: bool

definition header_get :: "string \<Rightarrow> (string \<times> string list) list \<Rightarrow> string" where
  "header_get k h = (case map_of h k of Some (v # _) \<Rightarrow> v | _ \<Rightarrow> [])"

definition header_values :: "string \<Rightarrow> (string \<times> string list) list \<Rightarrow> string list" where
  "header_values k h = (case map_of h k of Some vs \<Rightarrow> vs | None \<Rightarrow> [])"

definition header_set :: "string \<Rightarrow> string \<Rightarrow> (string \<times> string list) list \<Rightarrow> (string \<times> string list) list" where
  "header_set k v h = put k [v] h"

text \<open>\<^verbatim>\<open>ProxyRequest.SetURL\<close>: scheme, host, joined path, joined query, and no Host override.\<close>

definition single_joining_slash :: "string \<Rightarrow> string \<Rightarrow> string" where
  "single_joining_slash a b =
     (if has_suffix a ''/'' \<and> has_prefix b ''/'' then a @ tl b
      else if \<not> has_suffix a ''/'' \<and> \<not> has_prefix b ''/'' then a @ ''/'' @ b
      else a @ b)"

definition set_url :: "url \<Rightarrow> request \<Rightarrow> request" where
  "set_url target out =
     out\<lparr>r_url :=
           \<lparr>u_scheme = u_scheme target, u_host = u_host target,
            u_path = single_joining_slash (u_path target) (u_path (r_url out)),
            u_query =
              (if u_query target = [] \<or> u_query (r_url out) = []
               then u_query target @ u_query (r_url out)
               else u_query target @ ''&'' @ u_query (r_url out))\<rparr>,
         r_host := []\<rparr>"

text \<open>\<^verbatim>\<open>ProxyRequest.SetXForwarded\<close>, from the inbound request \<open>req\<close> to the outbound \<open>out\<close>.\<close>

definition set_x_forwarded :: "request \<Rightarrow> request \<Rightarrow> request" where
  "set_x_forwarded req out =
     (let h1 = (case r_client_ip req of
                  None \<Rightarrow> del ''X-Forwarded-For'' (r_header out)
                | Some ip \<Rightarrow>
                    (let prior = header_values ''X-Forwarded-For'' (r_header out)
                     in header_set ''X-Forwarded-For''
                          (if prior = [] then ip else join '', '' prior @ '', '' @ ip) (r_header out)));
          h2 = header_set ''X-Forwarded-Host'' (r_host req) h1;
          h3 = header_set ''X-Forwarded-Proto'' (if r_tls req then ''https'' else ''http'') h2
      in out\<lparr>r_header := h3\<rparr>)"

text \<open>With a \<^verbatim>\<open>Rewrite\<close> hook, \<^verbatim>\<open>ReverseProxy\<close> drops the inbound forwarding headers first.\<close>

definition drop_forwarded :: "request \<Rightarrow> request" where
  "drop_forwarded req =
     req\<lparr>r_header := del ''Forwarded'' (del ''X-Forwarded-For'' (del ''X-Forwarded-Host''
           (del ''X-Forwarded-Proto'' (r_header req))))\<rparr>"

definition outbound_host :: "request \<Rightarrow> string" where
  "outbound_host out = (if r_host out = [] then u_host (r_url out) else r_host out)"

section \<open>The proxy\<close>

record ('o, 'h) proxy =
  px_store :: "'o map_store"
  px_downstream :: url
  px_handlers :: "(string \<times> 'h) list"

definition NewProxy :: "(string \<Rightarrow> go_error + url) \<Rightarrow> 'o map_store \<Rightarrow> string \<Rightarrow> go_error + ('o, 'h) proxy" where
  "NewProxy parse_url store downstreamURL =
     (case parse_url downstreamURL of
        Inl err \<Rightarrow> Inl (ErrWrap ''parse downstream URL'' err)
      | Inr downstream \<Rightarrow>
          Inr \<lparr>px_store = store, px_downstream = downstream, px_handlers = []\<rparr>)"

definition rewrite :: "url \<Rightarrow> request \<Rightarrow> request" where
  "rewrite downstream req = set_x_forwarded req (set_url downstream (drop_forwarded req))"

definition RegisterHandler :: "string \<Rightarrow> 'h \<Rightarrow> ('o, 'h) proxy \<Rightarrow> ('o, 'h) proxy" where
  "RegisterHandler servicePrefix handler p = p\<lparr>px_handlers := put servicePrefix handler (px_handlers p)\<rparr>"

definition matchHandler :: "string \<Rightarrow> ('o, 'h) proxy \<Rightarrow> 'h option" where
  "matchHandler target p =
     map_option snd (find (\<lambda>(prefix, handler). has_prefix target prefix) (px_handlers p))"

datatype 'h served = Handled 'h | Forwarded request

definition ServeHTTP :: "('o, 'h) proxy \<Rightarrow> request \<Rightarrow> 'h served" where
  "ServeHTTP p r =
     (let target = header_get ''X-Amz-Target'' (r_header r);
          handler = (if target \<noteq> [] then matchHandler target p else None)
      in case handler of
           Some h \<Rightarrow> Handled h
         | None \<Rightarrow> Forwarded (rewrite (px_downstream p) r))"

subsection \<open>Which handler gets a request\<close>

text \<open>No registered prefix is a prefix of another one.\<close>

definition prefix_free :: "('o, 'h) proxy \<Rightarrow> bool" where
  "prefix_free p \<longleftrightarrow>
     list_all (\<lambda>a. list_all (\<lambda>b. has_prefix b a \<longrightarrow> a = b) (map fst (px_handlers p)))
       (map fst (px_handlers p))"

lemma prefixes_comparable:
  "has_prefix t a \<Longrightarrow> has_prefix t b \<Longrightarrow> has_prefix b a \<or> has_prefix a b"
  by (auto simp: has_prefix_iff append_eq_append_conv2)

lemma matchHandler_None: "matchHandler t p = None \<longleftrightarrow> (\<forall>(a, h)\<in>set (px_handlers p). \<not> has_prefix t a)"
  by (auto simp: matchHandler_def find_None_iff)

lemma matchHandler_Some:
  "matchHandler t p = Some h \<Longrightarrow> \<exists>a. (a, h) \<in> set (px_handlers p) \<and> has_prefix t a"
  by (auto simp: matchHandler_def dest!: find_SomeD)

lemma matchHandler_unique:
  assumes "prefix_free p" and "keys_distinct (px_handlers p)"
    and "(a, h) \<in> set (px_handlers p)" and "has_prefix t a"
  shows "matchHandler t p = Some h"
proof -
  have "matchHandler t p \<noteq> None"
    using assms(3,4) by (auto simp: matchHandler_None)
  then obtain h' where m: "matchHandler t p = Some h'" by auto
  then obtain a' where h': "(a', h') \<in> set (px_handlers p)" "has_prefix t a'"
    by (auto dest: matchHandler_Some)
  have "has_prefix a' a \<or> has_prefix a a'"
    using assms(4) h'(2) by (rule prefixes_comparable)
  then have "a = a'"
    using assms(1,3) h'(1) by (fastforce simp: prefix_free_def list_all_iff)
  then have "h = h'"
    using assms(2,3) h'(1) eq_key_imp_eq_value unfolding keys_distinct_def by fast
  with m show ?thesis by simp
qed

lemma prefix_free_perm:
  "mset (px_handlers p) = mset (px_handlers q) \<Longrightarrow> prefix_free p = prefix_free q"
  unfolding prefix_free_def list_all_iff by (metis list.set_map mset_eq_setD)

text \<open>
  C37.  Routing is well defined when no registered prefix extends another: the handler a
  target gets does not depend on the order in which Go ranges over the handler map.
\<close>

theorem routing_ignores_map_order:
  assumes "prefix_free p" and "keys_distinct (px_handlers p)"
    and "mset (px_handlers p) = mset (px_handlers q)"
  shows "matchHandler target p = matchHandler target q"
proof (cases "matchHandler target p")
  case None
  then have "matchHandler target q = None"
    using mset_eq_setD [OF assms(3)] by (auto simp: matchHandler_None)
  with None show ?thesis by simp
next
  case (Some h)
  then obtain a where "(a, h) \<in> set (px_handlers q)" "has_prefix target a"
    using mset_eq_setD [OF assms(3)] by (auto dest: matchHandler_Some)
  moreover have "prefix_free q"
    using assms(1) prefix_free_perm [OF assms(3)] by simp
  moreover have "keys_distinct (px_handlers q)"
    using keys_distinct_perm [OF assms(2)] assms(3) by simp
  ultimately have "matchHandler target q = Some h" by (intro matchHandler_unique)
  with Some show ?thesis by simp
qed

definition demo_proxy :: "(string \<times> nat) list \<Rightarrow> (nat, nat) proxy" where
  "demo_proxy hs =
     \<lparr>px_store = NewMapStore,
      px_downstream = \<lparr>u_scheme = ''http'', u_host = ''ls:4566'', u_path = [], u_query = []\<rparr>,
      px_handlers = hs\<rparr>"

theorem routing_ignores_map_order_witness:
  "matchHandler ''AWSSSO.ListInstances'' (demo_proxy [(''AWSOrg'', 1), (''AWSSSO'', 2)]) =
   matchHandler ''AWSSSO.ListInstances'' (demo_proxy [(''AWSSSO'', 2), (''AWSOrg'', 1)])"
  by (rule routing_ignores_map_order)
     (simp_all add: prefix_free_def demo_proxy_def keys_distinct_def)

text \<open>
  Without that condition routing is not well defined: two registrations of which one
  prefix extends the other send one and the same request to different handlers, depending on
  the order in which the map is ranged over.
\<close>

theorem overlapping_prefixes_are_ambiguous:
  "\<exists>p q target. mset (px_handlers p) = mset (px_handlers (q :: (nat, nat) proxy)) \<and>
     keys_distinct (px_handlers p) \<and>
     p = RegisterHandler ''AWSOrganizations'' 2 (RegisterHandler ''AWSOrg'' 1 (demo_proxy [])) \<and>
     matchHandler target p = Some 1 \<and> matchHandler target q = Some 2"
proof (intro exI conjI)
  let ?p = "RegisterHandler ''AWSOrganizations'' 2 (RegisterHandler ''AWSOrg'' 1 (demo_proxy []))"
  let ?q = "RegisterHandler ''AWSOrg'' 1 (RegisterHandler ''AWSOrganizations'' 2 (demo_proxy []))"
  show "mset (px_handlers ?p) = mset (px_handlers ?q)"
    by (simp add: RegisterHandler_def demo_proxy_def)
  show "keys_distinct (px_handlers ?p)"
    by (simp add: RegisterHandler_def demo_proxy_def keys_distinct_def)
  show "?p = ?p" by simp
  show "matchHandler ''AWSOrganizations.ListAccounts'' ?p = Some 1"
    by (simp add: matchHandler_def RegisterHandler_def demo_proxy_def)
  show "matchHandler ''AWSOrganizations.ListAccounts'' ?q = Some 2"
    by (simp add: matchHandler_def RegisterHandler_def demo_proxy_def)
qed


definition demo_request :: request where
  "demo_request =
     \<lparr>r_url = \<lparr>u_scheme = [], u_host = [], u_path = ''/_localstack/health'', u_query = ''a=1''\<rparr>,
      r_host = ''127.0.0.1:9'', r_header = [(''X-Amz-Target'', [''AWSEC2.Run''])],
      r_client_ip = Some ''127.0.0.1'', r_tls = False\<rparr>"


end
