(* ===== verification/Outside.thy ===== *)
theory Outside
  imports Testing
begin

text \<open>
  The boundary of the model: the calls the repository makes to code that is not its own
  (Docker and testcontainers, Terraform through Terratest, the AWS SDK, network sockets), the
  values they carry, and the types of their answers.  Nothing is assumed of the answers here:
  they are fields of records of functions (\<open>terraform_api\<close> and \<open>net_api\<close> here, \<open>ping_api\<close>,
  \<open>docker_api\<close> and \<open>aws_api\<close> with the code that calls them), arguments of the definitions
  that use them.  A context is recorded
  in a call as whether it was done when the call was made.
\<close>

section \<open>Values that cross the boundary\<close>

text \<open>The Go type \<^verbatim>\<open>any\<close>, as far as Terraform variables use it.\<close>

datatype any_val =
    AnyNil | AnyStr string | AnyInt int | AnyBool bool
  | AnyList "any_val list" | AnyMap "(string \<times> any_val) list"

record aws_config =
  ac_endpoint :: string
  ac_region :: string
  ac_access_key :: string
  ac_secret_key :: string

text \<open>A client of one AWS service: its configuration, and whether S3 paths name the bucket.\<close>

record aws_client =
  cl_service :: string
  cl_config :: aws_config
  cl_path_style :: bool

record tf_options =
  to_dir :: string
  to_vars :: "(string \<times> any_val) list"
  to_env :: "(string \<times> string) list"
  to_no_color :: bool
  to_lock :: bool
  to_lock_timeout :: string
  to_plan_file :: string

record container_spec =
  cs_port :: string
  cs_env :: "(string \<times> string) list"
  cs_health_path :: string
  cs_timeout_seconds :: nat
  cs_binds :: "string list"

section \<open>Calls\<close>

datatype call =
    DockerDial bool string
  | DockerClose
  | DockerGet bool string
  | RunContainer bool string container_spec
  | PortEndpoint bool string string
  | TerminateContainer string
  | LoadAwsConfig bool string
  | TfInitAndApply bool tf_options
  | TfInitAndPlan bool tf_options
  | TfShow bool tf_options
  | TfDestroy bool tf_options
  | TfOutput bool tf_options string
  | SidecarStart nat bool string
  | SidecarStop nat bool
  | RunTests
  | NetListen bool string
  | NetShutdown bool string
  | NetDial bool string
  | NetClose string
  | AwsCall bool aws_client string "string list"

text \<open>
  The closures the repository gives to \<^verbatim>\<open>Cleanup\<close>, with what they capture; test cases are
  captured by reference, as their number.  \<open>RemoveTemp\<close> is the one of \<^verbatim>\<open>testing\<close> itself.
\<close>

datatype cleanup =
    RemoveTemp string
  | StopContainer nat
  | TerraformDestroy nat
  | DumpArtifacts nat
  | DeleteObject ctx aws_client string string
  | DeleteParameter ctx aws_client string
  | DeleteSecret ctx aws_client string

record net_api =
  n_listen :: "bool \<Rightarrow> string \<Rightarrow> call list \<Rightarrow> go_error + string"
  n_shutdown :: "bool \<Rightarrow> string \<Rightarrow> call list \<Rightarrow> go_error option"
  n_dial :: "bool \<Rightarrow> string \<Rightarrow> call list \<Rightarrow> go_error option"
  n_close :: "string \<Rightarrow> call list \<Rightarrow> go_error option"

text \<open>Terraform works on files: an answer comes with what the command did to the file system.\<close>

record terraform_api =
  tf_init_and_apply :: "bool \<Rightarrow> tf_options \<Rightarrow> call list \<Rightarrow> fsys \<Rightarrow> (go_error + string) \<times> fsys"
  tf_init_and_plan :: "bool \<Rightarrow> tf_options \<Rightarrow> call list \<Rightarrow> fsys \<Rightarrow> (go_error + string) \<times> fsys"
  tf_show :: "bool \<Rightarrow> tf_options \<Rightarrow> call list \<Rightarrow> fsys \<Rightarrow> (go_error + string) \<times> fsys"
  tf_destroy :: "bool \<Rightarrow> tf_options \<Rightarrow> call list \<Rightarrow> fsys \<Rightarrow> (go_error + string) \<times> fsys"
  tf_output :: "bool \<Rightarrow> tf_options \<Rightarrow> string \<Rightarrow> call list \<Rightarrow> fsys \<Rightarrow> (go_error + string) \<times> fsys"

type_synonym ('t, 'm) cworld = "('t, call, 'm) world_scheme"

definition ask_fs ::
  "call \<Rightarrow> (call list \<Rightarrow> fsys \<Rightarrow> 'a \<times> fsys) \<Rightarrow> (('t, 'm) cworld, 'a) act"
where
  "ask_fs c answer w =
     (case answer (w_trace w) (w_fs w) of
        (a, s) \<Rightarrow> (Ret a, w\<lparr>w_trace := w_trace w @ [c], w_fs := s\<rparr>))"

lemma ask_fs_run [act_simps]:
  "ask_fs c answer w =
     (Ret (fst (answer (w_trace w) (w_fs w))),
      w\<lparr>w_trace := w_trace w @ [c], w_fs := snd (answer (w_trace w) (w_fs w))\<rparr>)"
  by (simp add: ask_fs_def split: prod.splits)

section \<open>Reasoning about traces\<close>

text \<open>
  \<open>only_calls P m\<close>: whatever the world, \<open>m\<close> adds to the trace nothing but calls that satisfy
  \<open>P\<close>.  The rules follow the way actions are put together.
\<close>

definition only_calls :: "(call \<Rightarrow> bool) \<Rightarrow> (('t, 'm) cworld, 'a) act \<Rightarrow> bool" where
  "only_calls P m \<longleftrightarrow> (\<forall>w. \<exists>t. w_trace (snd (m w)) = w_trace w @ t \<and> list_all P t)"

definition calls_of :: "(('t, 'm) cworld, 'a) act \<Rightarrow> ('t, 'm) cworld \<Rightarrow> call list" where
  "calls_of m w = drop (length (w_trace w)) (w_trace (snd (m w)))"

lemma only_callsI:
  "(\<And>w. \<exists>t. w_trace (snd (m w)) = w_trace w @ t \<and> list_all P t) \<Longrightarrow> only_calls P m"
  by (simp add: only_calls_def)

lemma only_callsE:
  assumes "only_calls P m"
  obtains t where "w_trace (snd (m w)) = w_trace w @ t" and "list_all P t" and "calls_of m w = t"
  using assms by (force simp: only_calls_def calls_of_def)

lemma only_calls_silent: "(\<And>w. w_trace (snd (m w)) = w_trace w) \<Longrightarrow> only_calls P m"
  by (rule only_callsI) simp

named_theorems only_calls_intros "which calls an action can make"

lemma only_calls_ret [only_calls_intros]: "only_calls P (ret x)"
  by (rule only_calls_silent) (simp add: ret_run)

lemma only_calls_skip [only_calls_intros]: "only_calls P skip"
  by (rule only_calls_silent) (simp add: skip_run)

lemma only_calls_panic [only_calls_intros]: "only_calls P (panic p)"
  by (rule only_calls_silent) (simp add: panic_run)

lemma only_calls_ask [only_calls_intros]: "P c \<Longrightarrow> only_calls P (ask c answer)"
  by (rule only_callsI) (simp add: ask_run)

lemma only_calls_ask_fs [only_calls_intros]: "P c \<Longrightarrow> only_calls P (ask_fs c answer)"
  by (rule only_callsI) (simp add: ask_fs_run)

lemma only_calls_bnd [only_calls_intros]:
  assumes "only_calls P m" and "\<And>x. only_calls P (f x)"
  shows "only_calls P (bnd m f)"
proof (rule only_callsI)
  fix w
  obtain t where t: "w_trace (snd (m w)) = w_trace w @ t" "list_all P t"
    using assms(1) by (auto elim: only_callsE)
  show "\<exists>t. w_trace (snd (bnd m f w)) = w_trace w @ t \<and> list_all P t"
  proof (cases "m w")
    case (Pair oc w')
    show ?thesis
    proof (cases oc)
      case (Ret x)
      obtain t' where "w_trace (snd (f x w')) = w_trace w' @ t'" "list_all P t'"
        using assms(2) by (auto elim: only_callsE)
      with t Pair Ret show ?thesis by (auto simp: bnd_run)
    qed (use t Pair in \<open>auto simp: bnd_run\<close>)
  qed
qed

lemma only_calls_andthen [only_calls_intros]:
  "only_calls P m \<Longrightarrow> only_calls P k \<Longrightarrow> only_calls P (andthen m k)"
  unfolding andthen_def by (rule only_calls_bnd)

lemma only_calls_at: "(\<And>w. only_calls P (m w)) \<Longrightarrow> only_calls P (\<lambda>w. m w w)"
  by (rule only_callsI) (auto simp: only_calls_def)

lemma only_calls_mono: "only_calls P m \<Longrightarrow> (\<And>c. P c \<Longrightarrow> Q c) \<Longrightarrow> only_calls Q m"
  unfolding only_calls_def list_all_iff by blast

section \<open>What stays the same\<close>

text \<open>
  The calls to the outside and the file system change the trace, the files and the supply of
  temporary names, and nothing else of the world.
\<close>

definition io_frame :: "('t, 'x, 'm) world_scheme \<Rightarrow> ('t, 'x, 'm) world_scheme \<Rightarrow> bool" where
  "io_frame w w' \<longleftrightarrow> (\<exists>tr rs s. w' = w\<lparr>w_trace := tr, w_rand := rs, w_fs := s\<rparr>)"

named_theorems io_intros "actions that change no more than the trace, the files and the names"

lemma io_frame_refl [simp]: "io_frame w w"
  unfolding io_frame_def
  by (rule exI [of _ "w_trace w"], rule exI [of _ "w_rand w"], rule exI [of _ "w_fs w"]) simp

lemma io_frame_trans: "io_frame w w' \<Longrightarrow> io_frame w' w'' \<Longrightarrow> io_frame w w''"
  by (force simp: io_frame_def)

lemma io_files [io_intros]: "io_frame w (w\<lparr>w_rand := rs, w_fs := s\<rparr>)"
  unfolding io_frame_def
  by (rule exI [of _ "w_trace w"], rule exI [of _ rs], rule exI [of _ s]) simp

lemma io_ret [io_intros]: "io_frame w (snd (ret x w))"
  by (simp add: ret_run)

lemma io_skip [io_intros]: "io_frame w (snd (skip w))"
  by (simp add: skip_run)

lemma io_panic [io_intros]: "io_frame w (snd (panic p w))"
  by (simp add: panic_run)

lemma io_ask [io_intros]: "io_frame w (snd (ask c answer w))"
  unfolding io_frame_def ask_run
  by (rule exI [of _ "w_trace w @ [c]"], rule exI [of _ "w_rand w"], rule exI [of _ "w_fs w"]) simp

lemma io_bnd [io_intros]:
  assumes "io_frame w (snd (m w))" and "\<And>x v. io_frame v (snd (f x v))"
  shows "io_frame w (snd (bnd m f w))"
proof (cases "m w")
  case (Pair oc w1)
  show ?thesis
  proof (cases oc)
    case (Ret x)
    with Pair io_frame_trans [OF _ assms(2)] assms(1) show ?thesis by (simp add: bnd_run)
  qed (use assms(1) Pair in \<open>simp_all add: bnd_run\<close>)
qed

lemma io_frameD:
  assumes "io_frame w w'"
  shows "w_tb w' = w_tb w" and "w_env w' = w_env w" and "w_cancelled w' = w_cancelled w"
    and "world.more w' = world.more w"
  using assms by (auto simp: io_frame_def)

end
