(* ===== verification/Sneaky_Sidecar.thy ===== *)
theory Sneaky_Sidecar
  imports Proxy Outside
begin

text \<open>
  \<^verbatim>\<open>sneakystack/sidecar.go\<close> (the proxy as a harness sidecar) and \<^verbatim>\<open>cmd/sneakystack/main.go\<close>
  (the proxy as a program).  The listener and the HTTP server's shutdown are the operations of
  \<open>net_api\<close>; what a running server answers to a request is \<^verbatim>\<open>ServeHTTP\<close> of theory
  \<^verbatim>\<open>Proxy\<close> on its handler.  \<^verbatim>\<open>url.Parse\<close> is the argument \<open>parse_url\<close>.
\<close>

section \<open>The sidecar\<close>

text \<open>A server is its handler and the address of its listener.\<close>

record ('o, 'h) http_server =
  hs_handler :: "('o, 'h) proxy"
  hs_addr :: string

record ('o, 'h) sidecar =
  sc_services :: "string list"
  sc_server :: "('o, 'h) http_server option"
  sc_addr :: string

definition NewSidecar :: "string list \<Rightarrow> ('o, 'h) sidecar" where
  "NewSidecar services = \<lparr>sc_services = services, sc_server = None, sc_addr = []\<rparr>"

definition Sidecar_Start ::
  "net_api \<Rightarrow> (string \<Rightarrow> go_error + url) \<Rightarrow> ctx \<Rightarrow> string \<Rightarrow> ('o, 'h) sidecar \<Rightarrow>
   (('t, 'm) cworld, (go_error + string) \<times> ('o, 'h) sidecar) act"
where
  "Sidecar_Start net parse_url ctx localstackURL s w =
     (case NewProxy parse_url NewMapStore localstackURL of
        Inl err \<Rightarrow> ret (Inl (ErrWrap ''create proxy'' err), s) w
      | Inr p \<Rightarrow>
          (let over = ctx_done w ctx in
           bnd (ask (NetListen over ''127.0.0.1:0'') (n_listen net over ''127.0.0.1:0'')) (\<lambda>listener.
             case listener of
               Inl err \<Rightarrow> ret (Inl (ErrWrap ''listen'' err), s)
             | Inr addr \<Rightarrow>
                 ret (Inr (''http://'' @ addr),
                      s\<lparr>sc_addr := addr, sc_server := Some \<lparr>hs_handler = p, hs_addr = addr\<rparr>\<rparr>)) w))"

definition Sidecar_Stop ::
  "net_api \<Rightarrow> ctx \<Rightarrow> ('o, 'h) sidecar \<Rightarrow> (('t, 'm) cworld, go_error option) act"
where
  "Sidecar_Stop net ctx s w =
     (case sc_server s of
        None \<Rightarrow> ret None w
      | Some server \<Rightarrow>
          (let over = ctx_done w ctx in
           ask (NetShutdown over (hs_addr server)) (n_shutdown net over (hs_addr server)) w))"

definition Sidecar_Healthy ::
  "net_api \<Rightarrow> ctx \<Rightarrow> ('o, 'h) sidecar \<Rightarrow> (('t, 'm) cworld, bool) act"
where
  "Sidecar_Healthy net ctx s w =
     (if sc_addr s = [] then ret False w
      else (let over = ctx_done w ctx; addr = sc_addr s in
            bnd (ask (NetDial over addr) (n_dial net over addr)) (\<lambda>dialed.
              case dialed of
                Some err \<Rightarrow> ret False
              | None \<Rightarrow> bnd (ask (NetClose addr) (n_close net addr)) (\<lambda>closed. ret (closed = None))) w))"

section \<open>The program\<close>

record sneaky_flags =
  fl_downstream :: string
  fl_port :: int
  fl_version :: bool

text \<open>
  \<^verbatim>\<open>main\<close> after \<^verbatim>\<open>flag.Parse\<close>; \<open>serve\<close> is \<^verbatim>\<open>server.ListenAndServe()\<close>, which blocks and then
  returns an error, never nil.  The result of a run that does not exit is the handler served.
\<close>

definition sneakystack_main ::
  "(string \<Rightarrow> go_error + url) \<Rightarrow> (string \<Rightarrow> call list \<Rightarrow> go_error) \<Rightarrow> sneaky_flags \<Rightarrow>
   (('t, 'm) cworld, ('o, 'h) proxy option) act"
where
  "sneakystack_main parse_url serve fl =
     (if fl_version fl then ret None
      else case NewProxy parse_url NewMapStore (fl_downstream fl) of
             Inl err \<Rightarrow> os_exit 1
           | Inr p \<Rightarrow>
               (let addr = '':'' @ itoa (fl_port fl) in
                bnd (ask (NetListen False addr) (serve addr)) (\<lambda>err.
                  if err \<noteq> ErrServerClosed then os_exit 1 else ret (Some p))))"

section \<open>Properties\<close>

lemma NewProxy_no_handlers: "NewProxy parse_url store u = Inr p \<Longrightarrow> px_handlers p = []"
  by (auto simp: NewProxy_def split: sum.splits)

lemma no_handlers_forwards: "px_handlers p = [] \<Longrightarrow> ServeHTTP p r = Forwarded (rewrite (px_downstream p) r)"
  by (simp add: ServeHTTP_def Let_def matchHandler_def)

text \<open>
  A started sidecar: the URL it hands out, the address its health check dials and the
  address its \<^verbatim>\<open>Stop\<close> shuts down are those of one and the same listener, and every request it
  receives is forwarded to the parsed LocalStack URL, whatever services were configured.  A
  sidecar that failed to start is unchanged and has reported why.
\<close>

theorem sidecar_lifecycle:
  "case Sidecar_Start net parse_url ctx u (s :: ('o, 'h) sidecar) w of
     (Ret (Inr out, s'), w') \<Rightarrow>
       (\<exists>addr p down. out = ''http://'' @ addr \<and> sc_addr s' = addr \<and>
          sc_server s' = Some \<lparr>hs_handler = p, hs_addr = addr\<rparr> \<and>
          parse_url u = Inr down \<and> (\<forall>r. ServeHTTP p r = Forwarded (rewrite down r)) \<and>
          calls_of (Sidecar_Stop net ctx' s') w' = [NetShutdown (ctx_done w' ctx') addr])
   | (Ret (Inl err, s'), w') \<Rightarrow>
       s' = s \<and> (\<exists>e. err = ErrWrap ''create proxy'' e \<or> err = ErrWrap ''listen'' e)
   | _ \<Rightarrow> False"
proof (cases "NewProxy parse_url NewMapStore u :: go_error + ('o, 'h) proxy")
  case (Inl err)
  then show ?thesis by (simp add: Sidecar_Start_def act_simps)
next
  case (Inr p)
  then have down: "parse_url u = Inr (px_downstream p)"
    by (auto simp: NewProxy_def split: sum.splits)
  have "\<And>r. ServeHTTP p r = Forwarded (rewrite (px_downstream p) r)"
    by (rule no_handlers_forwards [OF NewProxy_no_handlers [OF Inr]])
  with Inr down show ?thesis
    by (auto simp: Sidecar_Start_def Sidecar_Stop_def act_simps Let_def calls_of_def split: sum.splits)
qed

text \<open>
  The standalone program ends with status 1 exactly when the downstream URL does not parse
  or serving ends with an error other than \<^verbatim>\<open>http.ErrServerClosed\<close>, the one a signal's
  graceful shutdown causes; with \<^verbatim>\<open>-version\<close> it neither parses nor listens.
\<close>

theorem sneakystack_exit_status:
  "fst (sneakystack_main parse_url serve fl w :: ('o, 'h) proxy option outcome \<times> _) = Exited 1 \<longleftrightarrow>
     \<not> fl_version fl \<and>
     \<not> ((\<exists>u. parse_url (fl_downstream fl) = Inr u) \<and>
        serve ('':'' @ itoa (fl_port fl)) (w_trace w) = ErrServerClosed)"
  by (auto simp: sneakystack_main_def NewProxy_def act_simps Let_def split: sum.splits)

end
