(* ===== verification/Sneaky_Program.thy ===== *)
theory Sneaky_Program
  imports Sneaky_Sidecar
begin

text \<open>
  \<^verbatim>\<open>cmd/sneakystack/main.go\<close> from line 62 on, where \<^verbatim>\<open>main\<close> is no longer alone: the goroutine
  that waits for a signal and shuts the server down, the goroutines of the server, one for
  each request, and the signals, as a step relation.  The steps of the server are those
  \<^verbatim>\<open>net/http\<close> documents: \<^verbatim>\<open>Shutdown\<close> closes the listener, from then on \<^verbatim>\<open>ListenAndServe\<close>
  returns \<^verbatim>\<open>ErrServerClosed\<close>, and itself returns when no request is being handled or its
  context is done.  When \<^verbatim>\<open>main\<close> returns, the process ends with all its goroutines.
\<close>

section \<open>The processes\<close>

text \<open>Where \<^verbatim>\<open>main\<close> is: before \<^verbatim>\<open>signal.Notify\<close>, the \<^verbatim>\<open>go\<close> statement, \<^verbatim>\<open>ListenAndServe\<close>; or in it.\<close>

datatype main_pc = AtNotify | AtGo | AtListen | InServe

datatype shutdown_pc = NotStarted | AwaitSignal | InShutdown | ShutdownReturned

datatype ending = ExitCode int | KilledBySignal

text \<open>\<open>g_signal\<close>: whether \<^verbatim>\<open>sigCh\<close>, which has room for one signal, holds one.\<close>

record 'h program =
  g_main :: main_pc
  g_shutdown :: shutdown_pc
  g_signal :: bool
  g_closed :: bool
  g_open :: "request list"
  g_answered :: "(request \<times> 'h served) list"
  g_end :: "ending option"

definition program_start :: "'h program" where
  "program_start =
     \<lparr>g_main = AtNotify, g_shutdown = NotStarted, g_signal = False, g_closed = False,
      g_open = [], g_answered = [], g_end = None\<rparr>"

text \<open>
  The steps the program takes by itself.  Between two of them other steps may come: further
  requests and signals.
\<close>

inductive own_step :: "('o, 'h) proxy \<Rightarrow> 'h program \<Rightarrow> 'h program \<Rightarrow> bool" for p where
  notify: "g_end s = None \<Longrightarrow> g_main s = AtNotify \<Longrightarrow> own_step p s (s\<lparr>g_main := AtGo\<rparr>)"
| spawn: "g_end s = None \<Longrightarrow> g_main s = AtGo \<Longrightarrow>
    own_step p s (s\<lparr>g_main := AtListen, g_shutdown := AwaitSignal\<rparr>)"
| listen: "g_end s = None \<Longrightarrow> g_main s = AtListen \<Longrightarrow> \<not> g_closed s \<Longrightarrow> own_step p s (s\<lparr>g_main := InServe\<rparr>)"
| server_closed: "g_end s = None \<Longrightarrow> g_main s \<in> {AtListen, InServe} \<Longrightarrow> g_closed s \<Longrightarrow>
    own_step p s (s\<lparr>g_end := Some (ExitCode 0)\<rparr>)"
| answer: "g_end s = None \<Longrightarrow> r \<in> set (g_open s) \<Longrightarrow>
    own_step p s (s\<lparr>g_open := remove1 r (g_open s), g_answered := g_answered s @ [(r, ServeHTTP p r)]\<rparr>)"
| receive: "g_end s = None \<Longrightarrow> g_shutdown s = AwaitSignal \<Longrightarrow> g_signal s \<Longrightarrow>
    own_step p s (s\<lparr>g_signal := False, g_shutdown := InShutdown, g_closed := True\<rparr>)"
| drained: "g_end s = None \<Longrightarrow> g_shutdown s = InShutdown \<Longrightarrow> g_open s = [] \<Longrightarrow>
    own_step p s (s\<lparr>g_shutdown := ShutdownReturned\<rparr>)"
| grace_over: "g_end s = None \<Longrightarrow> g_shutdown s = InShutdown \<Longrightarrow>
    own_step p s (s\<lparr>g_shutdown := ShutdownReturned\<rparr>)"

inductive_cases own_stepE [elim]: "own_step p s s'"

text \<open>
  What comes from outside.  Before \<^verbatim>\<open>signal.Notify\<close> a signal kills the process; a second
  signal is dropped while one waits.  The port may be taken, or the listener may fail later.
\<close>

inductive outside_step :: "'h program \<Rightarrow> 'h program \<Rightarrow> bool" where
  early_signal: "g_end s = None \<Longrightarrow> g_main s = AtNotify \<Longrightarrow> outside_step s (s\<lparr>g_end := Some KilledBySignal\<rparr>)"
| signal: "g_end s = None \<Longrightarrow> g_main s \<noteq> AtNotify \<Longrightarrow> outside_step s (s\<lparr>g_signal := True\<rparr>)"
| serve_error: "g_end s = None \<Longrightarrow> g_main s \<in> {AtListen, InServe} \<Longrightarrow> \<not> g_closed s \<Longrightarrow>
    outside_step s (s\<lparr>g_end := Some (ExitCode 1)\<rparr>)"
| accept: "g_end s = None \<Longrightarrow> g_main s = InServe \<Longrightarrow> \<not> g_closed s \<Longrightarrow>
    outside_step s (s\<lparr>g_open := g_open s @ [r]\<rparr>)"

inductive_cases outside_stepE [elim]: "outside_step s s'"

inductive reachable :: "('o, 'h) proxy \<Rightarrow> 'h program \<Rightarrow> bool" for p where
  starting: "reachable p program_start"
| own: "reachable p s \<Longrightarrow> own_step p s s' \<Longrightarrow> reachable p s'"
| outside: "reachable p s \<Longrightarrow> outside_step s s' \<Longrightarrow> reachable p s'"

text \<open>Runs of own steps, with their length.\<close>

inductive own_run :: "('o, 'h) proxy \<Rightarrow> nat \<Rightarrow> 'h program \<Rightarrow> 'h program \<Rightarrow> bool" for p where
  finished: "own_run p 0 s s"
| more: "own_step p s s' \<Longrightarrow> own_run p n s' s'' \<Longrightarrow> own_run p (Suc n) s s''"

section \<open>Invariants\<close>

text \<open>
  The goroutine exists once \<^verbatim>\<open>main\<close> has passed the \<^verbatim>\<open>go\<close> statement, the server is closed only by
  it, a request is open only if the server has listened, and status 0 means closed.
\<close>

definition program_inv :: "('o, 'h) proxy \<Rightarrow> 'h program \<Rightarrow> bool" where
  "program_inv p s \<longleftrightarrow>
     (g_shutdown s = NotStarted \<longleftrightarrow> g_main s \<in> {AtNotify, AtGo}) \<and>
     (g_closed s \<longleftrightarrow> g_shutdown s \<in> {InShutdown, ShutdownReturned}) \<and>
     (g_signal s \<longrightarrow> g_main s \<noteq> AtNotify) \<and>
     (g_end s = Some (ExitCode 0) \<longrightarrow> g_closed s) \<and>
     (\<forall>c. g_end s = Some (ExitCode c) \<longrightarrow> c = 0 \<or> c = 1) \<and>
     (\<forall>(r, out) \<in> set (g_answered s). out = ServeHTTP p r)"

lemma program_inv_start: "program_inv p program_start"
  by (simp add: program_inv_def program_start_def)

lemma program_inv_own: "program_inv p s \<Longrightarrow> own_step p s s' \<Longrightarrow> program_inv p s'"
  by (erule own_stepE) (auto simp: program_inv_def)

lemma program_inv_outside: "program_inv p s \<Longrightarrow> outside_step s s' \<Longrightarrow> program_inv p s'"
  by (erule outside_stepE) (auto simp: program_inv_def)

lemma reachable_inv: "reachable p s \<Longrightarrow> program_inv p s"
  by (induction rule: reachable.induct) (auto intro: program_inv_start program_inv_own program_inv_outside)

section \<open>The work that is left\<close>

text \<open>Every own step reduces this.\<close>

definition work_left :: "'h program \<Rightarrow> nat" where
  "work_left s =
     (if g_end s = None
      then 1 + length (g_open s) + (case g_main s of AtNotify \<Rightarrow> 3 | AtGo \<Rightarrow> 2 | AtListen \<Rightarrow> 1 | InServe \<Rightarrow> 0) +
           (case g_shutdown s of NotStarted \<Rightarrow> 2 | AwaitSignal \<Rightarrow> 2 | InShutdown \<Rightarrow> 1 | ShutdownReturned \<Rightarrow> 0)
      else 0)"

lemma own_step_works: "program_inv p s \<Longrightarrow> own_step p s s' \<Longrightarrow> work_left s' < work_left s"
  by (erule own_stepE)
     (auto simp: work_left_def program_inv_def length_remove1 Suc_diff_le split: main_pc.splits shutdown_pc.splits
       dest: length_pos_if_in_set)

lemma own_run_bound: "own_run p n s s' \<Longrightarrow> program_inv p s \<Longrightarrow> n + work_left s' \<le> work_left s"
proof (induction rule: own_run.induct)
  case (more s s' n s'')
  from own_step_works [OF more.prems more.hyps(1)] more.IH [OF program_inv_own [OF more.prems more.hyps(1)]]
  show ?case by simp
qed simp

text \<open>A signal that has arrived is not lost, and ends the program in one way only.\<close>

definition signalled :: "'h program \<Rightarrow> bool" where
  "signalled s \<longleftrightarrow> g_main s \<noteq> AtNotify \<and> (g_signal s \<or> g_closed s) \<and> g_end s \<in> {None, Some (ExitCode 0)}"

lemma own_step_signalled: "own_step p s s' \<Longrightarrow> signalled s \<Longrightarrow> signalled s'"
  by (cases rule: own_step.cases) (auto simp: signalled_def)

lemma own_run_signalled: "own_run p n s s' \<Longrightarrow> signalled s \<Longrightarrow> signalled s'"
  by (induction rule: own_run.induct) (auto dest: own_step_signalled)

lemma own_run_reachable: "own_run p n s s' \<Longrightarrow> reachable p s \<Longrightarrow> reachable p s'"
  by (induction rule: own_run.induct) (auto intro: reachable.own)

text \<open>Once a signal has come there is a next step until the end, so the end can be reached.\<close>

lemma own_step_enabled:
  assumes "program_inv p s" "signalled s" "g_end s = None"
  shows "\<exists>s'. own_step p s s'"
proof (cases "g_main s = AtGo \<or> g_closed s")
  case True
  with assms show ?thesis
    by (cases "g_main s") (auto simp: program_inv_def intro: own_step.intros)
next
  case False
  with assms have "g_shutdown s = AwaitSignal" "g_signal s"
    by (cases "g_shutdown s"; auto simp: program_inv_def signalled_def)+
  with assms(3) show ?thesis by (blast intro: own_step.receive)
qed

lemma own_run_ends:
  "reachable p s \<Longrightarrow> signalled s \<Longrightarrow> \<exists>n s'. own_run p n s s' \<and> g_end s' \<noteq> None"
proof (induction "work_left s" arbitrary: s rule: less_induct)
  case less
  show ?case
  proof (cases "g_end s")
    case None
    then obtain s' where s': "own_step p s s'"
      using own_step_enabled [OF reachable_inv [OF less.prems(1)] less.prems(2)] by blast
    from less.hyps [OF own_step_works [OF reachable_inv [OF less.prems(1)] s'] reachable.own [OF less.prems(1) s'] own_step_signalled [OF s' less.prems(2)]]
    obtain n s'' where "own_run p n s' s''" "g_end s'' \<noteq> None" by blast
    with s' show ?thesis by (blast intro: own_run.more)
  qed (auto intro: own_run.finished)
qed

section \<open>Properties\<close>

text \<open>
  C19.  A signal ends the program.  From every reachable state in which a signal has come after
  \<^verbatim>\<open>signal.Notify\<close>, the program's own steps lead to its end with status 0: it can get there, it
  takes no more steps than the work that is left, and until then there is always a next one.
\<close>

theorem signal_ends_the_program:
  assumes "reachable p s" and "g_end s = None" and "g_signal s \<or> g_closed s"
  shows "(\<exists>n s'. own_run p n s s' \<and> g_end s' = Some (ExitCode 0)) \<and>
     (\<forall>n s'. own_run p n s s' \<longrightarrow>
        n \<le> work_left s \<and> (g_end s' = Some (ExitCode 0) \<or> (\<exists>s''. own_step p s' s'')))"
proof -
  have sig: "signalled s"
    using reachable_inv [OF assms(1)] assms(2,3) by (auto simp: signalled_def program_inv_def)
  have "n \<le> work_left s \<and> (g_end s' = Some (ExitCode 0) \<or> (\<exists>s''. own_step p s' s''))"
    if "own_run p n s s'" for n s'
    using own_run_bound [OF that reachable_inv [OF assms(1)]] own_run_signalled [OF that sig]
      own_step_enabled [OF reachable_inv [OF own_run_reachable [OF that assms(1)]] own_run_signalled [OF that sig]]
    by (auto simp: signalled_def)
  moreover obtain n s' where r: "own_run p n s s'" "g_end s' \<noteq> None"
    using own_run_ends [OF assms(1) sig] by blast
  moreover from own_run_signalled [OF r(1) sig] r(2) have "g_end s' = Some (ExitCode 0)"
    by (simp add: signalled_def)
  ultimately show ?thesis by blast
qed

text \<open>The program with requests \<open>rs\<close> in hand, and then a signal.\<close>

definition serving :: "request list \<Rightarrow> 'h program" where
  "serving rs = program_start\<lparr>g_main := InServe, g_shutdown := AwaitSignal, g_open := rs\<rparr>"

lemma reachable_serving: "reachable p (serving rs)"
proof (induction rs rule: rev_induct)
  case Nil
  let ?go = "program_start\<lparr>g_main := AtGo\<rparr>" and
    ?listen = "program_start\<lparr>g_main := AtListen, g_shutdown := AwaitSignal\<rparr>"
  have "own_step p program_start ?go" "own_step p ?go ?listen" "own_step p ?listen (serving [])"
    using own_step.notify [of program_start p] own_step.spawn [of ?go p] own_step.listen [of ?listen p]
    by (simp_all add: serving_def program_start_def)
  then show ?case
    by (rule reachable.own [OF reachable.own [OF reachable.own [OF reachable.starting]]])
next
  case (snoc r rs)
  from outside_step.accept [of "serving rs" r]
  have "outside_step (serving rs) (serving (rs @ [r]))"
    by (simp add: serving_def program_start_def)
  with snoc show ?case by (rule reachable.outside)
qed

lemma reachable_signalled: "reachable p ((serving rs)\<lparr>g_signal := True\<rparr>)"
proof -
  have "outside_step (serving rs) ((serving rs)\<lparr>g_signal := True\<rparr>)"
    by (rule outside_step.signal) (simp_all add: serving_def program_start_def)
  with reachable_serving show ?thesis by (rule reachable.outside)
qed

theorem signal_ends_the_program_witness:
  "\<exists>n s'. own_run (demo_proxy [(''AWSOrg'', 1)]) n ((serving [demo_request])\<lparr>g_signal := True\<rparr>) s' \<and>
     g_end s' = Some (ExitCode 0)"
  using signal_ends_the_program
    [OF reachable_signalled [where p = "demo_proxy [(''AWSOrg'', 1)]" and rs = "[demo_request]"]]
  by (simp add: serving_def program_start_def)

text \<open>
  C20.  The grace period is not granted.  Whatever requests are being handled when a signal
  comes, there is a run in which none of them is answered: \<^verbatim>\<open>Shutdown\<close> is waiting for them when
  \<^verbatim>\<open>ListenAndServe\<close> returns, \<^verbatim>\<open>main\<close> returns with status 0 without waiting for \<^verbatim>\<open>Shutdown\<close>, and
  nothing can happen any more.
\<close>

theorem grace_period_is_cut_short:
  fixes p :: "('o, 'h) proxy"
  shows "\<exists>s. reachable p s \<and> g_end s = Some (ExitCode 0) \<and> g_open s = rs \<and> g_answered s = [] \<and>
     g_shutdown s = InShutdown \<and> (\<forall>s'. \<not> own_step p s s' \<and> \<not> outside_step s s')"
proof -
  let ?s1 = "(serving rs)\<lparr>g_signal := True\<rparr>"
  let ?s2 = "?s1\<lparr>g_signal := False, g_shutdown := InShutdown, g_closed := True\<rparr>"
  let ?s3 = "?s2\<lparr>g_end := Some (ExitCode 0)\<rparr>"
  have "own_step p ?s1 ?s2"
    by (rule own_step.receive) (simp_all add: serving_def program_start_def)
  moreover have "own_step p ?s2 ?s3"
    by (rule own_step.server_closed) (simp_all add: serving_def program_start_def)
  ultimately have "reachable p ?s3"
    using reachable.own [OF reachable.own [OF reachable_signalled]] by blast
  moreover have "\<not> own_step p s s'" "\<not> outside_step s s'" if "g_end s \<noteq> None" for s s' :: "'h program"
    using that by auto
  ultimately show ?thesis
    by (intro exI [of _ ?s3]) (simp add: serving_def program_start_def)
qed

end
