(* ===== verification/Json_Encode.thy ===== *)
theory Json_Encode
  imports Go_Strings
begin

text \<open>
  The writing half of \<^verbatim>\<open>encoding/json\<close>: JSON values, the text of a string (UTF-8 aware, with
  the HTML-safe escapes Go uses by default), and the compact and the indented form.  A number
  is of the type \<open>'n\<close>, and its text is given by the argument \<open>fmt\<close>.
\<close>

section \<open>UTF-8\<close>

definition byte :: "char \<Rightarrow> nat" where
  "byte c = of_char c"

definition byte_in :: "nat \<Rightarrow> nat \<Rightarrow> char \<Rightarrow> bool" where
  "byte_in a b c \<longleftrightarrow> a \<le> byte c \<and> byte c \<le> b"

definition rune2 :: "char \<Rightarrow> char \<Rightarrow> nat" where
  "rune2 a b = (byte a - 192) * 64 + (byte b - 128)"

definition rune3 :: "char \<Rightarrow> char \<Rightarrow> char \<Rightarrow> nat" where
  "rune3 a b c = ((byte a - 224) * 64 + (byte b - 128)) * 64 + (byte c - 128)"

definition rune4 :: "char \<Rightarrow> char \<Rightarrow> char \<Rightarrow> char \<Rightarrow> nat" where
  "rune4 a b c d = (((byte a - 240) * 64 + (byte b - 128)) * 64 + (byte c - 128)) * 64 + (byte d - 128)"

text \<open>The second byte after \<open>a\<close>: not an overlong form, not a surrogate, not beyond the last rune.\<close>

definition second3 :: "char \<Rightarrow> char \<Rightarrow> bool" where
  "second3 a b \<longleftrightarrow> byte_in (if byte a = 224 then 160 else 128) (if byte a = 237 then 159 else 191) b"

definition second4 :: "char \<Rightarrow> char \<Rightarrow> bool" where
  "second4 a b \<longleftrightarrow> byte_in (if byte a = 240 then 144 else 128) (if byte a = 244 then 143 else 191) b"

text \<open>
  \<^verbatim>\<open>utf8.DecodeRune\<close> on a string that starts with a byte of 128 or more: the rune and its
  width, or \<open>None\<close> for an invalid sequence (the rune error of width 1).
\<close>

definition multi_rune :: "string \<Rightarrow> (nat \<times> nat) option" where
  "multi_rune s =
     (case s of
        [] \<Rightarrow> None
      | a # t \<Rightarrow>
          if byte_in 194 223 a then
            (case t of
               b # _ \<Rightarrow> if byte_in 128 191 b then Some (rune2 a b, 2) else None
             | _ \<Rightarrow> None)
          else if byte_in 224 239 a then
            (case t of
               b # c # _ \<Rightarrow>
                 if second3 a b \<and> byte_in 128 191 c
                 then Some (rune3 a b c, 3) else None
             | _ \<Rightarrow> None)
          else if byte_in 240 244 a then
            (case t of
               b # c # d # _ \<Rightarrow>
                 if second4 a b \<and> byte_in 128 191 c \<and> byte_in 128 191 d
                 then Some (rune4 a b c d, 4)
                 else None
             | _ \<Rightarrow> None)
          else None)"

lemma multi_rune_width: "multi_rune s = Some (r, n) \<Longrightarrow> 2 \<le> n \<and> n \<le> length s"
  by (auto simp: multi_rune_def split: list.splits if_splits)

section \<open>Strings\<close>

definition backslash :: char where
  "backslash = CHR 0x5C"

definition hex_digit :: "nat \<Rightarrow> char" where
  "hex_digit n = ''0123456789abcdef'' ! n"

definition ascii_escape :: "char \<Rightarrow> string" where
  "ascii_escape c =
     (if c = backslash \<or> c = CHR 0x22 then [backslash, c]
      else if byte c = 8 then [backslash, CHR ''b'']
      else if byte c = 12 then [backslash, CHR ''f'']
      else if byte c = 10 then [backslash, CHR ''n'']
      else if byte c = 13 then [backslash, CHR ''r'']
      else if byte c = 9 then [backslash, CHR ''t'']
      else if byte c < 32 \<or> c \<in> {CHR ''<'', CHR ''>'', CHR ''&''}
      then [backslash, CHR ''u'', CHR ''0'', CHR ''0'', hex_digit (byte c div 16), hex_digit (byte c mod 16)]
      else [c])"

function json_body :: "string \<Rightarrow> string" where
  "json_body s =
     (case s of
        [] \<Rightarrow> []
      | c # cs \<Rightarrow>
          if byte c < 128 then ascii_escape c @ json_body cs
          else (case multi_rune s of
                  None \<Rightarrow> [backslash] @ ''ufffd'' @ json_body cs
                | Some (r, n) \<Rightarrow>
                    (if r = 8232 then [backslash] @ ''u2028''
                     else if r = 8233 then [backslash] @ ''u2029''
                     else take n s) @ json_body (drop n s)))"
  by pat_completeness auto
termination
  by (relation "measure length") (auto dest!: multi_rune_width)

declare json_body.simps [simp del]

definition json_string :: "string \<Rightarrow> string" where
  "json_string s = [CHR 0x22] @ json_body s @ [CHR 0x22]"

section \<open>Values\<close>

text \<open>
  An object is its members in the order in which the map is ranged over; every writer sorts
  them by key.
\<close>

datatype 'n json =
    JNull | JBool bool | JNum 'n | JStr string
  | JArr "'n json list" | JObj "(string \<times> 'n json) list"

definition commas :: "string \<Rightarrow> string list \<Rightarrow> string" where
  "commas sep xs = join sep xs"

definition members :: "(string \<times> string) list \<Rightarrow> (string \<times> string) list" where
  "members kvs = sort_key fst kvs"

text \<open>\<^verbatim>\<open>json.Marshal\<close>.\<close>

fun marshal :: "('n \<Rightarrow> string) \<Rightarrow> 'n json \<Rightarrow> string" where
  "marshal fmt JNull = ''null''"
| "marshal fmt (JBool b) = (if b then ''true'' else ''false'')"
| "marshal fmt (JNum n) = fmt n"
| "marshal fmt (JStr s) = json_string s"
| "marshal fmt (JArr vs) = ''['' @ commas '','' (map (marshal fmt) vs) @ '']''"
| "marshal fmt (JObj kvs) =
     ''{'' @ commas '','' (map (\<lambda>(k, v). json_string k @ '':'' @ v)
       (members (map (\<lambda>(k, v). (k, marshal fmt v)) kvs))) @ ''}''"

text \<open>\<^verbatim>\<open>json.MarshalIndent(v, "", "  ")\<close>, at nesting depth \<open>d\<close>.\<close>

definition new_line :: "nat \<Rightarrow> string" where
  "new_line d = CHR 0x0A # replicate (2 * d) CHR 0x20"

fun marshal_indent :: "('n \<Rightarrow> string) \<Rightarrow> nat \<Rightarrow> 'n json \<Rightarrow> string" where
  "marshal_indent fmt d JNull = ''null''"
| "marshal_indent fmt d (JBool b) = (if b then ''true'' else ''false'')"
| "marshal_indent fmt d (JNum n) = fmt n"
| "marshal_indent fmt d (JStr s) = json_string s"
| "marshal_indent fmt d (JArr vs) =
     (if vs = [] then ''[]''
      else ''['' @ new_line (Suc d) @
           commas ('','' @ new_line (Suc d)) (map (marshal_indent fmt (Suc d)) vs) @
           new_line d @ '']'')"
| "marshal_indent fmt d (JObj kvs) =
     (if kvs = [] then ''{}''
      else ''{'' @ new_line (Suc d) @
           commas ('','' @ new_line (Suc d))
             (map (\<lambda>(k, v). json_string k @ '': '' @ v)
               (members (map (\<lambda>(k, v). (k, marshal_indent fmt (Suc d) v)) kvs))) @
           new_line d @ ''}'')"

section \<open>The order of a map does not show\<close>

lemma members_perm:
  assumes "distinct (map fst kvs)" and "mset kvs' = mset kvs"
  shows "members kvs' = members kvs"
proof -
  have d: "distinct (map fst kvs')"
    using assms by (metis mset_eq_imp_distinct_iff mset_map)
  have e: "set kvs' = set kvs"
    using assms(2) by (rule mset_eq_setD)
  have "distinct (map fst (sort_key fst xs))" if "distinct (map fst xs)" for xs :: "(string \<times> string) list"
    using that by (metis mset_eq_imp_distinct_iff mset_map mset_sort)
  then have "sort_key fst kvs' = sort_key fst kvs"
    using assms(1) d e
    by (intro map_sorted_distinct_set_unique [where f = fst]) (auto simp: distinct_map)
  then show ?thesis by (simp add: members_def)
qed

end
