(* ===== verification/Float64.thy ===== *)
theory Float64
  imports Go_Strings
begin

text \<open>
  Go's \<^verbatim>\<open>float64\<close> as \<^verbatim>\<open>encoding/json\<close> reads and writes it: the number grammar of JSON,
  \<^verbatim>\<open>strconv.ParseFloat\<close> (round to nearest, ties to even, overflow as an error) and the
  shortest text that reads back as the same number.  No infinity and no NaN is ever read.
\<close>

section \<open>Finite numbers\<close>

text \<open>
  The value is \<open>\<plusminus> frac \<cdot> 2^scale / 2^1074\<close>; the fraction has its leading bit, 2 to the 52nd, set
  unless the scale is the least one.
\<close>

record float64 =
  negative :: bool
  frac :: nat
  scale :: nat

definition unit_exp :: nat where
  "unit_exp = 1074"

definition max_scale :: nat where
  "max_scale = 2045"

definition is_float :: "float64 \<Rightarrow> bool" where
  "is_float x \<longleftrightarrow>
     frac x < 2 ^ 53 \<and> scale x \<le> max_scale \<and> (scale x = 0 \<or> 2 ^ 52 \<le> frac x)"

text \<open>The magnitude, in units of the least positive number.\<close>

definition units :: "float64 \<Rightarrow> nat" where
  "units x = frac x * 2 ^ scale x"

section \<open>Rounding a quotient\<close>

definition half_even :: "nat \<Rightarrow> nat \<Rightarrow> nat" where
  "half_even n d =
     (let k = n div d; r = n mod d
      in if d < 2 * r \<or> (d = 2 * r \<and> odd k) then Suc k else k)"

text \<open>
  The number nearest to \<open>num / den\<close>: the least scale at which the quotient fits into 53 bits,
  and one more when rounding fills them.
\<close>

definition round_quotient :: "bool \<Rightarrow> nat \<Rightarrow> nat \<Rightarrow> float64 option" where
  "round_quotient neg num den =
     (let n = num * 2 ^ unit_exp in
      case find (\<lambda>s. n div (den * 2 ^ s) < 2 ^ 53) [0..<Suc max_scale] of
        None \<Rightarrow> None
      | Some s \<Rightarrow>
          (let m = half_even n (den * 2 ^ s) in
           if m < 2 ^ 53 then Some \<lparr>negative = neg, frac = m, scale = s\<rparr>
           else if s < max_scale then Some \<lparr>negative = neg, frac = 2 ^ 52, scale = Suc s\<rparr>
           else None))"

lemma find_upt:
  assumes "find P [0..<n] = Some s"
  shows "P s" and "s < n" and "\<And>i. i < s \<Longrightarrow> \<not> P i"
proof -
  obtain i where i: "i < n" "P ([0..<n] ! i)" "s = [0..<n] ! i" "\<forall>j<i. \<not> P ([0..<n] ! j)"
    using assms by (auto simp: find_Some_iff)
  have e: "[0..<n] ! j = j" if "j < n" for j
    using that nth_upt [of 0 j n] by simp
  with i show "P s" "s < n" by simp_all
  show "\<not> P j" if "j < s" for j
    using i e that by (metis order.strict_trans)
qed

lemma find_uptI:
  assumes "P s" and "s < n" and "\<And>i. i < s \<Longrightarrow> \<not> P i"
  shows "find P [0..<n] = Some s"
proof -
  have e: "[0..<n] ! j = j" if "j < n" for j
    using that nth_upt [of 0 j n] by simp
  have "\<exists>i<length [0..<n]. P ([0..<n] ! i) \<and> s = [0..<n] ! i \<and> (\<forall>j<i. \<not> P ([0..<n] ! j))"
    using assms e by (intro exI [of _ s]) auto
  then show ?thesis unfolding find_Some_iff .
qed

lemma half_even_bounds: "n div d \<le> half_even n d" "half_even n d \<le> Suc (n div d)"
  by (simp_all add: half_even_def Let_def)

lemma half_even_exact [simp]: "0 < d \<Longrightarrow> half_even (k * d) d = k"
  by (simp add: half_even_def Let_def)

text \<open>What is read is always in normal form.\<close>

lemma round_quotient_is_float:
  assumes "round_quotient neg num den = Some x"
  shows "is_float x"
proof -
  define n where "n = num * 2 ^ unit_exp"
  obtain s where s: "find (\<lambda>s. n div (den * 2 ^ s) < 2 ^ 53) [0..<Suc max_scale] = Some s"
    using assms by (auto simp: round_quotient_def n_def Let_def split: option.splits)
  have le: "s \<le> max_scale" using find_upt(2) [OF s] by simp
  let ?m = "half_even n (den * 2 ^ s)"
  have low: "2 ^ 52 \<le> n div (den * 2 ^ s)" if nz: "s \<noteq> 0"
  proof -
    obtain t where t: "s = Suc t" using nz by (cases s) auto
    have "2 ^ 53 \<le> n div (den * 2 ^ t)"
      using find_upt(3) [OF s, of t] t by simp
    then have "2 ^ 53 div 2 \<le> n div (den * 2 ^ t) div 2"
      by (rule div_le_mono)
    then show ?thesis
      by (simp add: t div_mult2_eq [symmetric] ac_simps)
  qed
  show ?thesis
  proof (cases "?m < 2 ^ 53")
    case True
    then have "x = \<lparr>negative = neg, frac = ?m, scale = s\<rparr>"
      using assms s by (simp add: round_quotient_def n_def Let_def)
    with True le low half_even_bounds(1) [of n "den * 2 ^ s"] show ?thesis
      by (auto simp: is_float_def intro: le_trans)
  next
    case False
    then have "x = \<lparr>negative = neg, frac = 2 ^ 52, scale = Suc s\<rparr>" "s < max_scale"
      using assms s by (simp_all add: round_quotient_def n_def Let_def split: if_splits)
    then show ?thesis by (simp add: is_float_def)
  qed
qed

text \<open>A number that is a float already is not changed.\<close>

lemma round_quotient_exact:
  assumes "is_float x" and "0 < den" and "num * 2 ^ unit_exp = units x * den"
  shows "round_quotient (negative x) num den = Some x"
proof -
  let ?n = "num * 2 ^ unit_exp"
  have n: "?n = frac x * 2 ^ scale x * den" using assms(3) by (simp add: units_def)
  have f: "find (\<lambda>s. ?n div (den * 2 ^ s) < 2 ^ 53) [0..<Suc max_scale] = Some (scale x)"
  proof (rule find_uptI)
    show "?n div (den * 2 ^ scale x) < 2 ^ 53"
      using assms(1,2) by (simp add: n is_float_def mult.commute [of den] mult.assoc)
    show "scale x < Suc max_scale"
      using assms(1) by (simp add: is_float_def)
    fix i assume i: "i < scale x"
    then obtain j where j: "scale x = i + Suc j"
      using less_imp_Suc_add by fastforce
    have "?n = (frac x * 2 ^ Suc j) * (den * 2 ^ i)"
      by (simp add: n j power_add ac_simps)
    then have "?n div (den * 2 ^ i) = frac x * 2 ^ Suc j"
      using assms(2) by simp
    moreover have "2 ^ 52 * 2 ^ 1 \<le> frac x * 2 ^ Suc j"
      using assms(1) i by (intro mult_le_mono) (auto simp: is_float_def)
    ultimately show "\<not> ?n div (den * 2 ^ i) < 2 ^ 53" by simp
  qed
  have "half_even ?n (den * 2 ^ scale x) = frac x"
    using assms(2) half_even_exact [of "den * 2 ^ scale x" "frac x"]
    by (simp add: n ac_simps)
  then show ?thesis
    using f assms(1) by (simp add: round_quotient_def Let_def is_float_def)
qed

section \<open>Reading\<close>

definition is_digit :: "char \<Rightarrow> bool" where
  "is_digit c \<longleftrightarrow> 48 \<le> (of_char c :: nat) \<and> (of_char c :: nat) \<le> 57"

definition digit_value :: "char \<Rightarrow> nat" where
  "digit_value c = of_char c - 48"

definition nat_of :: "string \<Rightarrow> nat" where
  "nat_of ds = foldl (\<lambda>n c. 10 * n + digit_value c) 0 ds"

text \<open>\<^verbatim>\<open>strconv\<close> stops counting an exponent once it has five digits.\<close>

definition exponent_of :: "string \<Rightarrow> nat" where
  "exponent_of ds = foldl (\<lambda>e c. if e < 10000 then 10 * e + digit_value c else e) 0 ds"

definition split_sign :: "string \<Rightarrow> bool \<times> string" where
  "split_sign s = (case s of [] \<Rightarrow> (False, s) | c # t \<Rightarrow> if c = CHR ''-'' then (True, t) else (False, s))"

definition read_fraction :: "string \<Rightarrow> (string \<times> string) option" where
  "read_fraction s =
     (case s of
        [] \<Rightarrow> Some ([], s)
      | c # t \<Rightarrow>
          if c = CHR ''.'' then
            (if takeWhile is_digit t = [] then None else Some (takeWhile is_digit t, dropWhile is_digit t))
          else Some ([], s))"

definition read_exponent :: "string \<Rightarrow> int option" where
  "read_exponent s =
     (case s of
        [] \<Rightarrow> Some 0
      | c # t \<Rightarrow>
          if c = CHR ''e'' \<or> c = CHR ''E'' then
            (let (neg, u) = (case t of
                 [] \<Rightarrow> (False, t)
               | d # u \<Rightarrow> if d = CHR ''-'' then (True, u) else if d = CHR ''+'' then (False, u) else (False, t))
             in if u = [] \<or> \<not> list_all is_digit u then None
                else Some (if neg then - int (exponent_of u) else int (exponent_of u)))
          else None)"

text \<open>
  The sign, the digits before and after the point, how many of them stand after it, and the
  exponent; \<open>None\<close> for a text that is not a JSON number.
\<close>

definition read_number :: "string \<Rightarrow> (bool \<times> string \<times> nat \<times> int) option" where
  "read_number s =
     (let (neg, t) = split_sign s; whole = takeWhile is_digit t in
      if whole = [] \<or> (hd whole = CHR ''0'' \<and> tl whole \<noteq> []) then None
      else (case read_fraction (dropWhile is_digit t) of
              None \<Rightarrow> None
            | Some (part, u) \<Rightarrow>
                (case read_exponent u of
                   None \<Rightarrow> None
                 | Some e \<Rightarrow> Some (neg, whole @ part, length part, e))))"

definition parse_float :: "string \<Rightarrow> float64 option" where
  "parse_float s =
     (case read_number s of
        None \<Rightarrow> None
      | Some (neg, ds, places, e) \<Rightarrow>
          (let k = e - int places in
           if 0 \<le> k then round_quotient neg (nat_of ds * 10 ^ nat k) 1
           else round_quotient neg (nat_of ds) (10 ^ nat (- k))))"

definition number_char :: "char \<Rightarrow> bool" where
  "number_char c \<longleftrightarrow> is_digit c \<or> c \<in> {CHR ''-'', CHR ''+'', CHR ''.'', CHR ''e'', CHR ''E''}"

definition number_start :: "char \<Rightarrow> bool" where
  "number_start c \<longleftrightarrow> is_digit c \<or> c = CHR ''-''"

lemma list_all_span:
  "list_all P s \<longleftrightarrow> list_all P (takeWhile Q s) \<and> list_all P (dropWhile Q s)"
  by (metis list_all_append takeWhile_dropWhile_id)

lemma digits_number_chars: "list_all number_char (takeWhile is_digit s)"
  by (auto simp: list_all_iff number_char_def dest: set_takeWhileD)

lemma read_exponent_chars: "read_exponent s = Some e \<Longrightarrow> list_all number_char s"
  by (auto simp: read_exponent_def number_char_def list_all_iff Let_def
      split: list.splits if_splits)

lemma read_fraction_chars:
  "read_fraction s = Some (part, u) \<Longrightarrow> list_all number_char u \<Longrightarrow> list_all number_char s"
proof (cases s)
  case (Cons c t)
  assume a: "read_fraction s = Some (part, u)" "list_all number_char u"
  show ?thesis
  proof (cases "c = CHR ''.''")
    case True
    with a(1) Cons have "u = dropWhile is_digit t"
      by (simp add: read_fraction_def split: if_splits)
    with a(2) have "list_all number_char t"
      using digits_number_chars [of t] list_all_span [of number_char t is_digit] by blast
    with Cons True show ?thesis by (simp add: number_char_def)
  next
    case False
    with a Cons show ?thesis by (simp add: read_fraction_def)
  qed
qed simp

lemma read_number_chars:
  assumes "read_number s = Some r"
  shows "list_all number_char s" and "\<exists>c t. s = c # t \<and> number_start c"
proof -
  obtain neg t where t: "split_sign s = (neg, t)" by fastforce
  obtain part u e where p: "takeWhile is_digit t \<noteq> []"
      "read_fraction (dropWhile is_digit t) = Some (part, u)" "read_exponent u = Some e"
    using assms t by (auto simp: read_number_def Let_def split: if_splits option.splits)
  then have a: "list_all number_char t"
    using digits_number_chars read_fraction_chars read_exponent_chars list_all_span by metis
  from p(1) obtain c v where c: "t = c # v" "is_digit c"
    by (cases t) (auto split: if_splits)
  have "s = t \<or> s = CHR ''-'' # t"
    using t by (auto simp: split_sign_def split: list.splits if_splits)
  with a c show "list_all number_char s" "\<exists>c t. s = c # t \<and> number_start c"
    by (auto simp: number_char_def number_start_def)
qed

lemma parse_float_is_float: "parse_float s = Some x \<Longrightarrow> is_float x"
  by (auto simp: parse_float_def Let_def split: option.splits if_splits
      intro: round_quotient_is_float)

section \<open>Writing\<close>

definition strip_zeros :: "string \<Rightarrow> string" where
  "strip_zeros ds = rev (dropWhile (\<lambda>c. c = CHR ''0'') (rev ds))"

text \<open>Digits with the point after the first \<open>dp\<close> of them: \<^verbatim>\<open>%f\<close> and \<^verbatim>\<open>%e\<close> with all digits.\<close>

definition point_text :: "string \<Rightarrow> int \<Rightarrow> string" where
  "point_text ds dp =
     (if dp \<le> 0 then ''0.'' @ replicate (nat (- dp)) CHR ''0'' @ ds
      else if length ds \<le> nat dp then ds @ replicate (nat dp - length ds) CHR ''0''
      else take (nat dp) ds @ ''.'' @ drop (nat dp) ds)"

definition exponent_text :: "string \<Rightarrow> int \<Rightarrow> string" where
  "exponent_text ds dp =
     take 1 ds @ (if tl ds = [] then [] else ''.'' @ tl ds) @
     (if dp < 1 then ''e-'' @ nat_digits (nat (1 - dp))
      else ''e+'' @ (if dp < 11 then ''0'' else []) @ nat_digits (nat (dp - 1)))"

text \<open>
  \<^verbatim>\<open>encoding/json\<close> writes an exponent for a magnitude below the float \<open>1e-6\<close> or from \<open>1e21\<close> on,
  and cuts the zero that \<^verbatim>\<open>strconv\<close> puts before a negative exponent of one digit.
\<close>

definition with_exponent :: "float64 \<Rightarrow> bool" where
  "with_exponent x \<longleftrightarrow>
     (case round_quotient False 1 (10 ^ 6) of None \<Rightarrow> False | Some small \<Rightarrow> units x < units small) \<or>
     10 ^ 21 * 2 ^ unit_exp \<le> units x"

definition sign_text :: "float64 \<Rightarrow> string" where
  "sign_text x = (if negative x then ''-'' else [])"

definition decimal_text :: "float64 \<Rightarrow> int \<Rightarrow> nat \<Rightarrow> string" where
  "decimal_text x shift n =
     (let ds = nat_digits n; dp = int (length ds) + shift in
      sign_text x @
      (if with_exponent x then exponent_text (strip_zeros ds) dp else point_text (strip_zeros ds) dp))"

text \<open>The value is \<open>exact_digits x / 10^1074\<close>; its first \<open>n\<close> digits, rounded both ways, the nearer first.\<close>

definition exact_digits :: "float64 \<Rightarrow> nat" where
  "exact_digits x = units x * 5 ^ unit_exp"

definition candidates :: "float64 \<Rightarrow> nat \<Rightarrow> string list" where
  "candidates x n =
     (let e = exact_digits x; l = length (nat_digits e) in
      if l < n then []
      else (let q = 10 ^ (l - n); near = half_even e q; low = e div q
            in map (decimal_text x (int (l - n) - int unit_exp))
                 [near, if near = low then Suc low else low]))"

text \<open>
  \<^verbatim>\<open>strconv.FormatFloat\<close> with precision -1: the first candidate, fewest digits first, that reads
  back as the number.  Seventeen digits always suffice; the exact decimal after them makes
  the definition plainly total.
\<close>

definition exact_text :: "float64 \<Rightarrow> string" where
  "exact_text x = sign_text x @ nat_digits (exact_digits x) @ ''e-1074''"

definition format_float :: "float64 \<Rightarrow> string" where
  "format_float x =
     (if units x = 0 then sign_text x @ ''0''
      else (case find (\<lambda>t. parse_float t = Some x) (concat (map (candidates x) [1..<18])) of
              Some t \<Rightarrow> t
            | None \<Rightarrow> exact_text x))"

section \<open>Reading back what was written\<close>

lemma of_char_digit: "d < 10 \<Longrightarrow> of_char (digit d) = 48 + d"
proof -
  assume "d < 10"
  then have "d \<in> set [0..<10]" by simp
  moreover have "list_all (\<lambda>d. of_char (digit d) = 48 + d) [0..<10]" by code_simp
  ultimately show ?thesis by (simp only: list_all_iff)
qed

lemma digit_is_digit: "d < 10 \<Longrightarrow> is_digit (digit d) \<and> digit_value (digit d) = d"
  by (simp add: is_digit_def digit_value_def of_char_digit)

lemma nat_digits_is_digit: "list_all is_digit (nat_digits n)"
  by (induction n rule: nat_digits.induct) (subst nat_digits.simps, simp add: digit_is_digit)

lemma nat_of_nat_digits: "nat_of (nat_digits n) = n"
proof (induction n rule: nat_digits.induct)
  case (1 n)
  then show ?case
    by (subst nat_digits.simps) (simp add: nat_of_def digit_is_digit)
qed

lemma nat_digits_head: "\<exists>c t. nat_digits n = c # t \<and> (c = CHR ''0'' \<longrightarrow> n = 0 \<and> t = [])"
proof (induction n rule: nat_digits.induct)
  case (1 n)
  show ?case
  proof (cases "n < 10")
    case True
    have "n = 0" if z: "digit n = CHR ''0''"
    proof -
      have "(of_char (CHR ''0'') :: nat) = 48 + n"
        unfolding z [symmetric] by (rule of_char_digit [OF True])
      then show ?thesis by simp
    qed
    with True show ?thesis by (simp add: nat_digits.simps [of n])
  next
    case False
    with 1 show ?thesis by (auto simp: nat_digits.simps [of n])
  qed
qed

lemma span_digits:
  assumes "list_all is_digit ds" and "\<not> is_digit c"
  shows "takeWhile is_digit (ds @ c # t) = ds" and "dropWhile is_digit (ds @ c # t) = c # t"
  using assms by (simp_all add: list_all_iff takeWhile_tail)

lemma parse_exact_text:
  assumes "is_float x"
  shows "parse_float (exact_text x) = Some x"
proof -
  let ?ds = "nat_digits (exact_digits x)"
  obtain c t where ct: "?ds = c # t" "c = CHR ''0'' \<longrightarrow> exact_digits x = 0 \<and> t = []"
    using nat_digits_head by blast
  have "is_digit c" using nat_digits_is_digit [of "exact_digits x"] by (simp add: ct(1))
  then have "c \<noteq> CHR ''-''" by (auto simp: is_digit_def)
  then have s: "split_sign (exact_text x) = (negative x, ?ds @ ''e-1074'')"
    by (simp add: exact_text_def sign_text_def split_sign_def ct(1))
  have e: "\<not> is_digit CHR ''e''" by (simp add: is_digit_def)
  have r: "read_fraction ''e-1074'' = Some ([], ''e-1074'')"
      "read_exponent ''e-1074'' = Some (- int unit_exp)"
    by (simp add: read_fraction_def) code_simp
  have "read_number (exact_text x) = Some (negative x, ?ds, 0, - int unit_exp)"
    using span_digits [OF nat_digits_is_digit e, of "exact_digits x" "''-1074''"] ct r
    by (simp add: read_number_def s)
  moreover have "exact_digits x * 2 ^ unit_exp = units x * 10 ^ unit_exp"
    by (simp add: exact_digits_def mult.assoc power_mult_distrib [symmetric])
  moreover have "0 < unit_exp" by (simp add: unit_exp_def)
  ultimately show ?thesis
    using round_quotient_exact [OF assms, of "10 ^ unit_exp" "exact_digits x"]
    by (simp add: parse_float_def nat_of_nat_digits)
qed

theorem parse_format_float:
  assumes "is_float x"
  shows "parse_float (format_float x) = Some x"
proof (cases "units x = 0")
  case True
  have "read_number ''0'' = Some (False, ''0'', 0, 0)" "read_number ''-0'' = Some (True, ''0'', 0, 0)"
    by code_simp+
  then have "read_number (format_float x) = Some (negative x, ''0'', 0, 0)"
    using True by (simp add: format_float_def sign_text_def)
  moreover have "nat_of ''0'' = 0" by code_simp
  ultimately show ?thesis
    using round_quotient_exact [OF assms, of 1 0] True by (simp add: parse_float_def)
next
  case False
  then show ?thesis
    using parse_exact_text [OF assms]
    by (auto simp: format_float_def dest: find_SomeD split: option.splits)
qed

end
