(* ===== verification/Json_Strings.thy ===== *)
theory Json_Strings
  imports Json_Encode Float64
begin

text \<open>
  Strings as \<^verbatim>\<open>encoding/json\<close> reads them: UTF-8, escapes, surrogate pairs, and the replacement
  rune for what is no rune.  A string that is UTF-8 is read back from its literal.
\<close>

section \<open>Runes\<close>

definition encode_rune :: "nat \<Rightarrow> string" where
  "encode_rune r =
     (if r < 128 then [char_of r]
      else if r < 2048 then [char_of (192 + r div 64), char_of (128 + r mod 64)]
      else if r < 65536 then
        [char_of (224 + r div 4096), char_of (128 + r div 64 mod 64), char_of (128 + r mod 64)]
      else [char_of (240 + r div 262144), char_of (128 + r div 4096 mod 64),
            char_of (128 + r div 64 mod 64), char_of (128 + r mod 64)])"

definition surrogate :: "nat \<Rightarrow> bool" where
  "surrogate r \<longleftrightarrow> 0xD800 \<le> r \<and> r < 0xE000"

definition is_rune :: "nat \<Rightarrow> bool" where
  "is_rune r \<longleftrightarrow> r < 0x110000 \<and> \<not> surrogate r"

definition replacement :: string where
  "replacement = encode_rune 0xFFFD"

text \<open>A string is UTF-8 when it is put together from the encodings of runes.\<close>

definition rune_text :: "string \<Rightarrow> bool" where
  "rune_text y \<longleftrightarrow> (\<exists>c. y = [c] \<and> byte c < 128) \<or> (\<exists>r. multi_rune y = Some (r, length y))"

inductive utf8 :: "string \<Rightarrow> bool" where
  utf8_Nil: "utf8 []"
| utf8_rune: "rune_text y \<Longrightarrow> utf8 z \<Longrightarrow> utf8 (y @ z)"

lemma utf8_ascii: "(\<And>c. c \<in> set s \<Longrightarrow> byte c < 128) \<Longrightarrow> utf8 s"
proof (induction s)
  case (Cons c s)
  then have "rune_text [c]" "utf8 s" by (auto simp: rune_text_def)
  then show ?case using utf8_rune [of "[c]" s] by simp
qed (rule utf8_Nil)

lemma byte_char_of [simp]: "byte (char_of n) = n mod 256"
  by (simp add: byte_def)

lemma char_of_byte [simp]: "char_of (byte c) = c"
  by (simp add: byte_def)

lemma byte_inject: "byte c = byte d \<longleftrightarrow> c = d"
  by (simp add: byte_def)

lemma base64_digits:
  fixes x y :: nat
  assumes "y < 64"
  shows "(x * 64 + y) div 64 = x" and "(x * 64 + y) mod 64 = y"
  using assms by simp_all

lemma multi_rune_append:
  "multi_rune y = Some (r, n) \<Longrightarrow> multi_rune (y @ z) = Some (r, n)"
  by (auto simp: multi_rune_def split: list.splits if_splits)

lemma encode_rune2:
  assumes "byte_in 194 223 a" "byte_in 128 191 b"
  shows "encode_rune (rune2 a b) = [a, b]"
proof -
  define x where "x = byte a - 192"
  define y where "y = byte b - 128"
  have xy: "2 \<le> x" "x < 32" "y < 64" "192 + x = byte a" "128 + y = byte b"
    using assms by (auto simp: byte_in_def x_def y_def)
  have r: "rune2 a b = x * 64 + y" by (simp add: rune2_def x_def y_def)
  have "128 \<le> x * 64 + y" "x * 64 + y < 2048" using xy(1-3) by linarith+
  with xy show ?thesis
    by (simp add: encode_rune_def r base64_digits)
qed

lemma encode_rune3:
  assumes "byte_in 224 239 a" "second3 a b" "byte_in 128 191 c"
  shows "encode_rune (rune3 a b c) = [a, b, c]"
proof -
  define x where "x = byte a - 224"
  define y where "y = byte b - 128"
  define z where "z = byte c - 128"
  have xyz: "x < 16" "y < 64" "z < 64" "x = 0 \<longrightarrow> 32 \<le> y" "224 + x = byte a" "128 + y = byte b" "128 + z = byte c"
    using assms by (auto simp: byte_in_def second3_def x_def y_def z_def split: if_splits)
  have r: "rune3 a b c = (x * 64 + y) * 64 + z" by (simp only: rune3_def x_def y_def z_def)
  have "2048 \<le> (x * 64 + y) * 64 + z"
    using xyz(4) by (cases "x = 0") auto
  moreover have "x \<le> 15" "y \<le> 63" "z \<le> 63" using xyz(1-3) by simp_all
  then have "(x * 64 + y) * 64 + z < 65536" by simp
  moreover have "((x * 64 + y) * 64 + z) div 4096 = x"
    using base64_digits(1) [OF xyz(3)] base64_digits(1) [OF xyz(2)] div_mult2_eq [of _ 64 64] by simp
  ultimately show ?thesis
    using xyz(2,3,5-7) base64_digits [OF xyz(3), of "x * 64 + y"] base64_digits [OF xyz(2), of x]
    by (simp only: encode_rune_def r) simp
qed

lemma encode_rune4:
  assumes "byte_in 240 244 a" "second4 a b" "byte_in 128 191 c" "byte_in 128 191 d"
  shows "encode_rune (rune4 a b c d) = [a, b, c, d]"
proof -
  define x where "x = byte a - 240"
  define y where "y = byte b - 128"
  define z where "z = byte c - 128"
  define u where "u = byte d - 128"
  define p where "p = x * 64 + y"
  define q where "q = p * 64 + z"
  have f: "y < 64" "z < 64" "u < 64" "x = 0 \<longrightarrow> 16 \<le> y" "240 + x = byte a" "128 + y = byte b"
      "128 + z = byte c" "128 + u = byte d"
    using assms by (auto simp: byte_in_def second4_def x_def y_def z_def u_def split: if_splits)
  have r: "rune4 a b c d = q * 64 + u" by (simp only: rune4_def x_def y_def z_def u_def p_def q_def)
  have "16 \<le> p" using f(4) by (cases "x = 0") (simp_all add: p_def)
  then have big: "\<not> q * 64 + u < 65536" by (simp add: q_def)
  have d: "(q * 64 + u) div 64 = q" "(q * 64 + u) mod 64 = u" "q div 64 = p" "q mod 64 = z"
      "p div 64 = x" "p mod 64 = y"
    using f(1-3) by (simp_all only: base64_digits p_def q_def)
  have "(q * 64 + u) div 4096 = p"
    using d(1,3) div_mult2_eq [of "q * 64 + u" 64 64] by simp
  moreover from this have "(q * 64 + u) div 262144 = x"
    using d(5) div_mult2_eq [of "q * 64 + u" 4096 64] by simp
  ultimately have "encode_rune (q * 64 + u) =
      [char_of (240 + x), char_of (128 + y), char_of (128 + z), char_of (128 + u)]"
    using big d by (simp only: encode_rune_def) simp
  then show ?thesis by (simp only: r f(5-8) char_of_byte)
qed

lemma multi_rune_cases:
  assumes "multi_rune s = Some (r, n)"
  obtains
    (two) a b t where "s = a # b # t" "n = 2" "r = rune2 a b" "byte_in 194 223 a" "byte_in 128 191 b"
  | (three) a b c t where "s = a # b # c # t" "n = 3" "r = rune3 a b c" "byte_in 224 239 a"
      "second3 a b" "byte_in 128 191 c"
  | (four) a b c d t where "s = a # b # c # d # t" "n = 4" "r = rune4 a b c d" "byte_in 240 244 a"
      "second4 a b" "byte_in 128 191 c" "byte_in 128 191 d"
  using assms by (auto simp: multi_rune_def split: list.splits if_splits)

lemma multi_rune_text: "multi_rune y = Some (r, length y) \<Longrightarrow> y = encode_rune r"
  by (elim multi_rune_cases) (simp_all add: encode_rune2 encode_rune3 encode_rune4)

lemma rune_text_encode: "is_rune r \<Longrightarrow> rune_text (encode_rune r)"
proof -
  assume a: "is_rune r"
  have m: "(n + r') mod 256 = n + r'" if "n + r' < 256" for n r' :: nat using that by simp
  have l: "128 + k mod 64 < (256::nat)" "128 \<le> 128 + k mod 64" "128 + k mod 64 \<le> (191::nat)" for k
  proof -
    have "k mod 64 < 64" by simp
    then show "128 + k mod 64 < (256::nat)" "128 \<le> 128 + k mod 64" "128 + k mod 64 \<le> (191::nat)"
      by linarith+
  qed
  consider "r < 128" | "128 \<le> r" "r < 2048" | "2048 \<le> r" "r < 65536" | "65536 \<le> r" by linarith
  then show ?thesis
  proof cases
    case 1
    then show ?thesis by (simp add: rune_text_def encode_rune_def)
  next
    case 2
    then have "2 \<le> r div 64" "r div 64 < 32" by simp_all
    then have "byte_in 194 223 (char_of (192 + r div 64))" "byte_in 128 191 (char_of (128 + r mod 64))"
      using l [of r] by (simp_all only: byte_in_def byte_char_of m) simp_all
    with 2 show ?thesis by (simp add: rune_text_def encode_rune_def multi_rune_def)
  next
    case 3
    define x where "x = r div 4096"
    define y where "y = r div 64 mod 64"
    have d: "r div 64 = x * 64 + y"
      using div_mult_mod_eq [of "r div 64" 64] by (simp add: x_def y_def div_mult2_eq [symmetric])
    have x: "x < 16" using 3 by (simp add: x_def)
    have y: "y < 64" by (simp add: y_def)
    have "57344 \<le> r \<Longrightarrow> 14 \<le> x" unfolding x_def by (drule div_le_mono [where k = 4096]) simp
    then have "x = 0 \<Longrightarrow> 32 \<le> y" "x = 13 \<Longrightarrow> y < 32"
      using 3 a d by (auto simp: is_rune_def surrogate_def)
    then have "second3 (char_of (224 + x)) (char_of (128 + y))" "byte_in 224 239 (char_of (224 + x))"
      using x y by (auto simp: second3_def byte_in_def)
    moreover have "byte_in 128 191 (char_of (128 + r mod 64))" "\<not> byte_in 194 223 (char_of (224 + x))"
      using l [of r] x by (simp_all only: byte_in_def byte_char_of m) simp_all
    ultimately show ?thesis
      using 3 by (simp add: rune_text_def encode_rune_def multi_rune_def x_def y_def)
  next
    case 4
    define x where "x = r div 262144"
    define y where "y = r div 4096 mod 64"
    have d: "r div 4096 = x * 64 + y"
      using div_mult_mod_eq [of "r div 4096" 64] by (simp add: x_def y_def div_mult2_eq [symmetric])
    have "r < 0x110000" using a by (simp add: is_rune_def)
    then have x: "x < 5" by (simp add: x_def)
    have y: "y < 64" by (simp add: y_def)
    have "x = 0 \<Longrightarrow> 16 \<le> y" "x = 4 \<Longrightarrow> y < 16"
      using 4 d \<open>r < 0x110000\<close> by auto
    then have "second4 (char_of (240 + x)) (char_of (128 + y))" "byte_in 240 244 (char_of (240 + x))"
      using x y by (auto simp: second4_def byte_in_def)
    moreover have "byte_in 128 191 (char_of (128 + r mod 64))"
        "byte_in 128 191 (char_of (128 + r div 64 mod 64))"
        "\<not> byte_in 194 223 (char_of (240 + x))" "\<not> byte_in 224 239 (char_of (240 + x))"
      using l [of r] l [of "r div 64"] x by (simp_all only: byte_in_def byte_char_of m) simp_all
    ultimately show ?thesis
      using 4 by (simp add: rune_text_def encode_rune_def multi_rune_def x_def y_def)
  qed
qed

lemma rune_text_replacement: "rune_text replacement"
  unfolding replacement_def by (rule rune_text_encode) (simp add: is_rune_def surrogate_def)

lemma rune_text_prefix: "multi_rune s = Some (r, n) \<Longrightarrow> rune_text (take n s)"
  by (erule multi_rune_cases) (auto simp: rune_text_def multi_rune_def byte_in_def)

lemma rune_text_not_Nil: "rune_text y \<Longrightarrow> y \<noteq> []"
  by (auto simp: rune_text_def multi_rune_def)

section \<open>String literals\<close>

definition hex_value :: "char \<Rightarrow> nat option" where
  "hex_value c =
     (if is_digit c then Some (digit_value c)
      else if 97 \<le> byte c \<and> byte c \<le> 102 then Some (byte c - 87)
      else if 65 \<le> byte c \<and> byte c \<le> 70 then Some (byte c - 55)
      else None)"

text \<open>\<^verbatim>\<open>getu4\<close>: a rune written as an escape with four hexadecimal digits, and what follows it.\<close>

definition getu4 :: "string \<Rightarrow> (nat \<times> string) option" where
  "getu4 s =
     (case s of
        a # b # d1 # d2 # d3 # d4 # t \<Rightarrow>
          if a = backslash \<and> b = CHR ''u'' then
            (case (hex_value d1, hex_value d2, hex_value d3, hex_value d4) of
               (Some v1, Some v2, Some v3, Some v4) \<Rightarrow>
                 Some (((v1 * 16 + v2) * 16 + v3) * 16 + v4, t)
             | _ \<Rightarrow> None)
          else None
      | _ \<Rightarrow> None)"

definition simple_escape :: "char \<Rightarrow> char option" where
  "simple_escape e =
     (if e = CHR 0x22 \<or> e = backslash \<or> e = CHR ''/'' then Some e
      else if e = CHR ''b'' then Some (CHR 0x08)
      else if e = CHR ''f'' then Some (CHR 0x0C)
      else if e = CHR ''n'' then Some (CHR 0x0A)
      else if e = CHR ''r'' then Some (CHR 0x0D)
      else if e = CHR ''t'' then Some (CHR 0x09)
      else None)"

text \<open>\<^verbatim>\<open>utf16.DecodeRune\<close>; a surrogate without its partner becomes the replacement rune.\<close>

definition pair_rune :: "nat \<Rightarrow> nat \<Rightarrow> nat" where
  "pair_rune r r' = 0x10000 + (r - 0xD800) * 1024 + (r' - 0xDC00)"

definition read_escaped_rune :: "string \<Rightarrow> (string \<times> string) option" where
  "read_escaped_rune s =
     (case getu4 s of
        None \<Rightarrow> None
      | Some (r, v) \<Rightarrow>
          if \<not> surrogate r then Some (encode_rune r, v)
          else (case getu4 v of
                  None \<Rightarrow> Some (replacement, v)
                | Some (r', v') \<Rightarrow>
                    if r < 0xDC00 \<and> 0xDC00 \<le> r' \<and> r' < 0xE000
                    then Some (encode_rune (pair_rune r r'), v')
                    else Some (replacement, v)))"

text \<open>The text of the first item of a literal, and what follows it.\<close>

definition read_char :: "string \<Rightarrow> (string \<times> string) option" where
  "read_char s =
     (case s of
        [] \<Rightarrow> None
      | c # t \<Rightarrow>
          if c = backslash then
            (case t of
               [] \<Rightarrow> None
             | e # u \<Rightarrow>
                 (case simple_escape e of Some b \<Rightarrow> Some ([b], u) | None \<Rightarrow> read_escaped_rune s))
          else if byte c < 32 \<or> c = CHR 0x22 then None
          else if byte c < 128 then Some ([c], t)
          else (case multi_rune s of
                  None \<Rightarrow> Some (replacement, t)
                | Some (r, n) \<Rightarrow> Some (take n s, drop n s)))"

lemma getu4_shorter: "getu4 s = Some (r, t) \<Longrightarrow> length t < length s"
  by (auto simp: getu4_def split: list.splits if_splits option.splits)

lemma read_escaped_rune_shorter: "read_escaped_rune s = Some (y, t) \<Longrightarrow> length t < length s"
  by (auto simp: read_escaped_rune_def split: if_splits option.splits
      dest!: getu4_shorter)

lemma read_char_shorter: "read_char s = Some (y, t) \<Longrightarrow> length t < length s"
  by (auto simp: read_char_def split: list.splits if_splits option.splits
      dest: read_escaped_rune_shorter multi_rune_width)

text \<open>\<^verbatim>\<open>unquoteBytes\<close>, on the bytes between the quotes.\<close>

function unquote :: "string \<Rightarrow> string option" where
  "unquote s =
     (if s = [] then Some []
      else (case read_char s of
              None \<Rightarrow> None
            | Some (y, t) \<Rightarrow> map_option (append y) (unquote t)))"
  by pat_completeness auto
termination
  by (relation "measure length") (auto dest: read_char_shorter)

declare unquote.simps [simp del]

lemma getu4_bound: "getu4 s = Some (r, t) \<Longrightarrow> r < 65536"
proof -
  have h: "hex_value c = Some v \<Longrightarrow> v \<le> 15" for c v
    by (auto simp: hex_value_def is_digit_def digit_value_def split: if_splits)
  have "((a * 16 + b) * 16 + c) * 16 + d < (65536::nat)" if "a \<le> 15" "b \<le> 15" "c \<le> 15" "d \<le> 15" for a b c d
    using that by simp
  then show "getu4 s = Some (r, t) \<Longrightarrow> r < 65536"
    by (auto simp: getu4_def split: list.splits if_splits option.splits dest!: h)
qed

lemma read_escaped_rune_text: "read_escaped_rune s = Some (y, t) \<Longrightarrow> rune_text y"
proof -
  have p: "is_rune (pair_rune r r')" if "r < 0xDC00" "r' < 0xE000" for r r'
    using that by (simp add: is_rune_def surrogate_def pair_rune_def)
  have u: "is_rune r" if "getu4 s = Some (r, t)" "\<not> surrogate r" for s r t
    using that getu4_bound [OF that(1)] by (simp add: is_rune_def)
  show "read_escaped_rune s = Some (y, t) \<Longrightarrow> rune_text y"
    by (auto simp: read_escaped_rune_def rune_text_replacement split: if_splits option.splits)
       (rule rune_text_encode, erule (1) u, rule rune_text_encode, erule (1) p)
qed

lemma read_char_rune: "read_char s = Some (y, t) \<Longrightarrow> rune_text y"
proof -
  have s: "rune_text [b]" if "simple_escape e = Some b" for e b
    using that by (auto simp: simple_escape_def rune_text_def backslash_def byte_def split: if_splits)
  have a: "rune_text [c]" if "byte c < 128" for c
    using that by (simp add: rune_text_def)
  show "read_char s = Some (y, t) \<Longrightarrow> rune_text y"
    by (auto simp: read_char_def rune_text_replacement split: list.splits if_splits option.splits
        intro: a s rune_text_prefix read_escaped_rune_text)
qed

lemma unquote_utf8: "unquote s = Some y \<Longrightarrow> utf8 y"
proof (induction s arbitrary: y rule: unquote.induct)
  case (1 s)
  then show ?case
    by (auto simp: unquote.simps [of s] split: if_splits option.splits
        intro: utf8.intros dest: read_char_rune)
qed

subsection \<open>What is written is read back\<close>

definition rune_body :: "string \<Rightarrow> string" where
  "rune_body y =
     (case multi_rune y of
        None \<Rightarrow> ascii_escape (hd y)
      | Some (r, _) \<Rightarrow>
          if r = 8232 then [backslash] @ ''u2028'' else if r = 8233 then [backslash] @ ''u2029'' else y)"

lemma rune_text_cases:
  assumes "rune_text y"
  obtains (ascii) c where "y = [c]" "byte c < 128" "multi_rune y = None"
  | (multi) r where "multi_rune y = Some (r, length y)" "y = encode_rune r" "\<And>c. c \<in> set y \<Longrightarrow> 128 \<le> byte c"
proof (cases "\<exists>r. multi_rune y = Some (r, length y)")
  case True
  then obtain r where r: "multi_rune y = Some (r, length y)" ..
  then have "\<forall>c\<in>set y. 128 \<le> byte c"
    by (elim multi_rune_cases) (auto simp: byte_in_def second3_def second4_def split: if_splits)
  with r multi multi_rune_text [OF r] show thesis by blast
next
  case False
  with assms obtain c where "y = [c]" "byte c < 128" by (auto simp: rune_text_def)
  then show thesis by (intro ascii) (simp_all add: multi_rune_def byte_in_def)
qed

lemma json_body_rune: "rune_text y \<Longrightarrow> json_body (y @ z) = rune_body y @ json_body z"
proof (erule rune_text_cases)
  fix c assume "y = [c]" "byte c < 128" "multi_rune y = None"
  then show ?thesis by (simp add: json_body.simps [of "c # z"] rune_body_def)
next
  fix r assume m: "multi_rune y = Some (r, length y)" and b: "\<And>c. c \<in> set y \<Longrightarrow> 128 \<le> byte c"
  obtain c cs where y: "y = c # cs" using m by (cases y) (auto simp: multi_rune_def)
  have "json_body (y @ z) =
      (if r = 8232 then [backslash] @ ''u2028'' else if r = 8233 then [backslash] @ ''u2029''
       else take (length y) (y @ z)) @ json_body (drop (length y) (y @ z))"
    using b [of c] multi_rune_append [OF m, of z]
    by (subst json_body.simps) (simp add: y)
  then show ?thesis using m by (simp add: rune_body_def)
qed

lemma hex_value_digit: "n < 16 \<Longrightarrow> hex_value (hex_digit n) = Some n"
proof -
  assume "n < 16"
  then have "n \<in> set [0..<16]" by simp
  moreover have "list_all (\<lambda>n. hex_value (hex_digit n) = Some n) [0..<16]" by code_simp
  ultimately show ?thesis by (simp only: list_all_iff)
qed

lemma read_char_ascii:
  assumes "byte c < 128"
  shows "read_char (ascii_escape c @ z) = Some ([c], z)"
proof -
  have b: "byte c = 8 \<Longrightarrow> c = CHR 0x08" "byte c = 12 \<Longrightarrow> c = CHR 0x0C" "byte c = 10 \<Longrightarrow> c = CHR 0x0A"
      "byte c = 13 \<Longrightarrow> c = CHR 0x0D" "byte c = 9 \<Longrightarrow> c = CHR 0x09"
    using byte_inject [of c] by (force simp: byte_def)+
  have z: "hex_value CHR ''0'' = Some 0" by code_simp
  have g: "getu4 (backslash # CHR ''u'' # CHR ''0'' # CHR ''0'' # hex_digit (byte c div 16) #
             hex_digit (byte c mod 16) # z) = Some (byte c, z)"
    using assms by (simp add: getu4_def z hex_value_digit)
  have e: "read_escaped_rune (backslash # CHR ''u'' # CHR ''0'' # CHR ''0'' # hex_digit (byte c div 16) #
             hex_digit (byte c mod 16) # z) = Some ([c], z)"
    using assms by (simp add: read_escaped_rune_def g surrogate_def encode_rune_def)
  have x: "simple_escape CHR ''u'' = None" "simple_escape CHR ''b'' = Some (CHR 0x08)"
      "simple_escape CHR ''f'' = Some (CHR 0x0C)" "simple_escape CHR ''n'' = Some (CHR 0x0A)"
      "simple_escape CHR ''r'' = Some (CHR 0x0D)" "simple_escape CHR ''t'' = Some (CHR 0x09)"
      "simple_escape backslash = Some backslash" "simple_escape (CHR 0x22) = Some (CHR 0x22)"
    by code_simp+
  consider "c = backslash \<or> c = CHR 0x22" | "c \<noteq> backslash" "c \<noteq> CHR 0x22" by blast
  then show ?thesis
  proof cases
    case 1
    then show ?thesis by (auto simp: ascii_escape_def read_char_def x)
  next
    case 2
    then show ?thesis
      using assms b e by (simp add: ascii_escape_def read_char_def x)
  qed
qed

lemma read_char_body: "rune_text y \<Longrightarrow> read_char (rune_body y @ z) = Some (y, z)"
proof (erule rune_text_cases)
  fix c assume "y = [c]" "byte c < 128" "multi_rune y = None"
  then show ?thesis by (simp add: rune_body_def read_char_ascii)
next
  fix r assume m: "multi_rune y = Some (r, length y)" and r: "y = encode_rune r"
    and b: "\<And>c. c \<in> set y \<Longrightarrow> 128 \<le> byte c"
  obtain c cs where y: "y = c # cs" using m by (cases y) (auto simp: multi_rune_def)
  have h: "hex_value CHR ''0'' = Some 0" "hex_value CHR ''2'' = Some 2" "hex_value CHR ''8'' = Some 8"
      "hex_value CHR ''9'' = Some 9" "simple_escape CHR ''u'' = None"
    by code_simp+
  have "c \<noteq> backslash" "c \<noteq> CHR 0x22"
    using b [of c] by (auto simp: y backslash_def byte_def)
  then have "read_char (y @ z) = Some (y, z)"
    using b [of c] multi_rune_append [OF m, of z] by (simp add: read_char_def y)
  moreover have "read_char ([backslash] @ ''u2028'' @ z) = Some (encode_rune 8232, z)"
      "read_char ([backslash] @ ''u2029'' @ z) = Some (encode_rune 8233, z)"
    by (simp_all add: read_char_def h read_escaped_rune_def getu4_def surrogate_def)
  moreover have "encode_rune 8232 = y" if "r = 8232" using r that by simp
  moreover have "encode_rune 8233 = y" if "r = 8233" using r that by simp
  ultimately show ?thesis by (simp add: rune_body_def m)
qed

lemma unquote_json_body: "utf8 s \<Longrightarrow> unquote (json_body s) = Some s"
proof (induction rule: utf8.induct)
  case utf8_Nil
  show ?case by (simp add: json_body.simps [of "[]"] unquote.simps [of "[]"])
next
  case (utf8_rune y z)
  then have r: "read_char (rune_body y @ json_body z) = Some (y, json_body z)"
    by (simp add: read_char_body)
  then have n: "rune_body y @ json_body z \<noteq> []" by (auto simp: read_char_def)
  have "unquote (rune_body y @ json_body z) = Some (y @ z)"
    using utf8_rune.IH by (subst unquote.simps) (simp only: n r if_False option.case prod.case option.map)
  then show ?case by (simp only: json_body_rune [OF utf8_rune.hyps(1)])
qed

end
