(* ===== verification/Json_Decode.thy ===== *)
theory Json_Decode
  imports Json_Strings
begin

text \<open>
  The reading half of \<^verbatim>\<open>encoding/json\<close>: the scanner as a machine over bytes, the parser as a
  stack machine over tokens with Go's limit on nesting, and \<^verbatim>\<open>Unmarshal\<close> into an empty
  interface.  What is written is read back: the lemmas are about any number format that keeps
  the contract \<open>number_format\<close>, and \<^verbatim>\<open>float64\<close> does.
\<close>

section \<open>The scanner\<close>

datatype token =
    LBrace | RBrace | LBracket | RBracket | Colon | Comma
  | TStr string | TNum string | TNull | TTrue | TFalse

datatype mode = Ground | InStr string | InEsc string | InNum string | InWord string

datatype scanner = Broken | Scanning "token list" mode

definition white_space :: "char \<Rightarrow> bool" where
  "white_space c \<longleftrightarrow> c \<in> {CHR 0x20, CHR 0x09, CHR 0x0A, CHR 0x0D}"

definition word_char :: "char \<Rightarrow> bool" where
  "word_char c \<longleftrightarrow> 97 \<le> byte c \<and> byte c \<le> 122"

definition num_token :: "string \<Rightarrow> token option" where
  "num_token s = (case read_number s of None \<Rightarrow> None | Some _ \<Rightarrow> Some (TNum s))"

definition word_token :: "string \<Rightarrow> token option" where
  "word_token s =
     (if s = ''null'' then Some TNull else if s = ''true'' then Some TTrue
      else if s = ''false'' then Some TFalse else None)"

text \<open>A byte between tokens.\<close>

definition ground :: "char \<Rightarrow> token list \<Rightarrow> scanner" where
  "ground c ts =
     (if white_space c then Scanning ts Ground
      else if c = CHR ''{'' then Scanning (ts @ [LBrace]) Ground
      else if c = CHR ''}'' then Scanning (ts @ [RBrace]) Ground
      else if c = CHR ''['' then Scanning (ts @ [LBracket]) Ground
      else if c = CHR '']'' then Scanning (ts @ [RBracket]) Ground
      else if c = CHR '':'' then Scanning (ts @ [Colon]) Ground
      else if c = CHR '','' then Scanning (ts @ [Comma]) Ground
      else if c = CHR 0x22 then Scanning ts (InStr [])
      else if number_start c then Scanning ts (InNum [c])
      else if word_char c then Scanning ts (InWord [c])
      else Broken)"

fun scan_byte :: "char \<Rightarrow> scanner \<Rightarrow> scanner" where
  "scan_byte c Broken = Broken"
| "scan_byte c (Scanning ts Ground) = ground c ts"
| "scan_byte c (Scanning ts (InStr s)) =
     (if c = CHR 0x22 then
        (case unquote s of None \<Rightarrow> Broken | Some v \<Rightarrow> Scanning (ts @ [TStr v]) Ground)
      else if c = backslash then Scanning ts (InEsc s)
      else if byte c < 32 then Broken
      else Scanning ts (InStr (s @ [c])))"
| "scan_byte c (Scanning ts (InEsc s)) = Scanning ts (InStr (s @ [backslash, c]))"
| "scan_byte c (Scanning ts (InNum s)) =
     (if number_char c then Scanning ts (InNum (s @ [c]))
      else (case num_token s of None \<Rightarrow> Broken | Some t \<Rightarrow> ground c (ts @ [t])))"
| "scan_byte c (Scanning ts (InWord s)) =
     (if word_char c then Scanning ts (InWord (s @ [c]))
      else (case word_token s of None \<Rightarrow> Broken | Some t \<Rightarrow> ground c (ts @ [t])))"

definition scan_bytes :: "string \<Rightarrow> scanner \<Rightarrow> scanner" where
  "scan_bytes s = fold scan_byte s"

text \<open>A newline after the text ends a number or a word that reaches its end.\<close>

definition tokens :: "string \<Rightarrow> token list option" where
  "tokens s =
     (case scan_bytes (s @ [CHR 0x0A]) (Scanning [] Ground) of
        Scanning ts Ground \<Rightarrow> Some ts | _ \<Rightarrow> None)"

section \<open>The parser\<close>

text \<open>
  A value as it is written: numbers are their literals, members stand in the order of the
  text, repeated keys included.  The stack holds the arrays and objects not yet closed; Go
  refuses to open more than \<open>max_depth\<close> of them.
\<close>

type_synonym raw = "string json"

datatype frame = FArr "raw list" | FObj "(string \<times> raw) list" | FKey "(string \<times> raw) list" string

datatype want = WValue | WFirst | WFirstKey | WKey | WColon | WNext

datatype parser = Bad | Want want "frame list" | Done raw

definition max_depth :: nat where
  "max_depth = 10000"

fun give :: "raw \<Rightarrow> frame list \<Rightarrow> parser" where
  "give v [] = Done v"
| "give v (FArr vs # st) = Want WNext (FArr (vs @ [v]) # st)"
| "give v (FKey kvs k # st) = Want WNext (FObj (kvs @ [(k, v)]) # st)"
| "give v (FObj kvs # st) = Bad"

definition open_frame :: "frame \<Rightarrow> want \<Rightarrow> frame list \<Rightarrow> parser" where
  "open_frame f w st = (if length st < max_depth then Want w (f # st) else Bad)"

fun close_frame :: "frame list \<Rightarrow> parser" where
  "close_frame (FArr vs # st) = give (JArr vs) st"
| "close_frame (FObj kvs # st) = give (JObj kvs) st"
| "close_frame _ = Bad"

definition value_token :: "token \<Rightarrow> frame list \<Rightarrow> parser" where
  "value_token t st =
     (case t of
        LBrace \<Rightarrow> open_frame (FObj []) WFirstKey st
      | LBracket \<Rightarrow> open_frame (FArr []) WFirst st
      | TStr s \<Rightarrow> give (JStr s) st
      | TNum l \<Rightarrow> give (JNum l) st
      | TNull \<Rightarrow> give JNull st
      | TTrue \<Rightarrow> give (JBool True) st
      | TFalse \<Rightarrow> give (JBool False) st
      | _ \<Rightarrow> Bad)"

definition key_token :: "token \<Rightarrow> frame list \<Rightarrow> parser" where
  "key_token t st =
     (case (t, st) of (TStr k, FObj kvs # st') \<Rightarrow> Want WColon (FKey kvs k # st') | _ \<Rightarrow> Bad)"

definition next_token :: "token \<Rightarrow> frame list \<Rightarrow> parser" where
  "next_token t st =
     (case (t, st) of
        (Comma, FArr _ # _) \<Rightarrow> Want WValue st
      | (Comma, FObj _ # _) \<Rightarrow> Want WKey st
      | (RBracket, FArr _ # _) \<Rightarrow> close_frame st
      | (RBrace, FObj _ # _) \<Rightarrow> close_frame st
      | _ \<Rightarrow> Bad)"

fun parse_token :: "token \<Rightarrow> parser \<Rightarrow> parser" where
  "parse_token t (Want WValue st) = value_token t st"
| "parse_token t (Want WFirst st) = (if t = RBracket then close_frame st else value_token t st)"
| "parse_token t (Want WFirstKey st) = (if t = RBrace then close_frame st else key_token t st)"
| "parse_token t (Want WKey st) = key_token t st"
| "parse_token t (Want WColon st) = (if t = Colon then Want WValue st else Bad)"
| "parse_token t (Want WNext st) = next_token t st"
| "parse_token t _ = Bad"

definition parse_tokens :: "token list \<Rightarrow> parser \<Rightarrow> parser" where
  "parse_tokens ts = fold parse_token ts"

definition parse_json :: "string \<Rightarrow> raw option" where
  "parse_json s =
     (case tokens s of
        None \<Rightarrow> None
      | Some ts \<Rightarrow> (case parse_tokens ts (Want WValue []) of Done v \<Rightarrow> Some v | _ \<Rightarrow> None))"

section \<open>Unmarshal into an interface\<close>

definition members_of :: "(string \<times> 'a) list \<Rightarrow> (string \<times> 'a) list" where
  "members_of kvs = fold (\<lambda>(k, v). put k v) kvs []"

text \<open>Numbers are converted, and of members with the same key the last one counts.\<close>

fun decode :: "(string \<Rightarrow> 'n option) \<Rightarrow> raw \<Rightarrow> 'n json option" where
  "decode rd JNull = Some JNull"
| "decode rd (JBool b) = Some (JBool b)"
| "decode rd (JNum l) = map_option JNum (rd l)"
| "decode rd (JStr s) = Some (JStr s)"
| "decode rd (JArr vs) = map_option JArr (those (map (decode rd) vs))"
| "decode rd (JObj kvs) =
     map_option (\<lambda>ms. JObj (members_of ms))
       (those (map (\<lambda>(k, v). map_option (Pair k) (decode rd v)) kvs))"

definition syntax_error :: go_error where
  "syntax_error = ErrText ''json: syntax error''"

definition type_error :: go_error where
  "type_error = ErrText ''json: cannot unmarshal''"

definition unmarshal :: "(string \<Rightarrow> 'n option) \<Rightarrow> string \<Rightarrow> go_error + 'n json" where
  "unmarshal rd s =
     (case parse_json s of
        None \<Rightarrow> Inl syntax_error
      | Some r \<Rightarrow> (case decode rd r of None \<Rightarrow> Inl type_error | Some v \<Rightarrow> Inr v))"

section \<open>Well-formed values\<close>

text \<open>No more than \<open>n\<close> arrays and objects are open at once.\<close>

fun fits :: "nat \<Rightarrow> 'n json \<Rightarrow> bool" where
  "fits n (JArr vs) \<longleftrightarrow> 0 < n \<and> (\<forall>v\<in>set vs. fits (n - 1) v)"
| "fits n (JObj kvs) \<longleftrightarrow> 0 < n \<and> (\<forall>(k, v)\<in>set kvs. fits (n - 1) v)"
| "fits n _ \<longleftrightarrow> True"

lemma fits_mono: "n \<le> k \<Longrightarrow> fits n v \<Longrightarrow> fits k v"
proof (induction n v arbitrary: k rule: fits.induct)
  case (2 n kvs)
  then show ?case by fastforce
qed auto

text \<open>Numbers satisfy \<open>ok\<close>, strings are UTF-8 and, when \<open>d\<close> asks for it, keys do not repeat.\<close>

fun sound :: "bool \<Rightarrow> ('n \<Rightarrow> bool) \<Rightarrow> 'n json \<Rightarrow> bool" where
  "sound d ok (JNum n) \<longleftrightarrow> ok n"
| "sound d ok (JStr s) \<longleftrightarrow> utf8 s"
| "sound d ok (JArr vs) \<longleftrightarrow> (\<forall>v\<in>set vs. sound d ok v)"
| "sound d ok (JObj kvs) \<longleftrightarrow>
     (d \<longrightarrow> keys_distinct kvs) \<and> (\<forall>(k, v)\<in>set kvs. utf8 k \<and> sound d ok v)"
| "sound d ok _ \<longleftrightarrow> True"

definition is_literal :: "string \<Rightarrow> bool" where
  "is_literal l \<longleftrightarrow> read_number l \<noteq> None"

abbreviation sound_raw :: "raw \<Rightarrow> bool" where
  "sound_raw \<equiv> sound False is_literal"

abbreviation sound_map :: "('n \<Rightarrow> bool) \<Rightarrow> 'n json \<Rightarrow> bool" where
  "sound_map \<equiv> sound True"

text \<open>The text of a value in the order of its members, and its tokens.\<close>

fun emit :: "raw \<Rightarrow> string" where
  "emit JNull = ''null''"
| "emit (JBool b) = (if b then ''true'' else ''false'')"
| "emit (JNum l) = l"
| "emit (JStr s) = json_string s"
| "emit (JArr vs) = ''['' @ join '','' (map emit vs) @ '']''"
| "emit (JObj kvs) = ''{'' @ join '','' (map (\<lambda>(k, v). json_string k @ '':'' @ emit v) kvs) @ ''}''"

fun glue :: "'a \<Rightarrow> 'a list list \<Rightarrow> 'a list" where
  "glue c [] = []"
| "glue c [x] = x"
| "glue c (x # y # ys) = x @ c # glue c (y # ys)"

fun toks :: "raw \<Rightarrow> token list" where
  "toks JNull = [TNull]"
| "toks (JBool b) = [if b then TTrue else TFalse]"
| "toks (JNum l) = [TNum l]"
| "toks (JStr s) = [TStr s]"
| "toks (JArr vs) = LBracket # glue Comma (map toks vs) @ [RBracket]"
| "toks (JObj kvs) = LBrace # glue Comma (map (\<lambda>(k, v). TStr k # Colon # toks v) kvs) @ [RBrace]"

section \<open>Scanning what was written\<close>

lemma scan_bytes_simps [simp]:
  "scan_bytes [] m = m"
  "scan_bytes (c # s) m = scan_bytes s (scan_byte c m)"
  "scan_bytes (s @ t) m = scan_bytes t (scan_bytes s m)"
  by (simp_all add: scan_bytes_def)

text \<open>What may follow a value: a byte that ends a number and a word.\<close>

definition ends :: "char \<Rightarrow> bool" where
  "ends c \<longleftrightarrow> \<not> number_char c \<and> \<not> word_char c"

lemma ends_simps [simp]:
  "ends CHR '',''" "ends CHR '']''" "ends CHR ''}''" "ends CHR 0x0A"
  by (code_simp)+

lemma scan_literal_bytes:
  assumes "\<forall>c\<in>set s. 32 \<le> byte c \<and> c \<noteq> CHR 0x22 \<and> c \<noteq> backslash"
  shows "scan_bytes s (Scanning ts (InStr a)) = Scanning ts (InStr (a @ s))"
  using assms by (induction s arbitrary: a) (auto simp: not_less)

lemma scan_rune_body:
  "rune_text y \<Longrightarrow> scan_bytes (rune_body y) (Scanning ts (InStr a)) = Scanning ts (InStr (a @ rune_body y))"
proof (erule rune_text_cases)
  fix c assume c: "y = [c]" "byte c < 128" "multi_rune y = None"
  have x: "\<And>n. n < 16 \<Longrightarrow> 32 \<le> byte (hex_digit n) \<and> hex_digit n \<noteq> CHR 0x22 \<and> hex_digit n \<noteq> backslash"
  proof -
    fix n :: nat assume "n < 16"
    then have "n \<in> set [0..<16]" by simp
    moreover have "list_all (\<lambda>n. 32 \<le> byte (hex_digit n) \<and> hex_digit n \<noteq> CHR 0x22 \<and> hex_digit n \<noteq> backslash) [0..<16]"
      by code_simp
    ultimately show "32 \<le> byte (hex_digit n) \<and> hex_digit n \<noteq> CHR 0x22 \<and> hex_digit n \<noteq> backslash"
      unfolding list_all_iff by blast
  qed
  have z: "32 \<le> byte CHR ''0''" "backslash \<noteq> CHR 0x22" "CHR ''0'' \<noteq> backslash" by code_simp+
  have "byte c div 16 < 16" using c(2) by simp
  then show ?thesis
    using c z x [of "byte c div 16"] x [of "byte c mod 16"]
    by (auto simp: rune_body_def ascii_escape_def not_less)
next
  fix r assume m: "multi_rune y = Some (r, length y)" and b: "\<And>c. c \<in> set y \<Longrightarrow> 128 \<le> byte c"
  have "scan_bytes y (Scanning ts (InStr a)) = Scanning ts (InStr (a @ y))"
    using b by (intro scan_literal_bytes) (force simp: backslash_def byte_def)
  moreover have "32 \<le> byte CHR ''0''" "32 \<le> byte CHR ''2''" "32 \<le> byte CHR ''8''" "32 \<le> byte CHR ''9''"
      "backslash \<noteq> CHR 0x22" "CHR ''0'' \<noteq> backslash" "CHR ''2'' \<noteq> backslash" "CHR ''8'' \<noteq> backslash"
      "CHR ''9'' \<noteq> backslash"
    by code_simp+
  ultimately show ?thesis by (simp add: rune_body_def m not_less)
qed

lemma scan_json_body:
  "utf8 s \<Longrightarrow> scan_bytes (json_body s) (Scanning ts (InStr a)) = Scanning ts (InStr (a @ json_body s))"
  by (induction arbitrary: a rule: utf8.induct)
     (simp_all add: json_body.simps [of "[]"] json_body_rune scan_rune_body)

lemma ground_quote: "ground (CHR 0x22) ts = Scanning ts (InStr [])"
  by (simp add: ground_def white_space_def)

lemma scan_json_string:
  "utf8 s \<Longrightarrow> scan_bytes (json_string s) (Scanning ts Ground) = Scanning (ts @ [TStr s]) Ground"
  by (simp add: json_string_def ground_quote scan_json_body unquote_json_body)

text \<open>The bytes that are tokens of their own, start a string or are skipped.\<close>

definition special_bytes :: string where
  "special_bytes = [CHR 0x20, CHR 0x09, CHR 0x0A, CHR 0x0D, CHR 0x22] @ ''{}[]:,''"

lemma ground_other:
  "c \<notin> set special_bytes \<Longrightarrow>
   ground c ts =
     (if number_start c then Scanning ts (InNum [c])
      else if word_char c then Scanning ts (InWord [c]) else Broken)"
  by (simp add: ground_def white_space_def special_bytes_def)

lemma special_bytes_start_nothing: "number_start c \<or> word_char c \<Longrightarrow> c \<notin> set special_bytes"
proof -
  have "list_all (\<lambda>c. \<not> number_start c \<and> \<not> word_char c) special_bytes" by code_simp
  then show "number_start c \<or> word_char c \<Longrightarrow> c \<notin> set special_bytes"
    unfolding list_all_iff by blast
qed

lemma scan_number:
  assumes "is_literal l" and "ends c"
  shows "scan_byte c (scan_bytes l (Scanning ts Ground)) = scan_byte c (Scanning (ts @ [TNum l]) Ground)"
proof -
  obtain r where r: "read_number l = Some r" using assms(1) by (auto simp: is_literal_def)
  obtain a t where l: "l = a # t" "number_start a" "list_all number_char t"
    using read_number_chars [OF r] by (auto)
  have n: "scan_bytes t (Scanning ts (InNum u)) = Scanning ts (InNum (u @ t))" for u
    using l(3) by (induction t arbitrary: u) auto
  have "ground a ts = Scanning ts (InNum [a])"
    using l(2) special_bytes_start_nothing ground_other by simp
  then show ?thesis
    using assms(2) n [of "[a]"] r by (simp add: l(1) num_token_def ends_def)
qed

lemma scan_word:
  assumes "word_token (a # w) = Some t" and "list_all word_char (a # w)" and "\<not> number_start a" and "ends c"
  shows "scan_byte c (scan_bytes (a # w) (Scanning ts Ground)) = scan_byte c (Scanning (ts @ [t]) Ground)"
proof -
  have n: "list_all word_char v \<Longrightarrow> scan_bytes v (Scanning ts (InWord u)) = Scanning ts (InWord (u @ v))" for u v
    by (induction v arbitrary: u) auto
  have "ground a ts = Scanning ts (InWord [a])"
    using assms(2,3) special_bytes_start_nothing ground_other by simp
  then show ?thesis
    using assms n [of w "[a]"] by (simp add: ends_def)
qed

lemma ground_tokens:
  "ground CHR '','' ts = Scanning (ts @ [Comma]) Ground"
  "ground CHR '':'' ts = Scanning (ts @ [Colon]) Ground"
  "ground CHR ''['' ts = Scanning (ts @ [LBracket]) Ground"
  "ground CHR '']'' ts = Scanning (ts @ [RBracket]) Ground"
  "ground CHR ''{'' ts = Scanning (ts @ [LBrace]) Ground"
  "ground CHR ''}'' ts = Scanning (ts @ [RBrace]) Ground"
  "ground (CHR 0x0A) ts = Scanning ts Ground"
  by (simp_all add: ground_def white_space_def)

text \<open>\<open>scans s u\<close>: before a byte that ends a value, the bytes \<open>s\<close> are the tokens \<open>u\<close>.\<close>

definition scans :: "string \<Rightarrow> token list \<Rightarrow> bool" where
  "scans s u \<longleftrightarrow>
     (\<forall>ts c. ends c \<longrightarrow>
        scan_byte c (scan_bytes s (Scanning ts Ground)) = scan_byte c (Scanning (ts @ u) Ground))"

lemma scans_join:
  "(\<And>x. x \<in> set xs \<Longrightarrow> scans (f x) (g x)) \<Longrightarrow> scans (join '','' (map f xs)) (glue Comma (map g xs))"
  by (induction xs rule: induct_list012) (auto simp: scans_def ground_tokens)

lemma scans_emit: "sound_raw r \<Longrightarrow> scans (emit r) (toks r)"
proof (induction r rule: emit.induct)
  case 1
  have "word_token ''null'' = Some TNull" "list_all word_char ''null''" "\<not> number_start CHR ''n''"
    by code_simp+
  then show ?case using scan_word [of "CHR ''n''" "''ull''" TNull] by (simp add: scans_def)
next
  case (2 b)
  have "word_token ''true'' = Some TTrue" "list_all word_char ''true''" "\<not> number_start CHR ''t''"
      "word_token ''false'' = Some TFalse" "list_all word_char ''false''" "\<not> number_start CHR ''f''"
    by code_simp+
  then show ?case
    using scan_word [of "CHR ''t''" "''rue''" TTrue] scan_word [of "CHR ''f''" "''alse''" TFalse]
    by (simp add: scans_def)
next
  case (3 l)
  then show ?case by (simp add: scans_def scan_number)
next
  case (4 s)
  then show ?case by (simp add: scans_def scan_json_string)
next
  case (5 vs)
  then have "scans (join '','' (map emit vs)) (glue Comma (map toks vs))"
    by (intro scans_join) auto
  then show ?case by (simp add: scans_def ground_tokens)
next
  case (6 kvs)
  have "scans (json_string k @ '':'' @ emit v) (TStr k # Colon # toks v)" if "(k, v) \<in> set kvs" for k v
    using 6 that by (fastforce simp: scans_def scan_json_string ground_tokens)
  then have "scans (join '','' (map (\<lambda>(k, v). json_string k @ '':'' @ emit v) kvs))
      (glue Comma (map (\<lambda>(k, v). TStr k # Colon # toks v) kvs))"
    by (intro scans_join) auto
  then show ?case by (simp add: scans_def ground_tokens)
qed

lemma tokens_emit: "sound_raw r \<Longrightarrow> tokens (emit r) = Some (toks r)"
  using scans_emit [of r] by (simp add: tokens_def scans_def ground_tokens)

section \<open>Parsing what was written\<close>

lemma parse_tokens_simps [simp]:
  "parse_tokens [] m = m"
  "parse_tokens (t # ts) m = parse_tokens ts (parse_token t m)"
  "parse_tokens (ts @ us) m = parse_tokens us (parse_tokens ts m)"
  by (simp_all add: parse_tokens_def)

text \<open>\<open>parses st u v\<close>: where a value is wanted, the tokens \<open>u\<close> are the value \<open>v\<close>.\<close>

definition parses :: "frame list \<Rightarrow> token list \<Rightarrow> raw \<Rightarrow> bool" where
  "parses st u v \<longleftrightarrow> (\<forall>w \<in> {WValue, WFirst}. parse_tokens u (Want w st) = give v st)"

lemma parses_elements:
  "vs \<noteq> [] \<Longrightarrow> (\<And>v us. v \<in> set vs \<Longrightarrow> parses (FArr us # st) (g v) v) \<Longrightarrow> w \<in> {WValue, WFirst} \<Longrightarrow>
   parse_tokens (glue Comma (map g vs)) (Want w (FArr us # st)) = Want WNext (FArr (us @ vs) # st)"
  by (induction vs arbitrary: us w rule: induct_list012)
     (auto simp: parses_def next_token_def)

lemma parses_members:
  "kvs \<noteq> [] \<Longrightarrow> (\<And>k v us. (k, v) \<in> set kvs \<Longrightarrow> parses (FKey us k # st) (g v) v) \<Longrightarrow>
   w \<in> {WKey, WFirstKey} \<Longrightarrow>
   parse_tokens (glue Comma (map (\<lambda>(k, v). TStr k # Colon # g v) kvs)) (Want w (FObj us # st)) =
     Want WNext (FObj (us @ kvs) # st)"
  by (induction kvs arbitrary: us w rule: induct_list012)
     (auto simp: parses_def next_token_def key_token_def)

lemma toks_not_close: "\<exists>t u. toks v = t # u \<and> t \<noteq> RBracket \<and> t \<noteq> RBrace"
  by (cases v) auto

lemma parses_toks: "fits (max_depth - length st) v \<Longrightarrow> parses st (toks v) v"
proof (induction v arbitrary: st rule: toks.induct)
  case (5 vs)
  then have o: "open_frame (FArr []) WFirst st = Want WFirst (FArr [] # st)"
    by (simp add: open_frame_def)
  have "parses (FArr us # st) (toks v) v" if "v \<in> set vs" for v us
    using 5 that by simp
  then have "parse_tokens (glue Comma (map toks vs)) (Want WFirst (FArr [] # st)) =
      (if vs = [] then Want WFirst (FArr [] # st) else Want WNext (FArr vs # st))"
    using parses_elements [of vs st toks WFirst "[]"] by simp
  then show ?case by (simp add: parses_def value_token_def o next_token_def)
next
  case (6 kvs)
  then have o: "open_frame (FObj []) WFirstKey st = Want WFirstKey (FObj [] # st)"
    by (simp add: open_frame_def)
  have "parses (FKey us k # st) (toks v) v" if "(k, v) \<in> set kvs" for k v us
    using 6 that by fastforce
  then have "parse_tokens (glue Comma (map (\<lambda>(k, v). TStr k # Colon # toks v) kvs)) (Want WFirstKey (FObj [] # st)) =
      (if kvs = [] then Want WFirstKey (FObj [] # st) else Want WNext (FObj kvs # st))"
    using parses_members [of kvs st toks WFirstKey "[]"] by simp
  then show ?case by (simp add: parses_def value_token_def o next_token_def)
qed (simp_all add: parses_def value_token_def)

lemma parse_emit: "sound_raw r \<Longrightarrow> fits max_depth r \<Longrightarrow> parse_json (emit r) = Some r"
  using parses_toks [of "[]" r] by (simp add: parse_json_def tokens_emit parses_def)

section \<open>What is parsed is well formed\<close>

fun token_ok :: "token \<Rightarrow> bool" where
  "token_ok (TStr s) \<longleftrightarrow> utf8 s"
| "token_ok (TNum l) \<longleftrightarrow> is_literal l"
| "token_ok _ \<longleftrightarrow> True"

fun scanner_ok :: "scanner \<Rightarrow> bool" where
  "scanner_ok (Scanning ts m) \<longleftrightarrow> list_all token_ok ts"
| "scanner_ok Broken \<longleftrightarrow> True"

lemma ground_ok: "list_all token_ok ts \<Longrightarrow> scanner_ok (ground c ts)"
  by (simp add: ground_def)

lemma scan_byte_ok: "scanner_ok m \<Longrightarrow> scanner_ok (scan_byte c m)"
  by (induction c m rule: scan_byte.induct)
     (auto simp: ground_ok num_token_def word_token_def unquote_utf8 is_literal_def split: option.splits if_splits)

lemma scan_bytes_ok: "scanner_ok m \<Longrightarrow> scanner_ok (scan_bytes s m)"
  by (induction s arbitrary: m) (auto simp: scan_byte_ok)

lemma tokens_ok: "tokens s = Some ts \<Longrightarrow> list_all token_ok ts"
  using scan_bytes_ok [of "Scanning [] Ground" "s @ [CHR 0x0A]"]
  by (auto simp: tokens_def split: scanner.splits mode.splits)

fun frame_ok :: "nat \<Rightarrow> frame \<Rightarrow> bool" where
  "frame_ok n (FArr vs) \<longleftrightarrow> (\<forall>v\<in>set vs. sound_raw v \<and> fits n v)"
| "frame_ok n (FObj kvs) \<longleftrightarrow> (\<forall>(k, v)\<in>set kvs. utf8 k \<and> sound_raw v \<and> fits n v)"
| "frame_ok n (FKey kvs k) \<longleftrightarrow>
     utf8 k \<and> (\<forall>(k, v)\<in>set kvs. utf8 k \<and> sound_raw v \<and> fits n v)"

fun stack_ok :: "frame list \<Rightarrow> bool" where
  "stack_ok [] \<longleftrightarrow> True"
| "stack_ok (f # st) \<longleftrightarrow>
     length st < max_depth \<and> frame_ok (max_depth - Suc (length st)) f \<and> stack_ok st"

fun parser_ok :: "parser \<Rightarrow> bool" where
  "parser_ok Bad \<longleftrightarrow> True"
| "parser_ok (Want w st) \<longleftrightarrow> stack_ok st"
| "parser_ok (Done v) \<longleftrightarrow> sound_raw v \<and> fits max_depth v"

lemma give_ok:
  "stack_ok st \<Longrightarrow> sound_raw v \<Longrightarrow> fits (max_depth - length st) v \<Longrightarrow> parser_ok (give v st)"
  by (induction v st rule: give.induct) auto

lemma close_ok: "stack_ok st \<Longrightarrow> parser_ok (close_frame st)"
  by (induction st rule: close_frame.induct) (auto intro!: give_ok)

lemma value_token_ok: "token_ok t \<Longrightarrow> stack_ok st \<Longrightarrow> parser_ok (value_token t st)"
  by (cases t) (auto simp: value_token_def open_frame_def intro!: give_ok)

lemma key_token_ok: "token_ok t \<Longrightarrow> stack_ok st \<Longrightarrow> parser_ok (key_token t st)"
  by (auto simp: key_token_def split: token.splits list.splits frame.splits)

lemma next_token_ok: "stack_ok st \<Longrightarrow> parser_ok (next_token t st)"
  by (auto simp: next_token_def simp del: close_frame.simps intro!: close_ok
      split: token.splits list.splits frame.splits)

lemma parse_token_ok: "token_ok t \<Longrightarrow> parser_ok m \<Longrightarrow> parser_ok (parse_token t m)"
  by (induction t m rule: parse_token.induct)
     (auto simp: close_ok value_token_ok key_token_ok next_token_ok)

lemma parse_tokens_ok: "list_all token_ok ts \<Longrightarrow> parser_ok m \<Longrightarrow> parser_ok (parse_tokens ts m)"
  by (induction ts arbitrary: m) (auto simp: parse_token_ok)

lemma parse_json_ok:
  assumes "parse_json s = Some r"
  shows "sound_raw r" and "fits max_depth r"
proof -
  obtain ts where "tokens s = Some ts" "parse_tokens ts (Want WValue []) = Done r"
    using assms by (auto simp: parse_json_def split: option.splits parser.splits)
  then have "parser_ok (Done r)"
    using parse_tokens_ok [of ts "Want WValue []"] tokens_ok by fastforce
  then show "sound_raw r" "fits max_depth r" by simp_all
qed

section \<open>The order of members\<close>

fun sort_json :: "'n json \<Rightarrow> 'n json" where
  "sort_json (JArr vs) = JArr (map sort_json vs)"
| "sort_json (JObj kvs) = JObj (sort_key fst (map (\<lambda>(k, v). (k, sort_json v)) kvs))"
| "sort_json v = v"

lemma insort_key_map_values:
  "insort_key fst (k, f v) (map (\<lambda>(k, v). (k, f v)) xs) = map (\<lambda>(k, v). (k, f v)) (insort_key fst (k, v) xs)"
  by (induction xs) auto

lemma sort_key_map_values:
  "sort_key fst (map (\<lambda>(k, v). (k, f v)) kvs) = map (\<lambda>(k, v). (k, f v)) (sort_key fst kvs)"
  by (induction kvs) (auto simp: insort_key_map_values)

lemma sort_key_again: "sort_key fst (sort_key fst xs) = sort_key fst xs"
  by (simp add: sorted_sort_id sort_key_id_if_sorted)

lemma sort_json_again: "sort_json (sort_json v) = sort_json v"
proof (induction v rule: sort_json.induct)
  case (2 kvs)
  have m: "map (\<lambda>(k, v). (k, sort_json v)) (map (\<lambda>(k, v). (k, sort_json v)) kvs) =
      map (\<lambda>(k, v). (k, sort_json v)) kvs"
    using 2 by auto
  show ?case
    by (simp only: sort_json.simps sort_key_map_values [symmetric] m sort_key_again)
qed auto

lemma sort_json_sound: "sound d ok v \<Longrightarrow> sound d ok (sort_json v)"
proof (induction v rule: sort_json.induct)
  case (2 kvs)
  have "map fst (map (\<lambda>(k, v). (k, sort_json v)) kvs) = map fst kvs" by auto
  then have "keys_distinct (map (\<lambda>(k, v). (k, sort_json v)) kvs) = keys_distinct kvs"
    by (simp only: keys_distinct_def)
  then have "d \<longrightarrow> keys_distinct (sort_key fst (map (\<lambda>(k, v). (k, sort_json v)) kvs))"
    using 2(2) keys_distinct_perm [of "map (\<lambda>(k, v). (k, sort_json v)) kvs"] by simp
  with 2 show ?case by fastforce
qed auto

lemma sort_json_fits: "fits n v \<Longrightarrow> fits n (sort_json v)"
  by (induction v arbitrary: n rule: sort_json.induct) fastforce+

text \<open>Writing is putting the members in order and emitting them.\<close>

lemma marshal_emit: "marshal fmt v = emit (map_json fmt (sort_json v))"
proof (induction v rule: sort_json.induct)
  case (1 vs)
  then have m: "map (marshal fmt) vs = map (\<lambda>v. emit (map_json fmt (sort_json v))) vs" by simp
  show ?case by (simp add: commas_def comp_def m del: map_eq_conv)
next
  case (2 kvs)
  let ?e = "\<lambda>v. emit (map_json fmt v)"
  have "map (\<lambda>(k, v). (k, marshal fmt v)) kvs = map (\<lambda>(k, v). (k, ?e v)) (map (\<lambda>(k, v). (k, sort_json v)) kvs)"
    using 2 by auto
  then have "members (map (\<lambda>(k, v). (k, marshal fmt v)) kvs) =
      map (\<lambda>(k, v). (k, ?e v)) (sort_key fst (map (\<lambda>(k, v). (k, sort_json v)) kvs))"
    by (simp only: members_def sort_key_map_values)
  then show ?case
    by (simp add: commas_def comp_def split_def)
qed simp_all

section \<open>Decoding what was written\<close>

lemma those_Some_iff: "those xs = Some ys \<longleftrightarrow> xs = map Some ys"
  by (induction xs arbitrary: ys) (auto split: option.splits simp: Cons_eq_map_conv)

lemma put_new: "k \<notin> fst ` set m \<Longrightarrow> put k v m = m @ [(k, v)]"
  by (induction k v m rule: put.induct) auto

lemma fold_put_distinct:
  "keys_distinct (m @ kvs) \<Longrightarrow> fold (\<lambda>(k, v). put k v) kvs m = m @ kvs"
proof (induction kvs arbitrary: m)
  case (Cons p kvs)
  obtain k v where p: "p = (k, v)" by fastforce
  have "k \<notin> fst ` set m" "keys_distinct ((m @ [(k, v)]) @ kvs)"
    using Cons.prems by (auto simp: keys_distinct_def p)
  then show ?case
    using Cons.IH [of "m @ [(k, v)]"] by (simp add: p put_new)
qed simp

lemma members_of_distinct: "keys_distinct kvs \<Longrightarrow> members_of kvs = kvs"
  using fold_put_distinct [of "[]" kvs] by (simp add: members_of_def)

lemma set_put: "set (put k v m) \<subseteq> insert (k, v) (set m)"
  by (induction k v m rule: put.induct) auto

lemma fold_put_subset: "set (fold (\<lambda>(k, v). put k v) kvs m) \<subseteq> set kvs \<union> set m"
proof (induction kvs arbitrary: m)
  case (Cons p kvs)
  obtain k v where p: "p = (k, v)" by fastforce
  show ?case using Cons [of "put k v m"] set_put [of k v m] by (auto simp: p)
qed simp

lemma set_members_of: "set (members_of kvs) \<subseteq> set kvs"
  using fold_put_subset [of kvs "[]"] by (simp add: members_of_def)

lemma keys_distinct_members_of: "keys_distinct (members_of kvs)"
proof -
  have "keys_distinct m \<Longrightarrow> keys_distinct (fold (\<lambda>(k, v). put k v) kvs m)" for m
    by (induction kvs arbitrary: m) auto
  then show ?thesis by (simp add: members_of_def)
qed

lemma those_map_SomeD: "those (map f xs) = Some ys \<Longrightarrow> y \<in> set ys \<Longrightarrow> \<exists>x\<in>set xs. f x = Some y"
  by (auto simp: those_Some_iff in_set_conv_nth list_eq_iff_nth_eq) (metis nth_mem)

lemma those_map_SomeI: "(\<And>x. x \<in> set xs \<Longrightarrow> f x = Some (g x)) \<Longrightarrow> those (map f xs) = Some (map g xs)"
  by (simp add: those_Some_iff)

lemma decode_fits: "decode rd r = Some v \<Longrightarrow> fits n r \<Longrightarrow> fits n v"
proof (induction rd r arbitrary: v n rule: decode.induct)
  case (5 rd vs)
  then show ?case by (fastforce dest: those_map_SomeD)
next
  case (6 rd kvs)
  then obtain ms where ms: "v = JObj (members_of ms)"
      "those (map (\<lambda>(k, v). map_option (Pair k) (decode rd v)) kvs) = Some ms"
    by auto
  have "fits (n - 1) v'" if "(k, v') \<in> set (members_of ms)" for k v'
    using 6 that those_map_SomeD [OF ms(2), of "(k, v')"] set_members_of [of ms] by fastforce
  with 6(3) ms(1) show ?case by auto
qed auto

section \<open>A number format\<close>

text \<open>
  What the client of the number format relies on: a number is read back from its text, only
  literals of the JSON grammar are read, and only good numbers come out.
\<close>

locale number_format =
  fixes fmt :: "'n \<Rightarrow> string" and rd :: "string \<Rightarrow> 'n option" and ok :: "'n \<Rightarrow> bool"
  assumes read_back: "ok n \<Longrightarrow> rd (fmt n) = Some n"
    and read_literal: "rd l = Some n \<Longrightarrow> is_literal l"
    and read_ok: "rd l = Some n \<Longrightarrow> ok n"
begin

lemma decode_sound: "decode rd r = Some v \<Longrightarrow> sound_raw r \<Longrightarrow> sound_map ok v"
proof (induction r arbitrary: v rule: sort_json.induct)
  case (1 vs)
  then show ?case by (fastforce dest: those_map_SomeD)
next
  case (2 kvs)
  then obtain ms where ms: "v = JObj (members_of ms)"
      "those (map (\<lambda>(k, v). map_option (Pair k) (decode rd v)) kvs) = Some ms"
    by auto
  have "utf8 k \<and> sound_map ok v'" if "(k, v') \<in> set (members_of ms)" for k v'
    using 2 that those_map_SomeD [OF ms(2), of "(k, v')"] set_members_of [of ms] by fastforce
  with ms(1) show ?case by (auto simp: keys_distinct_members_of)
qed (auto simp: read_ok)

lemma decode_map: "sound_map ok v \<Longrightarrow> decode rd (map_json fmt v) = Some v"
proof (induction v rule: sort_json.induct)
  case (1 vs)
  then have "those (map (decode rd) (map (map_json fmt) vs)) = Some vs"
    by (simp add: those_Some_iff)
  then show ?case by simp
next
  case (2 kvs)
  then have "those (map (\<lambda>(k, v). map_option (Pair k) (decode rd v)) (map (\<lambda>(k, v). (k, map_json fmt v)) kvs)) = Some kvs"
    by (fastforce simp: those_Some_iff)
  then show ?case
    using 2 by (simp add: members_of_distinct split_def map_prod_def)
qed (auto simp: read_back)

lemma literal_of_number: "ok n \<Longrightarrow> is_literal (fmt n)"
  using read_back read_literal by blast

lemma map_sound: "sound_map ok v \<Longrightarrow> sound_raw (map_json fmt v)"
proof (induction v rule: sort_json.induct)
  case (2 kvs)
  then show ?case by fastforce
qed (simp_all add: literal_of_number)

lemma map_fits: "fits n (map_json fmt v) \<longleftrightarrow> fits n v"
proof (induction v arbitrary: n rule: sort_json.induct)
  case (2 kvs)
  then show ?case by fastforce
qed auto

text \<open>The round trip, up to the order of members, which a Go map does not have.\<close>

lemma unmarshal_marshal:
  assumes "sound_map ok v" and "fits max_depth v"
  shows "unmarshal rd (marshal fmt v) = Inr (sort_json v)"
proof -
  let ?r = "map_json fmt (sort_json v)"
  have s: "sound_map ok (sort_json v)" "fits max_depth (sort_json v)"
    using assms sort_json_sound sort_json_fits by blast+
  then have "parse_json (emit ?r) = Some ?r"
    by (simp add: parse_emit map_sound map_fits)
  then show ?thesis
    using s(1) by (simp add: unmarshal_def marshal_emit decode_map)
qed

lemma unmarshal_good:
  assumes "unmarshal rd s = Inr v"
  shows "sound_map ok v" and "fits max_depth v"
proof -
  obtain r where r: "parse_json s = Some r" "decode rd r = Some v"
    using assms by (auto simp: unmarshal_def split: option.splits)
  with parse_json_ok [OF r(1)] show "sound_map ok v" "fits max_depth v"
    by (simp_all add: decode_sound decode_fits)
qed

lemma marshal_unmarshal_marshal:
  "unmarshal rd s = Inr v \<Longrightarrow> unmarshal rd (marshal fmt v) = Inr (sort_json v)"
  using unmarshal_good unmarshal_marshal by blast

lemma marshal_eq_iff:
  assumes "unmarshal rd s = Inr v" and "unmarshal rd t = Inr w"
  shows "marshal fmt v = marshal fmt w \<longleftrightarrow> sort_json v = sort_json w"
proof
  assume "marshal fmt v = marshal fmt w"
  then have "Inr (sort_json v) = (Inr (sort_json w) :: go_error + 'n json)"
    using marshal_unmarshal_marshal [OF assms(1)] marshal_unmarshal_marshal [OF assms(2)] by argo
  then show "sort_json v = sort_json w" by simp
next
  assume "sort_json v = sort_json w"
  then show "marshal fmt v = marshal fmt w" by (simp only: marshal_emit)
qed

end

lemma marshal_sort_json: "marshal fmt (sort_json v) = marshal fmt v"
  by (simp add: marshal_emit sort_json_again)

section \<open>Numbers of encoding/json\<close>

interpretation json64: number_format format_float parse_float is_float
proof
  show "parse_float (format_float x) = Some x" if "is_float x" for x
    using that by (rule parse_format_float)
  show "is_literal l" if "parse_float l = Some x" for l x
    using that by (auto simp: parse_float_def is_literal_def split: option.splits)
  show "is_float x" if "parse_float l = Some x" for l x
    using that by (rule parse_float_is_float)
qed

end
