(* ===== verification/Json_Struct.thy ===== *)
theory Json_Struct
  imports Json_Decode
begin

text \<open>
  \<^verbatim>\<open>json.Unmarshal\<close> into Go structs.  A target is its present value and a function from the
  value written: \<open>null\<close> leaves strings, numbers and structs as they are, a type that does not
  match is an error of the whole call, members are taken in the order of the text.
\<close>

section \<open>Names of fields\<close>

text \<open>
  A key names a field when both fold to the same text.  All field names here are ASCII, and
  beside the two cases of a letter only the long s and the Kelvin sign fold to one of them.
\<close>

fun fold_name :: "string \<Rightarrow> string" where
  "fold_name [] = []"
| "fold_name (c # s) =
     (if 65 \<le> byte c \<and> byte c \<le> 90 then char_of (byte c + 32) # fold_name s
      else (case s of
              d # t \<Rightarrow>
                if c = CHR 0xC5 \<and> d = CHR 0xBF then CHR ''s'' # fold_name t
                else if c = CHR 0xE2 \<and> d = CHR 0x84 \<and> take 1 t = [CHR 0xAA] then CHR ''k'' # fold_name (tl t)
                else c # fold_name s
            | [] \<Rightarrow> [c]))"

declare fold_name.simps [simp del]

text \<open>A field: its name and how a value is stored through it.\<close>

type_synonym 'a field = "string \<times> (raw \<Rightarrow> 'a \<Rightarrow> 'a option)"

definition store_member :: "'a field list \<Rightarrow> string \<times> raw \<Rightarrow> 'a \<Rightarrow> 'a option" where
  "store_member flds kv x =
     (case find (\<lambda>(name, _). fold_name name = fold_name (fst kv)) flds of
        None \<Rightarrow> Some x
      | Some (_, store) \<Rightarrow> store (snd kv) x)"

fun store_members :: "'a field list \<Rightarrow> (string \<times> raw) list \<Rightarrow> 'a \<Rightarrow> 'a option" where
  "store_members flds [] x = Some x"
| "store_members flds (kv # kvs) x =
     (case store_member flds kv x of None \<Rightarrow> None | Some y \<Rightarrow> store_members flds kvs y)"

definition into_struct :: "'a field list \<Rightarrow> raw \<Rightarrow> 'a \<Rightarrow> 'a option" where
  "into_struct flds r x =
     (case r of JNull \<Rightarrow> Some x | JObj kvs \<Rightarrow> store_members flds kvs x | _ \<Rightarrow> None)"

section \<open>Other targets\<close>

definition into_string :: "raw \<Rightarrow> string \<Rightarrow> string option" where
  "into_string r x = (case r of JNull \<Rightarrow> Some x | JStr s \<Rightarrow> Some s | _ \<Rightarrow> None)"

text \<open>An \<^verbatim>\<open>int\<close> takes a literal without fraction and exponent that fits into 64 bits.\<close>

definition into_int :: "raw \<Rightarrow> int \<Rightarrow> int option" where
  "into_int r x =
     (case r of
        JNull \<Rightarrow> Some x
      | JNum l \<Rightarrow>
          (let (neg, ds) = split_sign l; n = (if neg then - int (nat_of ds) else int (nat_of ds)) in
           if ds \<noteq> [] \<and> list_all is_digit ds \<and> - (2 ^ 63) \<le> n \<and> n < 2 ^ 63 then Some n else None)
      | _ \<Rightarrow> None)"

text \<open>A map keeps the entries it has; \<open>null\<close> makes it nil (\<open>None\<close>).\<close>

fun store_entries :: "(raw \<Rightarrow> 'v option) \<Rightarrow> (string \<times> raw) list \<Rightarrow> (string \<times> 'v) list \<Rightarrow> (string \<times> 'v) list option" where
  "store_entries elem [] m = Some m"
| "store_entries elem ((k, r) # kvs) m =
     (case elem r of None \<Rightarrow> None | Some v \<Rightarrow> store_entries elem kvs (put k v m))"

definition into_map ::
  "(raw \<Rightarrow> 'v option) \<Rightarrow> raw \<Rightarrow> (string \<times> 'v) list option \<Rightarrow> (string \<times> 'v) list option option"
where
  "into_map elem r m =
     (case r of
        JNull \<Rightarrow> Some None
      | JObj kvs \<Rightarrow> map_option Some (store_entries elem kvs (case m of None \<Rightarrow> [] | Some m \<Rightarrow> m))
      | _ \<Rightarrow> None)"

text \<open>
  A slice: its elements and those left over in its array from a longer earlier value, which a
  later array is decoded into element by element.
\<close>

type_synonym 'a slice = "'a list \<times> 'a list"

definition into_slice :: "(raw \<Rightarrow> 'a \<Rightarrow> 'a option) \<Rightarrow> 'a \<Rightarrow> raw \<Rightarrow> 'a slice \<Rightarrow> 'a slice option" where
  "into_slice elem zero r sl =
     (case r of
        JNull \<Rightarrow> Some ([], [])
      | JArr vs \<Rightarrow>
          if vs = [] then Some ([], [])
          else (let old = fst sl @ snd sl in
                map_option (\<lambda>xs. (xs, drop (length vs) old))
                  (those (map (\<lambda>(v, x). elem v x) (zip vs (old @ replicate (length vs) zero)))))
      | _ \<Rightarrow> None)"

definition unmarshal_into :: "(raw \<Rightarrow> 'a \<Rightarrow> 'a option) \<Rightarrow> 'a \<Rightarrow> string \<Rightarrow> go_error + 'a" where
  "unmarshal_into store zero s =
     (case parse_json s of
        None \<Rightarrow> Inl syntax_error
      | Some r \<Rightarrow> (case store r zero of None \<Rightarrow> Inl type_error | Some x \<Rightarrow> Inr x))"

section \<open>Reading what was written\<close>

lemma unmarshal_into_emit:
  "sound_raw r \<Longrightarrow> fits max_depth r \<Longrightarrow>
   unmarshal_into store zero (emit r) =
     (case store r zero of None \<Rightarrow> Inl type_error | Some x \<Rightarrow> Inr x)"
  by (simp add: unmarshal_into_def parse_emit)

text \<open>Members that name no field change nothing.\<close>

definition names_none :: "'a field list \<Rightarrow> (string \<times> raw) list \<Rightarrow> bool" where
  "names_none flds kvs \<longleftrightarrow> (\<forall>kv\<in>set kvs. \<forall>f\<in>set flds. fold_name (fst f) \<noteq> fold_name (fst kv))"

lemma store_members_none: "names_none flds kvs \<Longrightarrow> store_members flds (kvs @ rest) x = store_members flds rest x"
proof (induction kvs)
  case (Cons p kvs)
  have "find (\<lambda>(name, _). fold_name name = fold_name (fst p)) flds = None"
    using Cons.prems by (auto simp: find_None_iff names_none_def)
  then show ?case
    using Cons by (simp add: store_member_def names_none_def)
qed simp

definition well_written :: "nat \<Rightarrow> (string \<times> raw) list \<Rightarrow> bool" where
  "well_written n kvs \<longleftrightarrow> (\<forall>(k, v)\<in>set kvs. utf8 k \<and> sound_raw v \<and> fits n v)"

lemma store_entries_new:
  "\<forall>x \<in> snd ` set kvs. elem (w x) = Some x \<Longrightarrow> keys_distinct (m @ kvs) \<Longrightarrow>
   store_entries elem (map (\<lambda>(k, x). (k, w x)) kvs) m = Some (m @ kvs)"
proof (induction kvs arbitrary: m)
  case (Cons p kvs)
  obtain k x where p: "p = (k, x)" by fastforce
  have e: "elem (w x) = Some x" using Cons.prems(1) by (simp add: p)
  have "k \<notin> fst ` set m" "keys_distinct ((m @ [(k, x)]) @ kvs)"
    using Cons.prems(2) by (auto simp: keys_distinct_def p)
  then show ?case
    using Cons.IH [of "m @ [(k, x)]"] Cons.prems(1) by (simp add: p e put_new)
qed simp

lemma into_slice_new:
  "\<forall>p\<in>set ps. elem (w p) zero = Some (f p) \<Longrightarrow>
   into_slice elem zero (JArr (map w ps)) ([], []) = Some (map f ps, [])"
proof -
  assume "\<forall>p\<in>set ps. elem (w p) zero = Some (f p)"
  then have "map (\<lambda>(v, x). elem v x) (zip (map w ps) (replicate (length ps) zero)) = map (\<lambda>p. Some (f p)) ps"
    by (simp add: zip_replicate2)
  then show ?thesis by (simp add: into_slice_def those_Some_iff)
qed

end
