(* ===== verification/Docker_Ping.thy ===== *)
theory Docker_Ping
  imports Outside
begin

text \<open>
  \<^verbatim>\<open>internal/dockerx/ping.go\<close>: find the Docker socket, probe it, and classify what went wrong.
\<close>

section \<open>Where the socket is\<close>

definition defaultDockerSocket :: string where
  "defaultDockerSocket = ''/var/run/docker.sock''"

definition candidate_sockets :: "string \<Rightarrow> string list" where
  "candidate_sockets home =
     [path_join [home, ''.colima'', ''default'', ''docker.sock''],
      path_join [home, ''.rd'', ''docker.sock''],
      defaultDockerSocket]"

definition dockerSocket :: "('t, 'x, 'm) world_scheme \<Rightarrow> string" where
  "dockerSocket w =
     (let host = getenv w ''DOCKER_HOST'' in
      if host \<noteq> [] then
        (if length host > 7 \<and> take 7 host = ''unix://'' then drop 7 host else host)
      else if w_goos w = ''linux'' then defaultDockerSocket
      else (case find (\<lambda>c. case os_stat (w_fs w) c of Inr _ \<Rightarrow> True | Inl _ \<Rightarrow> False)
                   (candidate_sockets (getenv w ''HOME'')) of
              Some c \<Rightarrow> c
            | None \<Rightarrow> defaultDockerSocket))"

section \<open>Classifying errors\<close>

text \<open>
  An error of the network package: \<^verbatim>\<open>*net.OpError\<close> (its inner error may be an
  \<^verbatim>\<open>*os.SyscallError\<close>), possibly inside a \<^verbatim>\<open>*url.Error\<close>.  \<^verbatim>\<open>os.IsNotExist\<close> and
  \<^verbatim>\<open>os.IsPermission\<close> look through a syscall error but not through the others.
\<close>

datatype dial_error =
    Errno go_error | SyscallError dial_error | OpError dial_error | UrlError dial_error

fun underlying :: "dial_error \<Rightarrow> dial_error" where
  "underlying (SyscallError e) = e"
| "underlying e = e"

definition os_IsNotExist :: "dial_error \<Rightarrow> bool" where
  "os_IsNotExist e \<longleftrightarrow> underlying e = Errno ErrNotExist"

definition os_IsPermission :: "dial_error \<Rightarrow> bool" where
  "os_IsPermission e \<longleftrightarrow> underlying e = Errno ErrPermission"

text \<open>\<^verbatim>\<open>errors.As(err, &opErr)\<close>: the first \<^verbatim>\<open>*net.OpError\<close> of the chain; its field \<^verbatim>\<open>Err\<close>.\<close>

fun as_op_error :: "dial_error \<Rightarrow> dial_error option" where
  "as_op_error (OpError e) = Some e"
| "as_op_error (UrlError e) = as_op_error e"
| "as_op_error (SyscallError e) = as_op_error e"
| "as_op_error (Errno _) = None"

definition isSocketNotFound :: "dial_error \<Rightarrow> bool" where
  "isSocketNotFound err = (case as_op_error err of Some e \<Rightarrow> os_IsNotExist e | None \<Rightarrow> False)"

definition isPermissionDenied :: "dial_error \<Rightarrow> bool" where
  "isPermissionDenied err = (case as_op_error err of Some e \<Rightarrow> os_IsPermission e | None \<Rightarrow> False)"

text \<open>The three messages, each around the sentinel; the text before the hints is what matters.\<close>

definition classifyError :: "dial_error \<Rightarrow> string \<Rightarrow> go_error" where
  "classifyError err socketPath =
     (if os_IsNotExist err \<or> isSocketNotFound err
      then ErrWrap (''socket not found at '' @ socketPath) ErrDockerUnavailable
      else if os_IsPermission err \<or> isPermissionDenied err
      then ErrWrap (''permission denied on '' @ socketPath) ErrDockerUnavailable
      else ErrWrap ''verify Docker is running'' ErrDockerUnavailable)"

section \<open>The probe\<close>

record ping_api =
  p_dial :: "bool \<Rightarrow> string \<Rightarrow> call list \<Rightarrow> dial_error option"
  p_close :: "call list \<Rightarrow> go_error option"
  p_get :: "bool \<Rightarrow> string \<Rightarrow> call list \<Rightarrow> dial_error + int"

text \<open>
  \<^verbatim>\<open>Ping\<close>: connect, close the connection, then send \<^verbatim>\<open>GET /_ping\<close> over the socket.  Building
  the request cannot fail, since its URL is a constant.
\<close>

definition Ping :: "'z ping_api_scheme \<Rightarrow> ctx \<Rightarrow> (('t, 'm) cworld, go_error option) act" where
  "Ping d ctx w =
     (let socketPath = dockerSocket w; over = ctx_done w ctx in
      bnd (ask (DockerDial over socketPath) (p_dial d over socketPath)) (\<lambda>dialed.
        case dialed of
          Some err \<Rightarrow> ret (Some (classifyError err socketPath))
        | None \<Rightarrow>
            bnd (ask DockerClose (p_close d)) (\<lambda>closed.
              case closed of
                Some err \<Rightarrow> ret (Some (ErrWrap ''close docker socket probe'' err))
              | None \<Rightarrow>
                  bnd (ask (DockerGet over socketPath) (p_get d over socketPath)) (\<lambda>resp.
                    case resp of
                      Inl err \<Rightarrow> ret (Some (classifyError err socketPath))
                    | Inr status \<Rightarrow>
                        if status \<noteq> 200
                        then ret (Some (ErrWrap (''/_ping returned '' @ itoa status) ErrDockerUnavailable))
                        else ret None))) w)"

lemma classifyError_is: "errors_is (classifyError err p) ErrDockerUnavailable"
  by (simp add: classifyError_def)

text \<open>
  \<^verbatim>\<open>Ping\<close> reports success exactly when the socket accepts a connection, closing it works
  and \<^verbatim>\<open>/_ping\<close> answers 200; a refused connection, a failed request and any other status are
  errors for which \<^verbatim>\<open>errors.Is(err, ErrDockerUnavailable)\<close> holds.
\<close>

theorem ping_outcomes:
  "let p = dockerSocket w; b = ctx_done w ctx; t = w_trace w;
       dialed = p_dial d b p t; closed = p_close d (t @ [DockerDial b p]);
       got = p_get d b p (t @ [DockerDial b p, DockerClose])
   in \<exists>res. fst (Ping d ctx w) = Ret res \<and>
      (res = None \<longleftrightarrow> dialed = None \<and> closed = None \<and> got = Inr 200) \<and>
      (dialed \<noteq> None \<or> closed = None \<longrightarrow>
         res = None \<or> (\<exists>e. res = Some e \<and> errors_is e ErrDockerUnavailable))"
  by (auto simp: Ping_def Let_def act_simps classifyError_is
      split: option.splits sum.splits)

definition up_api :: ping_api where
  "up_api = \<lparr>p_dial = (\<lambda>_ _ _. None), p_close = (\<lambda>_. None), p_get = (\<lambda>_ _ _. Inr 503)\<rparr>"

definition quiet_fs :: fsys where
  "quiet_fs = \<lparr>nodes = [], cwd = [], umask = 18, fault = (\<lambda>_ _. None)\<rparr>"

definition demo_world :: "'t \<Rightarrow> ('t, call) world" where
  "demo_world t =
     \<lparr>w_tb = t, w_env = (\<lambda>_. None), w_goos = ''linux'', w_fs = quiet_fs,
      w_rand = [''1'', ''2''], w_cancelled = [], w_trace = []\<rparr>"

theorem ping_outcomes_witness:
  "\<exists>e. fst (Ping up_api Background (demo_world ())) = Ret (Some e) \<and> errors_is e ErrDockerUnavailable"
  using ping_outcomes [of "demo_world ()" Background up_api]
  by (auto simp: Let_def up_api_def)

text \<open>
  \<^verbatim>\<open>DOCKER_HOST\<close> is always read as a Unix socket: a \<^verbatim>\<open>tcp://\<close> host is dialled as a file
  of that name, so the probe of a remote daemon asks the wrong endpoint.
\<close>

theorem docker_host_is_always_a_socket_path:
  assumes "w_env w ''DOCKER_HOST'' = Some host" and "host \<noteq> []"
    and "\<not> has_prefix host ''unix://''"
  shows "w_trace (snd (Ping d ctx w)) ! length (w_trace w) = DockerDial (ctx_done w ctx) host"
proof -
  have "dockerSocket w = host"
    using assms by (auto simp: dockerSocket_def getenv_def Let_def has_prefix_def eval_nat_numeral)
  then show ?thesis
    by (auto simp: Ping_def Let_def act_simps nth_append split: option.splits sum.splits)
qed

theorem docker_host_is_always_a_socket_path_witness:
  "w_trace (snd (Ping up_api Background
      ((demo_world ())\<lparr>w_env := (\<lambda>_. Some ''tcp://10.0.0.1:2375'')\<rparr>))) ! 0 =
   DockerDial False ''tcp://10.0.0.1:2375''"
  using docker_host_is_always_a_socket_path
    [of "(demo_world ())\<lparr>w_env := (\<lambda>_. Some ''tcp://10.0.0.1:2375'')\<rparr>" "''tcp://10.0.0.1:2375''" up_api Background]
  by (simp add: demo_world_def)

end
