(* ===== verification/Localstack.thy ===== *)
theory Localstack
  imports Docker_Ping
begin

text \<open>
  Package \<^verbatim>\<open>localstack\<close> without the health endpoint (theory \<^verbatim>\<open>Health\<close>): editions, the choice
  of the image, the container's environment, init hooks, and starting and stopping a
  container.  \<^verbatim>\<open>testcontainers.Run\<close> is the argument \<open>d_run\<close>; like the Go function it may
  return a container together with an error.
\<close>

section \<open>Editions\<close>

datatype Edition = EditionAuto | EditionCommunity | EditionPro | OtherEdition int

definition editionProLabel :: string where
  "editionProLabel = ''pro''"

fun Edition_String :: "Edition \<Rightarrow> string" where
  "Edition_String EditionCommunity = ''community''"
| "Edition_String EditionPro = editionProLabel"
| "Edition_String EditionAuto = ''auto''"
| "Edition_String (OtherEdition n) = ''unknown''"

definition DetectEdition :: "('t, 'x, 'm) world_scheme \<Rightarrow> Edition \<Rightarrow> Edition" where
  "DetectEdition w e =
     (if e \<noteq> EditionAuto then e
      else if getenv w ''LOCALSTACK_AUTH_TOKEN'' \<noteq> [] then EditionPro
      else EditionCommunity)"

section \<open>Configuration\<close>

record init_hook =
  ih_name :: string
  ih_script :: string

record ls_config =
  lc_edition :: Edition
  lc_image :: string
  lc_services :: "string list"
  lc_auth_token :: string
  lc_init_hooks :: "init_hook list"

definition defaultCommunityImage :: string where
  "defaultCommunityImage = ''localstack/localstack:4.14''"

definition defaultImage :: string where
  "defaultImage = ''localstack/localstack:2026.07.4''"

definition edgePort :: string where
  "edgePort = ''4566/tcp''"

definition hasAuthToken :: "('t, 'x, 'm) world_scheme \<Rightarrow> ls_config \<Rightarrow> bool" where
  "hasAuthToken w c \<longleftrightarrow> lc_auth_token c \<noteq> [] \<or> getenv w ''LOCALSTACK_AUTH_TOKEN'' \<noteq> []"

definition ResolveImage :: "('t, 'x, 'm) world_scheme \<Rightarrow> ls_config \<Rightarrow> string" where
  "ResolveImage w c =
     (if lc_image c \<noteq> [] then lc_image c
      else if getenv w ''LIBTFTEST_LOCALSTACK_IMAGE'' \<noteq> [] then getenv w ''LIBTFTEST_LOCALSTACK_IMAGE''
      else if hasAuthToken w c then defaultImage
      else defaultCommunityImage)"

definition Env :: "('t, 'x, 'm) world_scheme \<Rightarrow> ls_config \<Rightarrow> (string \<times> string) list" where
  "Env w c =
     (let env0 = [(''DEBUG'', ''1'')];
          env1 = (if lc_auth_token c \<noteq> [] then put ''LOCALSTACK_AUTH_TOKEN'' (lc_auth_token c) env0
                  else if getenv w ''LOCALSTACK_AUTH_TOKEN'' \<noteq> []
                  then put ''LOCALSTACK_AUTH_TOKEN'' (getenv w ''LOCALSTACK_AUTH_TOKEN'') env0
                  else env0)
      in if lc_services c \<noteq> [] then put ''SERVICES'' (join '','' (lc_services c)) env1 else env1)"

section \<open>Init hooks\<close>

fun write_hooks :: "string \<Rightarrow> init_hook list \<Rightarrow> fsys \<Rightarrow> (go_error + string) \<times> fsys" where
  "write_hooks dir [] s = (Inr dir, s)"
| "write_hooks dir (h # hs) s =
     (case os_write_file (path_join [dir, ih_name h]) (ih_script h) 493 s of
        (Inl err, s') \<Rightarrow> (Inl (ErrWrap (''write init hook '' @ ih_name h) err), s')
      | (Inr _, s') \<Rightarrow> write_hooks dir hs s')"

definition WriteInitHooks :: "init_hook list \<Rightarrow> (('t, 'x, 'm) world_scheme, go_error + string) act" where
  "WriteInitHooks hooks w =
     (case mkdir_temp (temp_root w) ''libtftest-init-hooks-'' (w_rand w) (w_fs w) of
        (Inl err, rs, s) \<Rightarrow> (Ret (Inl (ErrWrap ''create init hooks dir'' err)), w\<lparr>w_rand := rs, w_fs := s\<rparr>)
      | (Inr dir, rs, s) \<Rightarrow>
          (case write_hooks dir hooks s of
             (r, s') \<Rightarrow> (Ret r, w\<lparr>w_rand := rs, w_fs := s'\<rparr>)))"

section \<open>Containers\<close>

record container =
  ct_id :: string
  ct_edge_url :: string
  ct_edition :: Edition
  ct_services :: "(string \<times> string) list"
  ct_ctr :: "string option"

record docker_api = ping_api +
  d_run :: "bool \<Rightarrow> string \<Rightarrow> container_spec \<Rightarrow> call list \<Rightarrow> string option \<times> go_error option"
  d_endpoint :: "bool \<Rightarrow> string \<Rightarrow> string \<Rightarrow> call list \<Rightarrow> go_error + string"
  d_terminate :: "string \<Rightarrow> call list \<Rightarrow> go_error option"

definition terminate :: "'z docker_api_scheme \<Rightarrow> string \<Rightarrow> (('t, 'm) cworld, go_error option) act" where
  "terminate d ctr = ask (TerminateContainer ctr) (d_terminate d ctr)"

text \<open>The customizers of \<^verbatim>\<open>Start\<close>, with the bind mount of the hook directory when there is one.\<close>

definition start_spec :: "('t, 'x, 'm) world_scheme \<Rightarrow> ls_config \<Rightarrow> string list \<Rightarrow> container_spec" where
  "start_spec w cfg binds =
     \<lparr>cs_port = edgePort, cs_env = Env w cfg, cs_health_path = ''/_localstack/health'',
      cs_timeout_seconds = 90, cs_binds = binds\<rparr>"

definition hook_binds :: "ls_config \<Rightarrow> (('t, 'x, 'm) world_scheme, go_error + string list) act" where
  "hook_binds cfg =
     (if lc_init_hooks cfg = [] then ret (Inr [])
      else bnd (WriteInitHooks (lc_init_hooks cfg)) (\<lambda>r.
             case r of
               Inl err \<Rightarrow> ret (Inl (ErrWrap ''write init hooks'' err))
             | Inr hookDir \<Rightarrow> ret (Inr [hookDir @ '':/etc/localstack/init/ready.d:ro''])))"

definition run_container ::
  "'z docker_api_scheme \<Rightarrow> bool \<Rightarrow> string \<Rightarrow> container_spec \<Rightarrow> Edition \<Rightarrow>
   (('t, 'm) cworld, go_error + container) act"
where
  "run_container d over img spec edition =
     bnd (ask (RunContainer over img spec) (d_run d over img spec)) (\<lambda>(ctr, err).
       case (err, ctr) of
         (Some e, _) \<Rightarrow> ret (Inl (ErrWrap ''start localstack container'' e))
       | (None, None) \<Rightarrow> panic ''nil container''
       | (None, Some c) \<Rightarrow>
           bnd (ask (PortEndpoint over c edgePort) (d_endpoint d over c edgePort)) (\<lambda>ep.
             case ep of
               Inl e \<Rightarrow>
                 bnd (terminate d c) (\<lambda>_. ret (Inl (ErrWrap ''get container endpoint'' e)))
             | Inr endpoint \<Rightarrow>
                 ret (Inr \<lparr>ct_id = c, ct_edge_url = endpoint, ct_edition = edition,
                           ct_services = [], ct_ctr = Some c\<rparr>)))"

definition Start :: "'z docker_api_scheme \<Rightarrow> ctx \<Rightarrow> ls_config \<Rightarrow> (('t, 'm) cworld, go_error + container) act" where
  "Start d ctx cfg =
     bnd (Ping d ctx) (\<lambda>pinged.
       case pinged of
         Some err \<Rightarrow> ret (Inl (ErrWrap ''docker pre-check'' err))
       | None \<Rightarrow> (\<lambda>w.
           let edition = DetectEdition w (lc_edition cfg); img = ResolveImage w cfg in
           bnd (hook_binds cfg) (\<lambda>binds.
             case binds of
               Inl err \<Rightarrow> ret (Inl err)
             | Inr bs \<Rightarrow> (\<lambda>w'.
                 run_container d (ctx_done w' ctx) img (start_spec w cfg bs) edition w')) w))"

definition Stop :: "'z docker_api_scheme \<Rightarrow> container \<Rightarrow> (('t, 'm) cworld, go_error option) act" where
  "Stop d c =
     (case ct_ctr c of None \<Rightarrow> ret None | Some ctr \<Rightarrow> terminate d ctr)"

definition Endpoint :: "container \<Rightarrow> string" where
  "Endpoint c = ct_edge_url c"

section \<open>Properties\<close>

lemma map_of_Env_token:
  "map_of (Env w c) ''LOCALSTACK_AUTH_TOKEN'' =
     (if lc_auth_token c \<noteq> [] then Some (lc_auth_token c)
      else if getenv w ''LOCALSTACK_AUTH_TOKEN'' \<noteq> [] then Some (getenv w ''LOCALSTACK_AUTH_TOKEN'')
      else None)"
  by (simp add: Env_def Let_def)

text \<open>
  The image and the environment of a container agree: the default image that needs a
  token is chosen only when the container's environment carries a token, and the token-free
  image only when it carries none; an image given in the configuration or in
  \<^verbatim>\<open>LIBTFTEST_LOCALSTACK_IMAGE\<close> wins over both, in this order.
\<close>

theorem image_agrees_with_token:
  "ResolveImage w c =
     (if lc_image c \<noteq> [] then lc_image c
      else if getenv w ''LIBTFTEST_LOCALSTACK_IMAGE'' \<noteq> [] then getenv w ''LIBTFTEST_LOCALSTACK_IMAGE''
      else if map_of (Env w c) ''LOCALSTACK_AUTH_TOKEN'' \<noteq> None then defaultImage
      else defaultCommunityImage)"
  by (auto simp: ResolveImage_def hasAuthToken_def map_of_Env_token)

subsection \<open>Which containers are running\<close>

text \<open>
  The ledger of a trace: the containers that \<^verbatim>\<open>testcontainers.Run\<close> handed out in it (its
  answers depend on the calls before, \<open>before\<close>), less those that were terminated.
\<close>

fun handed_out :: "'z docker_api_scheme \<Rightarrow> call list \<Rightarrow> call list \<Rightarrow> string list" where
  "handed_out d before [] = []"
| "handed_out d before (c # cs) =
     (case c of
        RunContainer over img spec \<Rightarrow>
          (case fst (d_run d over img spec before) of None \<Rightarrow> [] | Some h \<Rightarrow> [h])
      | _ \<Rightarrow> []) @ handed_out d (before @ [c]) cs"

definition terminated :: "call list \<Rightarrow> string set" where
  "terminated cs = {h. TerminateContainer h \<in> set cs}"

definition running :: "'z docker_api_scheme \<Rightarrow> call list \<Rightarrow> call list \<Rightarrow> string list" where
  "running d before cs = filter (\<lambda>h. h \<notin> terminated cs) (handed_out d before cs)"

text \<open>Calls that neither start nor stop a container.\<close>

fun neutral :: "call \<Rightarrow> bool" where
  "neutral (RunContainer _ _ _) = False"
| "neutral (TerminateContainer _) = False"
| "neutral _ = True"

lemma handed_out_append:
  "handed_out d before (cs @ ds) = handed_out d before cs @ handed_out d (before @ cs) ds"
  by (induction cs arbitrary: before) simp_all

lemma handed_out_neutral: "list_all neutral cs \<Longrightarrow> handed_out d before cs = []"
proof (induction cs arbitrary: before)
  case (Cons c cs)
  then show ?case by (cases c) auto
qed simp

lemma terminated_neutral: "list_all neutral cs \<Longrightarrow> terminated cs = {}"
  by (auto simp: terminated_def list_all_iff)

lemma terminated_append: "terminated (cs @ ds) = terminated cs \<union> terminated ds"
  by (auto simp: terminated_def)

lemma running_neutral_prefix:
  "list_all neutral cs \<Longrightarrow> running d before (cs @ ds) = running d (before @ cs) ds"
  by (simp add: running_def handed_out_append handed_out_neutral terminated_append terminated_neutral)

text \<open>\<^verbatim>\<open>Start\<close> talks to Docker and to nothing else.\<close>

fun docker_call :: "call \<Rightarrow> bool" where
  "docker_call (DockerDial _ _) = True"
| "docker_call DockerClose = True"
| "docker_call (DockerGet _ _) = True"
| "docker_call (RunContainer _ _ _) = True"
| "docker_call (PortEndpoint _ _ _) = True"
| "docker_call (TerminateContainer _) = True"
| "docker_call _ = False"

lemma Ping_neutral: "only_calls (\<lambda>c. neutral c \<and> docker_call c) (Ping d ctx)"
  by (rule only_callsI)
     (auto simp: Ping_def Let_def act_simps split: option.splits sum.splits)

lemma Ping_returns: "\<exists>r. fst (Ping d ctx w) = Ret r"
  by (auto simp: Ping_def Let_def act_simps split: option.splits sum.splits)

lemma WriteInitHooks_silent [only_calls_intros]: "only_calls P (WriteInitHooks hs)"
  by (rule only_calls_silent) (auto simp: WriteInitHooks_def split: prod.splits sum.splits)

lemma hook_binds_neutral [only_calls_intros]: "only_calls P (hook_binds cfg)"
  by (auto simp: hook_binds_def intro!: only_calls_intros split: sum.splits)

lemma hook_binds_trace: "hook_binds cfg w = (oc, w') \<Longrightarrow> w_trace w' = w_trace w"
  by (auto simp: hook_binds_def WriteInitHooks_def act_simps split: prod.splits sum.splits if_splits)

lemma hook_binds_returns: "\<exists>r. fst (hook_binds cfg w) = Ret r"
  by (auto simp: hook_binds_def WriteInitHooks_def act_simps split: prod.splits sum.splits)

text \<open>A run of \<^verbatim>\<open>Start\<close>: neutral calls, then nothing (an early error) or \<^verbatim>\<open>run_container\<close>.\<close>

lemma Start_shape:
  obtains (early) t e where "fst (Start d ctx cfg w) = Ret (Inl e)"
      "w_trace (snd (Start d ctx cfg w)) = w_trace w @ t" "list_all neutral t" "list_all docker_call t"
  | (started) t w' over img spec ed where "w_trace w' = w_trace w @ t" "list_all neutral t" "list_all docker_call t"
      "Start d ctx cfg w = run_container d over img spec ed w'"
proof -
  obtain p w1 where ping: "Ping d ctx w = (Ret p, w1)"
    using Ping_returns [of d ctx w] by (cases "Ping d ctx w") auto
  obtain t where t: "w_trace w1 = w_trace w @ t" "list_all neutral t" "list_all docker_call t"
    using only_callsE [OF Ping_neutral [of d ctx], of w] ping by (auto simp: list_all_iff)
  show thesis
  proof (cases p)
    case (Some err)
    with ping t show thesis
      by (intro early [of "ErrWrap ''docker pre-check'' err" t]) (auto simp: Start_def act_simps calls_of_def)
  next
    case None
    obtain r w2 where h: "hook_binds cfg w1 = (Ret r, w2)"
      using hook_binds_returns [of cfg w1] by (cases "hook_binds cfg w1") auto
    have tr: "w_trace w2 = w_trace w @ t"
      using hook_binds_trace [OF h] t(1) by simp
    show thesis
    proof (cases r)
      case (Inl err)
      with None ping h tr t show thesis
        by (intro early [of err t]) (auto simp: Start_def act_simps Let_def)
    next
      case (Inr bs)
      with None ping h have "Start d ctx cfg w =
          run_container d (ctx_done w2 ctx) (ResolveImage w1 cfg) (start_spec w1 cfg bs)
            (DetectEdition w1 (lc_edition cfg)) w2"
        by (auto simp: Start_def act_simps Let_def)
      with tr t show thesis by (intro started)
    qed
  qed
qed

lemma run_container_calls: "only_calls docker_call (run_container d over img spec ed)"
  unfolding run_container_def terminate_def
  by (intro only_calls_intros, simp, clarsimp split: option.splits)
     (intro conjI impI allI only_calls_intros, auto intro!: only_calls_intros split: sum.splits)

lemma run_container_ledger:
  assumes "\<And>over img spec t. snd (d_run d over img spec t) \<noteq> None \<Longrightarrow> fst (d_run d over img spec t) = None"
  shows "case fst (run_container d over img spec ed w) of
      Ret (Inr c) \<Rightarrow> ct_ctr c = Some (ct_id c) \<and>
        running d (w_trace w) (calls_of (run_container d over img spec ed) w) = [ct_id c]
    | _ \<Rightarrow> running d (w_trace w) (calls_of (run_container d over img spec ed) w) = []"
  using assms [of over img spec "w_trace w"]
  by (auto simp: run_container_def act_simps calls_of_def running_def terminated_def terminate_def
      split: option.splits prod.splits sum.splits)

lemma Start_docker [only_calls_intros]: "only_calls docker_call (Start d ctx cfg)"
proof (rule only_callsI)
  fix w
  show "\<exists>t. w_trace (snd (Start d ctx cfg w)) = w_trace w @ t \<and> list_all docker_call t"
  proof (cases rule: Start_shape [of d ctx cfg w])
    case (early t e)
    then show ?thesis by blast
  next
    case (started t w' over img spec ed)
    obtain t' where "w_trace (snd (run_container d over img spec ed w')) = w_trace w' @ t'" "list_all docker_call t'"
      using only_callsE [OF run_container_calls [of d over img spec ed], of w'] by metis
    with started show ?thesis by (intro exI [of _ "t @ t'"]) simp
  qed
qed

lemma Start_io: "io_frame w (snd (Start d ctx cfg w))"
proof -
  have p: "io_frame v (snd (Ping d ctx v))" for v
    unfolding Ping_def Let_def by (auto intro!: io_intros split: option.split sum.split)
  have "io_frame v (snd (WriteInitHooks hs v))" for hs and v :: "('t, 'x, 'm) world_scheme"
    unfolding WriteInitHooks_def by (auto split: prod.split sum.split intro: io_intros)
  then have h: "io_frame v (snd (hook_binds cfg v))" for v
    unfolding hook_binds_def by (auto intro!: io_intros split: sum.split)
  have r: "io_frame v (snd (run_container d over img spec ed v))" for over img spec ed v
    unfolding run_container_def terminate_def
    by (auto intro!: io_intros split: option.split sum.split)
  show ?thesis
    unfolding Start_def Let_def
    by (rule io_bnd [OF p]) (auto intro!: io_intros h r split: option.split sum.split)
qed

lemma Start_ledger:
  assumes "\<And>over img spec t. snd (d_run d over img spec t) \<noteq> None \<Longrightarrow> fst (d_run d over img spec t) = None"
  shows "case fst (Start d ctx cfg w) of
      Ret (Inr c) \<Rightarrow> ct_ctr c = Some (ct_id c) \<and>
        running d (w_trace w) (calls_of (Start d ctx cfg) w) = [ct_id c]
    | _ \<Rightarrow> running d (w_trace w) (calls_of (Start d ctx cfg) w) = []"
proof (cases rule: Start_shape [of d ctx cfg w])
  case (early t e)
  then have "calls_of (Start d ctx cfg) w = t" by (simp add: calls_of_def)
  then show ?thesis
    using early running_neutral_prefix [of t d "w_trace w" "[]"] by (simp add: running_def)
next
  case (started t w' over img spec ed)
  let ?run = "run_container d over img spec ed"
  obtain t' where t': "w_trace (snd (?run w')) = w_trace w' @ t'" "calls_of ?run w' = t'"
    using only_callsE [OF run_container_calls] by metis
  have "calls_of (Start d ctx cfg) w = t @ t'"
    using started t' by (simp add: calls_of_def)
  then have "running d (w_trace w) (calls_of (Start d ctx cfg) w) =
             running d (w_trace w') (calls_of ?run w')"
    using started t' by (simp add: running_neutral_prefix)
  then show ?thesis
    using run_container_ledger [OF assms, where over = over and img = img and spec = spec and ed = ed and w = w'] started(4)
    by (simp split: outcome.splits sum.splits)
qed


definition demo_docker :: "string option \<times> go_error option \<Rightarrow> go_error + string \<Rightarrow> docker_api" where
  "demo_docker res ep =
     \<lparr>p_dial = (\<lambda>_ _ _. None), p_close = (\<lambda>_. None), p_get = (\<lambda>_ _ _. Inr 200),
      d_run = (\<lambda>_ _ _ _. res), d_endpoint = (\<lambda>_ _ _ _. ep), d_terminate = (\<lambda>_ _. None)\<rparr>"

definition demo_cfg :: ls_config where
  "demo_cfg = \<lparr>lc_edition = EditionAuto, lc_image = [], lc_services = [], lc_auth_token = [],
               lc_init_hooks = []\<rparr>"

lemmas demo_docker_simps = demo_docker_def demo_cfg_def demo_world_def Start_def Ping_def
  hook_binds_def run_container_def terminate_def act_simps Let_def


text \<open>
  Without that, a container leaks: when \<^verbatim>\<open>testcontainers.Run\<close> hands out a container and an
  error (a container that started but was not healthy in time), \<^verbatim>\<open>Start\<close> returns the error
  and the container keeps running, with no handle left to stop it.
\<close>

theorem start_timeout_leaks_the_container:
  "\<exists>e. fst (Start (demo_docker (Some h, Some err) ep) Background demo_cfg (demo_world ())) = Ret (Inl e) \<and>
     running (demo_docker (Some h, Some err) ep) []
       (calls_of (Start (demo_docker (Some h, Some err) ep) Background demo_cfg) (demo_world ())) = [h]"
  by (simp add: demo_docker_simps calls_of_def running_def terminated_def)

end
