(* ===== verification/Health.thy ===== *)
theory Health
  imports Json_Struct Localstack
begin

text \<open>
  \<^verbatim>\<open>localstack/health.go\<close>: the wait strategy of the container asks the health endpoint and
  takes the body as the sign that every service is up; the edition is read from it as well.
\<close>

section \<open>The response\<close>

record HealthResponse =
  h_edition :: string
  h_version :: string
  h_services :: "(string \<times> string) list option"

definition zero_health :: HealthResponse where
  "zero_health = \<lparr>h_edition = [], h_version = [], h_services = None\<rparr>"

definition health_fields :: "HealthResponse field list" where
  "health_fields =
     [(''edition'', \<lambda>r h. map_option (\<lambda>s. h\<lparr>h_edition := s\<rparr>) (into_string r (h_edition h))),
      (''version'', \<lambda>r h. map_option (\<lambda>s. h\<lparr>h_version := s\<rparr>) (into_string r (h_version h))),
      (''services'', \<lambda>r h. map_option (\<lambda>m. h\<lparr>h_services := m\<rparr>)
                        (into_map (\<lambda>v. into_string v []) r (h_services h)))]"

definition health_json :: "string \<Rightarrow> go_error + HealthResponse" where
  "health_json = unmarshal_into (into_struct health_fields) zero_health"

definition ParseHealth :: "string \<Rightarrow> go_error + HealthResponse" where
  "ParseHealth body =
     (case health_json body of
        Inl err \<Rightarrow> Inl (ErrWrap ''parse health response'' err)
      | Inr hr \<Rightarrow> Inr hr)"

definition services_of :: "HealthResponse \<Rightarrow> (string \<times> string) list" where
  "services_of hr = (case h_services hr of None \<Rightarrow> [] | Some m \<Rightarrow> m)"

text \<open>The argument is what \<^verbatim>\<open>io.ReadAll\<close> gives for the body.\<close>

fun statuses_ready :: "string list \<Rightarrow> bool" where
  "statuses_ready [] = True"
| "statuses_ready (status # rest) =
     (if status = ''initializing'' \<or> status = ''error'' then False else statuses_ready rest)"

definition AllServicesReady :: "go_error + string \<Rightarrow> bool" where
  "AllServicesReady body =
     (case body of
        Inl _ \<Rightarrow> False
      | Inr data \<Rightarrow>
          (case health_json data of
             Inl _ \<Rightarrow> False
           | Inr hr \<Rightarrow> statuses_ready (map snd (services_of hr))))"

definition DetectEditionFromHealth :: "string \<Rightarrow> Edition" where
  "DetectEditionFromHealth body =
     (case ParseHealth body of
        Inl _ \<Rightarrow> EditionCommunity
      | Inr hr \<Rightarrow> if h_edition hr = editionProLabel then EditionPro else EditionCommunity)"

section \<open>Properties\<close>

lemma statuses_ready_iff: "statuses_ready ss \<longleftrightarrow> ''initializing'' \<notin> set ss \<and> ''error'' \<notin> set ss"
  by (induction ss) auto

text \<open>What the health endpoint answers: an object with these members, in some order, among others.\<close>

definition health_body :: "(string \<times> raw) list \<Rightarrow> string \<Rightarrow> string \<Rightarrow> (string \<times> string) list \<Rightarrow> (string \<times> raw) list \<Rightarrow> string" where
  "health_body before edition version svcs after =
     emit (JObj (before @
       [(''services'', JObj (map (\<lambda>(k, st). (k, JStr st)) svcs)),
        (''edition'', JStr edition), (''version'', JStr version)] @ after))"

definition unrelated :: "(string \<times> raw) list \<Rightarrow> bool" where
  "unrelated kvs \<longleftrightarrow> names_none health_fields kvs \<and> well_written (max_depth - 1) kvs"

lemma field_names:
  "fold_name ''edition'' = ''edition''" "fold_name ''version'' = ''version''"
  "fold_name ''services'' = ''services''"
  by code_simp+

lemma health_json_body:
  assumes "unrelated before" "unrelated after" "utf8 edition" "utf8 version" "keys_distinct svcs"
    and "\<And>k st. (k, st) \<in> set svcs \<Longrightarrow> utf8 k \<and> utf8 st"
  shows "health_json (health_body before edition version svcs after) =
           Inr \<lparr>h_edition = edition, h_version = version, h_services = Some svcs\<rparr>"
proof -
  let ?s = "map (\<lambda>(k, st). (k, JStr st)) svcs"
  let ?own = "[(''services'', JObj ?s), (''edition'', JStr edition), (''version'', JStr version)]"
  let ?v = "JObj (before @ ?own @ after)"
  have u: "utf8 ''services''" "utf8 ''edition''" "utf8 ''version''"
    by (auto intro!: utf8_ascii simp: byte_def)
  have "sound_raw ?v" "fits max_depth ?v"
    using assms u by (force simp: unrelated_def well_written_def max_depth_def)+
  then have e: "health_json (health_body before edition version svcs after) =
      (case store_members health_fields (before @ ?own @ after) zero_health of
         None \<Rightarrow> Inl type_error | Some x \<Rightarrow> Inr x)"
    by (simp add: health_json_def health_body_def unmarshal_into_emit into_struct_def del: emit.simps)
  have "store_entries (\<lambda>v. into_string v []) ?s [] = Some svcs"
    using store_entries_new [of svcs "\<lambda>v. into_string v []" JStr "[]"] assms(5)
    by (simp add: into_string_def)
  moreover have "store_members health_fields after h = Some h" for h
    using assms(2) store_members_none [of health_fields after "[]" h] by (simp add: unrelated_def)
  moreover have "store_members health_fields (before @ rest) h = store_members health_fields rest h" for rest h
    using assms(1) by (simp add: unrelated_def store_members_none)
  ultimately show ?thesis
    by (simp add: e)
       (simp add: store_member_def health_fields_def field_names into_map_def into_string_def zero_health_def)
qed

text \<open>
  C30.  The health check reads what the endpoint writes: whatever other members the body has,
  and in whatever order the services come, it says that all services are ready exactly when
  none of them is initializing or in error, and the edition is Pro exactly when the body says
  so.
\<close>

theorem health_of_body:
  assumes "unrelated before" "unrelated after" "utf8 edition" "utf8 version" "keys_distinct svcs"
    and "\<And>k st. (k, st) \<in> set svcs \<Longrightarrow> utf8 k \<and> utf8 st"
  shows "(AllServicesReady (Inr (health_body before edition version svcs after)) \<longleftrightarrow>
            ''initializing'' \<notin> snd ` set svcs \<and> ''error'' \<notin> snd ` set svcs) \<and>
         DetectEditionFromHealth (health_body before edition version svcs after) =
           (if edition = ''pro'' then EditionPro else EditionCommunity)"
  using health_json_body [OF assms]
  by (simp_all add: AllServicesReady_def DetectEditionFromHealth_def ParseHealth_def services_of_def
      statuses_ready_iff editionProLabel_def)

lemma ascii_texts: "utf8 ''pro''" "utf8 ''4.0''" "utf8 ''s3''" "utf8 ''iam''" "utf8 ''running''" "utf8 ''initializing''"
  by (auto intro!: utf8_ascii simp: byte_def)

theorem health_of_body_witness:
  "\<not> AllServicesReady (Inr (health_body [(''features'', JNull)] ''pro'' ''4.0''
       [(''s3'', ''running''), (''iam'', ''initializing'')] [])) \<and>
   DetectEditionFromHealth (health_body [] ''pro'' ''4.0'' [(''s3'', ''running'')] []) = EditionPro"
proof -
  have "fold_name ''features'' = ''features''" by code_simp
  then have u: "unrelated [(''features'', JNull)]"
    by (auto simp: unrelated_def names_none_def well_written_def health_fields_def field_names byte_def
        intro!: utf8_ascii)
  have n: "unrelated []" by (simp add: unrelated_def names_none_def well_written_def)
  have d: "keys_distinct [(''s3'', ''running''), (''iam'', ''initializing'')]" by (simp add: keys_distinct_def)
  have t: "utf8 k \<and> utf8 st" if "(k, st) \<in> set [(''s3'', ''running''), (''iam'', ''initializing'')]" for k st
    using that ascii_texts by auto
  have t': "utf8 k \<and> utf8 st" if "(k, st) \<in> set [(''s3'', ''running'')]" for k st
    using that ascii_texts by auto
  show ?thesis
    using health_of_body [OF u n ascii_texts(1,2) d t]
      health_of_body [OF n n ascii_texts(1,2) keys_distinct_single t']
    by simp
qed

end
