(* ===== verification/Harness.thy ===== *)
theory Harness
  imports Localstack Fake_TB
begin

text \<open>
  Package \<^verbatim>\<open>harness\<close>: one LocalStack container and its sidecars for all tests of a package.
  The package variables are an extension of the world; \<^verbatim>\<open>m.Run()\<close>, the tests themselves, is an
  action given as an argument.  Each method that takes a mutex holds it to its end, so it is
  one step.  Sidecars are values of an interface: the calls \<open>SidecarStart i\<close> and
  \<open>SidecarStop i\<close> with the answers of \<open>sidecar_api\<close>, for the sidecar with the number \<open>i\<close>.
\<close>

section \<open>State\<close>

record 't hworld = "('t, call) world" +
  h_shared :: "container option"
  h_edge :: string
  h_seen :: "string list"

type_synonym ('t, 'm) hw = "('t, 'm) hworld_scheme"

record h_config =
  hc_edition :: Edition
  hc_image :: string
  hc_services :: "string list"
  hc_sidecars :: "nat list"

record sidecar_api =
  s_start :: "nat \<Rightarrow> bool \<Rightarrow> string \<Rightarrow> call list \<Rightarrow> go_error + string"
  s_stop :: "nat \<Rightarrow> bool \<Rightarrow> call list \<Rightarrow> go_error option"

lemma ctx_done_hframe [simp]:
  "ctx_done (w\<lparr>h_shared := x\<rparr>) c = ctx_done w c"
  "ctx_done (w\<lparr>h_edge := e\<rparr>) c = ctx_done w c"
  "ctx_done (w\<lparr>h_seen := ps\<rparr>) c = ctx_done w c"
  by (simp_all add: ctx_done_def split: ctx.splits)

definition Current :: "('t, 'm) hw \<Rightarrow> container option" where
  "Current w = h_shared w"

definition EdgeURL :: "('t, 'm) hw \<Rightarrow> string" where
  "EdgeURL w = h_edge w"

section \<open>Run\<close>

text \<open>
  The context of the startup, \<^verbatim>\<open>context.WithTimeout(context.Background(), 3*time.Minute)\<close>.
  \<^verbatim>\<open>Run\<close> is the only one to cancel it; that the three minutes may run out is a matter of the
  answers, which are arbitrary.
\<close>

definition startup_ctx :: ctx where
  "startup_ctx = CallerCtx 0"

definition ls_cfg_of :: "h_config \<Rightarrow> ls_config" where
  "ls_cfg_of cfg =
     \<lparr>lc_edition = hc_edition cfg, lc_image = hc_image cfg, lc_services = hc_services cfg,
      lc_auth_token = [], lc_init_hooks = []\<rparr>"

fun stop_sidecars :: "sidecar_api \<Rightarrow> bool \<Rightarrow> nat list \<Rightarrow> (('t, 'm) cworld, unit) act" where
  "stop_sidecars s over [] = skip"
| "stop_sidecars s over (i # is) =
     bnd (ask (SidecarStop i over) (s_stop s i over)) (\<lambda>_. stop_sidecars s over is)"

definition stopAll :: "'z docker_api_scheme \<Rightarrow> sidecar_api \<Rightarrow> ctx \<Rightarrow> nat list \<Rightarrow> container \<Rightarrow> (('t, 'm) cworld, unit) act" where
  "stopAll d s ctx sidecars ctr w =
     andthen (stop_sidecars s (ctx_done w ctx) (rev sidecars)) (bnd (Stop d ctr) (\<lambda>_. skip)) w"

text \<open>
  The loop over the sidecars.  \<open>Inl\<close>: one failed to start, with those that were started before
  it; \<open>Inr\<close>: all were started.
\<close>

fun start_sidecars ::
  "sidecar_api \<Rightarrow> container \<Rightarrow> nat list \<Rightarrow> nat list \<Rightarrow> (('t, 'm) hw, nat list + nat list) act"
where
  "start_sidecars s ctr active [] = ret (Inr active)"
| "start_sidecars s ctr active (i # is) = (\<lambda>w.
     (let over = ctx_done w startup_ctx; u = ct_edge_url ctr in
      bnd (ask (SidecarStart i over u) (s_start s i over u)) (\<lambda>r.
        case r of
          Inl err \<Rightarrow> ret (Inl active)
        | Inr url \<Rightarrow>
            andthen (modify (\<lambda>w. w\<lparr>h_edge := url\<rparr>)) (start_sidecars s ctr (active @ [i]) is)) w))"

definition Run ::
  "'z docker_api_scheme \<Rightarrow> sidecar_api \<Rightarrow> (('t, 'm) hw, int) act \<Rightarrow> h_config \<Rightarrow> (('t, 'm) hw, unit) act"
where
  "Run d s m cfg =
     bnd (Start d startup_ctx (ls_cfg_of cfg)) (\<lambda>started.
       case started of
         Inl err \<Rightarrow> andthen (modify (cancel startup_ctx)) (os_exit 1)
       | Inr ctr \<Rightarrow>
           andthen (modify (\<lambda>w. w\<lparr>h_shared := Some ctr, h_edge := ct_edge_url ctr\<rparr>))
           (bnd (start_sidecars s ctr [] (hc_sidecars cfg)) (\<lambda>r.
             case r of
               Inl active \<Rightarrow>
                 andthen (modify (cancel startup_ctx))
                   (andthen (stopAll d s Background active ctr) (os_exit 1))
             | Inr active \<Rightarrow>
                 andthen (modify (cancel startup_ctx))
                   (bnd m (\<lambda>code.
                      andthen (stopAll d s startup_ctx active ctr)
                        (andthen (modify (\<lambda>w. w\<lparr>h_shared := None, h_edge := []\<rparr>)) (os_exit code)))))))"

section \<open>Prefixes\<close>

definition PrefixWarning ::
  "(('t, 'm) hw, 'c) tb_iface \<Rightarrow> string \<Rightarrow> (('t, 'm) hw, unit) act"
where
  "PrefixWarning I prefix w =
     (if prefix \<in> set (h_seen w)
      then m_errorf I ''duplicate prefix %q detected'' [AStr prefix] w
      else (Ret (), w\<lparr>h_seen := prefix # h_seen w\<rparr>))"

definition ResetPrefixes :: "('t, 'm) hw \<Rightarrow> ('t, 'm) hw" where
  "ResetPrefixes w = w\<lparr>h_seen := []\<rparr>"

definition FormatContainerInfo :: "('t, 'm) hw \<Rightarrow> string outcome" where
  "FormatContainerInfo w =
     (case Current w of
        None \<Rightarrow> Ret ''no shared container''
      | Some ctr \<Rightarrow>
          if length (ct_id ctr) < 12 then Panicked ''slice bounds out of range''
          else Ret (''container='' @ take 12 (ct_id ctr) @ '' url='' @ ct_edge_url ctr @
                    '' edition='' @ Edition_String (ct_edition ctr)))"

section \<open>How the parts run\<close>

lemma stop_sidecars_run:
  "stop_sidecars s over is w = (Ret (), w\<lparr>w_trace := w_trace w @ map (\<lambda>i. SidecarStop i over) is\<rparr>)"
  by (induction "is" arbitrary: w) (simp_all add: act_simps)

lemma stopAll_run:
  "ct_ctr ctr = Some h \<Longrightarrow>
   stopAll d s ctx act ctr w =
     (Ret (), w\<lparr>w_trace := w_trace w @ map (\<lambda>i. SidecarStop i (ctx_done w ctx)) (rev act) @
                              [TerminateContainer h]\<rparr>)"
  by (simp add: stopAll_def stop_sidecars_run Stop_def terminate_def act_simps)

text \<open>The sidecars that a trace shows to have been started.\<close>

fun sidecars_up :: "sidecar_api \<Rightarrow> call list \<Rightarrow> call list \<Rightarrow> nat list" where
  "sidecars_up s before [] = []"
| "sidecars_up s before (c # cs) =
     (case c of
        SidecarStart i over u \<Rightarrow> (case s_start s i over u before of Inl _ \<Rightarrow> [] | Inr _ \<Rightarrow> [i])
      | _ \<Rightarrow> []) @ sidecars_up s (before @ [c]) cs"

fun no_sidecar_call :: "call \<Rightarrow> bool" where
  "no_sidecar_call (SidecarStart _ _ _) = False"
| "no_sidecar_call (SidecarStop _ _) = False"
| "no_sidecar_call _ = True"

fun sidecar_start_call :: "call \<Rightarrow> bool" where
  "sidecar_start_call (SidecarStart _ _ _) = True"
| "sidecar_start_call _ = False"

lemma sidecars_up_append:
  "sidecars_up s before (cs @ ds) = sidecars_up s before cs @ sidecars_up s (before @ cs) ds"
  by (induction cs arbitrary: before) simp_all

lemma sidecars_up_none: "list_all no_sidecar_call cs \<Longrightarrow> sidecars_up s before cs = []"
  by (induction cs arbitrary: before) (auto split: call.splits)

lemma running_neutral_suffix: "list_all neutral ds \<Longrightarrow> running d before (cs @ ds) = running d before cs"
  by (simp add: running_def handed_out_append handed_out_neutral terminated_append terminated_neutral)

lemma docker_call_no_sidecar: "docker_call c \<Longrightarrow> no_sidecar_call c"
  by (cases c) simp_all

lemma sidecar_start_neutral: "sidecar_start_call c \<Longrightarrow> neutral c"
  by (cases c) simp_all

lemma start_sidecars_run:
  "\<exists>r cs e. start_sidecars s ctr active is w = (Ret r, w\<lparr>w_trace := w_trace w @ cs, h_edge := e\<rparr>) \<and>
     list_all sidecar_start_call cs \<and>
     (r = Inl (active @ sidecars_up s (w_trace w) cs) \<or>
      r = Inr (active @ sidecars_up s (w_trace w) cs))"
proof (induction "is" arbitrary: active w)
  case Nil
  show ?case by (rule exI [of _ "Inr active"], rule exI [of _ "[]"], rule exI [of _ "h_edge w"]) (simp add: act_simps)
next
  case (Cons i "is")
  let ?c = "SidecarStart i (ctx_done w startup_ctx) (ct_edge_url ctr)"
  show ?case
  proof (cases "s_start s i (ctx_done w startup_ctx) (ct_edge_url ctr) (w_trace w)")
    case (Inl err)
    then show ?thesis
      by (intro exI [of _ "Inl active"] exI [of _ "[?c]"] exI [of _ "h_edge w"])
         (simp add: act_simps Let_def)
  next
    case (Inr url)
    let ?w = "w\<lparr>w_trace := w_trace w @ [?c], h_edge := url\<rparr>"
    obtain r cs e where
      "start_sidecars s ctr (active @ [i]) is ?w = (Ret r, ?w\<lparr>w_trace := w_trace ?w @ cs, h_edge := e\<rparr>)"
      "list_all sidecar_start_call cs"
      "r = Inl ((active @ [i]) @ sidecars_up s (w_trace ?w) cs) \<or>
       r = Inr ((active @ [i]) @ sidecars_up s (w_trace ?w) cs)"
      using Cons.IH [of "active @ [i]" ?w] by blast
    with Inr show ?thesis
      by (intro exI [of _ r] exI [of _ "?c # cs"] exI [of _ e]) (auto simp: act_simps Let_def)
  qed
qed

section \<open>Properties\<close>

text \<open>What is left of \<^verbatim>\<open>Run\<close> once the sidecars run and the tests are to start.\<close>

definition after_startup ::
  "'z docker_api_scheme \<Rightarrow> sidecar_api \<Rightarrow> (('t, 'm) hw, int) act \<Rightarrow> nat list \<Rightarrow> container \<Rightarrow> (('t, 'm) hw, unit) act"
where
  "after_startup d s m active ctr =
     bnd m (\<lambda>code.
       andthen (stopAll d s startup_ctx active ctr)
         (andthen (modify (\<lambda>w. w\<lparr>h_shared := None, h_edge := []\<rparr>)) (os_exit code)))"

definition container_up :: "container \<Rightarrow> ('t, 'm) hw \<Rightarrow> ('t, 'm) hw" where
  "container_up c w = w\<lparr>h_shared := Some c, h_edge := ct_edge_url c\<rparr>"

lemma Run_started:
  assumes "Start d startup_ctx (ls_cfg_of cfg) w = (Ret (Inr c), w1)"
    and "start_sidecars s c [] (hc_sidecars cfg) (container_up c w1) = (Ret r, w2)"
  shows "Run d s m cfg w =
    (case r of
       Inl active \<Rightarrow> andthen (stopAll d s Background active c) (os_exit 1) (cancel startup_ctx w2)
     | Inr active \<Rightarrow> after_startup d s m active c (cancel startup_ctx w2))"
  using assms
  by (auto simp: Run_def after_startup_def container_up_def act_simps split: sum.splits)

text \<open>The part of \<^verbatim>\<open>Run\<close> after the container has come up.\<close>

lemma run_with_container:
  assumes only: "only_calls (\<lambda>c. neutral c \<and> no_sidecar_call c) m" and codes: "\<And>w. \<exists>code. fst (m w) = Ret code"
    and start: "Start d startup_ctx (ls_cfg_of cfg) w = (Ret (Inr c), w1)" and c: "ct_ctr c = Some (ct_id c)"
    and t1: "w_trace w1 = w_trace w @ t1"
  shows "\<exists>b code t2 t3. fst (Run d s m cfg w) = Exited code \<and>
     calls_of (Run d s m cfg) w = (t1 @ t2 @ t3) @
       map (\<lambda>i. SidecarStop i b) (rev (sidecars_up s (w_trace w @ t1) t2)) @ [TerminateContainer (ct_id c)] \<and>
     list_all neutral t2 \<and> list_all (\<lambda>c. \<forall>i b. c \<noteq> SidecarStop i b) t2 \<and>
     list_all neutral t3 \<and> list_all no_sidecar_call t3"
proof -
  let ?w = "container_up c w1"
  obtain r t2 e where r: "start_sidecars s c [] (hc_sidecars cfg) ?w =
      (Ret r, ?w\<lparr>w_trace := w_trace ?w @ t2, h_edge := e\<rparr>)"
    and t2: "list_all sidecar_start_call t2"
    and ups: "r = Inl (sidecars_up s (w_trace ?w) t2) \<or> r = Inr (sidecars_up s (w_trace ?w) t2)"
    using start_sidecars_run [of s c "[]" "hc_sidecars cfg" ?w] by auto
  let ?w2 = "cancel startup_ctx (?w\<lparr>w_trace := w_trace ?w @ t2, h_edge := e\<rparr>)"
  have tr: "w_trace ?w = w_trace w @ t1" "w_trace ?w2 = w_trace w @ t1 @ t2"
    using t1 by (simp_all add: container_up_def cancel_def)
  have t2': "list_all neutral t2" "list_all (\<lambda>c. \<forall>i b. c \<noteq> SidecarStop i b) t2"
    using t2 by (auto simp: list_all_iff intro: sidecar_start_neutral)
  from ups show ?thesis
  proof
    assume r1: "r = Inl (sidecars_up s (w_trace ?w) t2)"
    then have "Run d s m cfg w =
      andthen (stopAll d s Background (sidecars_up s (w_trace ?w) t2) c) (os_exit 1) ?w2"
      using Run_started [OF start r] by simp
    then show ?thesis
      using tr t2' c
      by (intro exI [of _ False] exI [of _ 1] exI [of _ t2] exI [of _ "[]"])
         (simp add: stopAll_run [OF c] act_simps calls_of_def)
  next
    assume r1: "r = Inr (sidecars_up s (w_trace ?w) t2)"
    then have run: "Run d s m cfg w = after_startup d s m (sidecars_up s (w_trace ?w) t2) c ?w2"
      using Run_started [OF start r] by simp
    obtain code w3 where m: "m ?w2 = (Ret code, w3)"
      using codes [of ?w2] by (cases "m ?w2") auto
    obtain t3 where t3: "w_trace w3 = w_trace w @ t1 @ t2 @ t3"
        "list_all (\<lambda>c. neutral c \<and> no_sidecar_call c) t3"
      using only_callsE [OF only, of ?w2] m tr(2) by (metis append.assoc snd_conv)
    then have "list_all neutral t3" "list_all no_sidecar_call t3" by (auto simp: list_all_iff)
    then show ?thesis
      using tr t2' t3(1) c m run
      by (intro exI [of _ "ctx_done w3 startup_ctx"] exI [of _ code] exI [of _ t2] exI [of _ t3])
         (simp add: after_startup_def stopAll_run [OF c] act_simps calls_of_def)
  qed
qed


definition demo_sidecars :: sidecar_api where
  "demo_sidecars =
     \<lparr>s_start = (\<lambda>i _ _ _. if i < 2 then Inr (''http://sc'' @ itoa (int i)) else Inl (ErrText ''no'')),
      s_stop = (\<lambda>_ _ _. None)\<rparr>"

definition demo_hworld :: "unit hworld" where
  "demo_hworld = world.extend (demo_world ()) (hworld.fields None [] [])"

definition demo_hcfg :: "nat list \<Rightarrow> h_config" where
  "demo_hcfg is = \<lparr>hc_edition = EditionAuto, hc_image = [], hc_services = [], hc_sidecars = is\<rparr>"

abbreviation demo_up :: docker_api where
  "demo_up \<equiv> demo_docker (Some ''c1'', None) (Inr ''http://ls'')"

lemma demo_start:
  "Start demo_up startup_ctx (ls_cfg_of (demo_hcfg is)) demo_hworld =
     (Ret (Inr \<lparr>ct_id = ''c1'', ct_edge_url = ''http://ls'', ct_edition = EditionCommunity,
                ct_services = [], ct_ctr = Some ''c1''\<rparr>),
      demo_hworld\<lparr>w_trace := w_trace (snd (Start demo_up startup_ctx (ls_cfg_of (demo_hcfg is)) demo_hworld))\<rparr>)"
  by (simp add: demo_docker_simps demo_hcfg_def ls_cfg_of_def demo_hworld_def world.defs hworld.defs
      DetectEdition_def getenv_def startup_ctx_def ctx_done_def)


text \<open>When every sidecar starts: each is given the container's URL, and the last one's URL stays.\<close>

lemma start_sidecars_all:
  assumes "\<And>i b u t. s_start s i b u t = Inr (url i)"
  shows "start_sidecars s c active is w =
    (Ret (Inr (active @ is)),
     w\<lparr>w_trace := w_trace w @ map (\<lambda>i. SidecarStart i (ctx_done w startup_ctx) (ct_edge_url c)) is,
       h_edge := last (h_edge w # map url is)\<rparr>)"
proof (induction "is" arbitrary: active w)
  case (Cons i "is")
  show ?case
    by (simp add: Cons.IH act_simps Let_def assms)
qed (simp add: act_simps)

text \<open>
  C26.  What the tests see and when the sidecars are stopped.  When the container and all
  sidecars start, the tests run in a world where \<^verbatim>\<open>Current\<close> is that container, \<^verbatim>\<open>EdgeURL\<close> is
  the URL of the last sidecar (of the container when there is none), every sidecar has been
  pointed at the container itself, and the startup context is already cancelled; the process
  ends with the status of the tests.  So the sidecars are then stopped with a context that
  is done: a graceful shutdown gets no time.
\<close>

theorem tests_see_the_last_sidecar:
  assumes "Start d startup_ctx (ls_cfg_of cfg) w = (Ret (Inr c), w1)"
    and "\<And>i b u t. s_start s i b u t = Inr (url i)" and "ct_ctr c = Some h"
  shows "\<exists>w2 b. Current w2 = Some c \<and>
     EdgeURL w2 = last (ct_edge_url c # map url (hc_sidecars cfg)) \<and> ctx_done w2 startup_ctx \<and>
     w_trace w2 = w_trace w1 @ map (\<lambda>i. SidecarStart i b (ct_edge_url c)) (hc_sidecars cfg) \<and>
     (\<forall>m code w3. m w2 = (Ret code, w3) \<and> ctx_done w3 startup_ctx \<longrightarrow>
        fst (Run d s m cfg w) = Exited code \<and>
        Current (snd (Run d s m cfg w)) = None \<and> EdgeURL (snd (Run d s m cfg w)) = [] \<and>
        w_trace (snd (Run d s m cfg w)) =
          w_trace w3 @ map (\<lambda>i. SidecarStop i True) (rev (hc_sidecars cfg)) @ [TerminateContainer h])"
proof -
  note run = start_sidecars_all [OF assms(2), of c "[]" "hc_sidecars cfg" "container_up c w1"]
  let ?w2 = "cancel startup_ctx (snd (start_sidecars s c [] (hc_sidecars cfg) (container_up c w1)))"
  have w2: "h_shared ?w2 = Some c" "h_edge ?w2 = last (ct_edge_url c # map url (hc_sidecars cfg))"
      "startup_ctx \<in> set (w_cancelled ?w2)"
      "w_trace ?w2 = w_trace w1 @
         map (\<lambda>i. SidecarStart i (ctx_done w1 startup_ctx) (ct_edge_url c)) (hc_sidecars cfg)"
    by (simp_all only: run) (simp_all add: cancel_def container_up_def)
  have eq: "Run d s m cfg w = after_startup d s m (hc_sidecars cfg) c ?w2" for m
    using Run_started [OF assms(1) run, of m] run by simp
  have fin: "fst (Run d s m cfg w) = Exited code \<and>
      Current (snd (Run d s m cfg w)) = None \<and> EdgeURL (snd (Run d s m cfg w)) = [] \<and>
      w_trace (snd (Run d s m cfg w)) =
        w_trace w3 @ map (\<lambda>i. SidecarStop i True) (rev (hc_sidecars cfg)) @ [TerminateContainer h]"
    if "m ?w2 = (Ret code, w3)" and "ctx_done w3 startup_ctx" for m code w3
    using that
    by (simp add: eq after_startup_def stopAll_run [OF assms(3)] act_simps Current_def EdgeURL_def)
  have "ctx_done ?w2 startup_ctx"
    using w2(3) by (simp add: ctx_done_def startup_ctx_def)
  with w2 fin show ?thesis
    by (intro exI [of _ ?w2] exI [of _ "ctx_done w1 startup_ctx"]) (simp add: Current_def EdgeURL_def)
qed

theorem tests_see_the_last_sidecar_witness:
  "\<exists>w2. Current w2 = Some \<lparr>ct_id = ''c1'', ct_edge_url = ''http://ls'', ct_edition = EditionCommunity,
             ct_services = [], ct_ctr = Some ''c1''\<rparr> \<and>
        EdgeURL (w2 :: unit hworld) = ''http://sc1'' \<and> ctx_done w2 startup_ctx"
  using tests_see_the_last_sidecar [OF demo_start, of "demo_sidecars\<lparr>s_start := \<lambda>i _ _ _. Inr (''http://sc'' @ itoa (int i))\<rparr>"
      "\<lambda>i. ''http://sc'' @ itoa (int i)" "''c1''" "[0, 1]"]
  by (auto simp: demo_hcfg_def itoa_def nat_digits.simps digit_def)

subsection \<open>Prefix warnings\<close>

text \<open>
  A test handle over the harness's world.  The calls of concurrent tests are served one at a
  time, so the sequence \<open>ps\<close> is their prefixes in the order in which the mutex was taken.
\<close>

locale warned = test_handle I cleanups_of
  for I :: "(('t, 'm) hw, 'c) tb_iface" and cleanups_of :: "'t \<Rightarrow> 'c list"
begin

lemma prefix_warnings:
  "\<exists>w'. for_each ps (PrefixWarning I) w = (Ret (), w') \<and>
     set (h_seen w') = set (h_seen w) \<union> set ps \<and>
     (m_failed I w' \<longleftrightarrow> m_failed I w \<or> \<not> distinct ps \<or> set ps \<inter> set (h_seen w) \<noteq> {})"
proof (induction ps arbitrary: w)
  case Nil
  show ?case by (simp add: act_simps)
next
  case (Cons p ps)
  show ?case
  proof (cases "p \<in> set (h_seen w)")
    case True
    obtain t where t: "m_errorf I ''duplicate prefix %q detected'' [AStr p] w = (Ret (), w\<lparr>w_tb := t\<rparr>)"
        "m_failed I (w\<lparr>w_tb := t\<rparr>)"
      using errorf_law by metis
    obtain w' where "for_each ps (PrefixWarning I) (w\<lparr>w_tb := t\<rparr>) = (Ret (), w')"
        "set (h_seen w') = set (h_seen w) \<union> set ps" "m_failed I w'"
      using Cons.IH [of "w\<lparr>w_tb := t\<rparr>"] t(2) by auto
    with True t show ?thesis
      by (intro exI [of _ w']) (auto simp: act_simps PrefixWarning_def [of _ p w])
  next
    case False
    let ?w = "w\<lparr>h_seen := p # h_seen w\<rparr>"
    have "m_failed I ?w = m_failed I w"
      by (rule failed_law) simp
    with False show ?thesis
      using Cons.IH [of ?w] by (auto simp: act_simps PrefixWarning_def [of _ p w])
  qed
qed

end

interpretation warned_real: warned "real_tb rm" t_cleanups
  by unfold_locales

interpretation warned_fake: warned fake_iface f_cleanups
  by unfold_locales

lemma prefix_warning_output:
  "length (t_output (w_tb (snd (for_each ps (PrefixWarning (real_tb rm)) w)))) + card (set ps - set (h_seen w)) =
   length (t_output (w_tb w)) + length ps"
proof (induction ps arbitrary: w)
  case (Cons p ps)
  show ?case
  proof (cases "p \<in> set (h_seen w)")
    case True
    let ?w = "snd (real_errorf ''duplicate prefix %q detected'' [AStr p] w)"
    have "insert p (set ps) - set (h_seen w) = set ps - set (h_seen ?w)"
      using True by (auto simp: real_tb_defs)
    moreover have "length (t_output (w_tb ?w)) = Suc (length (t_output (w_tb w)))"
      by (simp add: real_tb_defs)
    ultimately show ?thesis
      using Cons.IH [of ?w] True by (simp add: act_simps PrefixWarning_def [of _ p w] real_tb_def real_errorf_def)
  next
    case False
    have "insert p (set ps) - set (h_seen w) = insert p (set ps - insert p (set (h_seen w)))"
      using False by auto
    with False show ?thesis
      using Cons.IH [of "w\<lparr>h_seen := p # h_seen w\<rparr>"] by (simp add: act_simps PrefixWarning_def [of _ p w])
  qed
qed (simp add: act_simps)

text \<open>
  Duplicate prefixes are reported whatever the order of the calls: a sequence of calls of
  \<^verbatim>\<open>PrefixWarning\<close> always returns, leaves a test that had not failed so exactly when no prefix occurs twice in it
  or was seen before, and writes one message for each call beyond the first of its prefix, so
  as many as there are calls less new prefixes.
\<close>

theorem duplicate_prefixes_fail_the_test:
  "\<exists>w'. for_each ps (PrefixWarning (real_tb rm)) w = (Ret (), w') \<and>
     set (h_seen w') = set (h_seen w) \<union> set ps \<and>
     (\<not> t_failed (w_tb w') \<longleftrightarrow> \<not> t_failed (w_tb w) \<and> distinct ps \<and> set ps \<inter> set (h_seen w) = {}) \<and>
     length (t_output (w_tb w')) + card (set ps - set (h_seen w)) = length (t_output (w_tb w)) + length ps"
  using warned_real.prefix_warnings [of ps rm w] prefix_warning_output [of ps rm w]
  by (auto simp: real_tb_def)

end
