(* ===== verification/Terraform_Files.thy ===== *)
theory Terraform_Files
  imports Harness Json_Encode
begin

text \<open>
  \<^verbatim>\<open>tf/options.go\<close> and \<^verbatim>\<open>tf/override.go\<close>: the options Terraform is run with, the plugin
  cache directory, and the two override files that point a module at LocalStack.
  \<^verbatim>\<open>terraform.WithDefaultRetryableErrors\<close> adds retry rules only, which the model leaves out.
\<close>

section \<open>The plugin cache directory\<close>

text \<open>The package variables \<^verbatim>\<open>pluginCacheDirOnce\<close> and \<^verbatim>\<open>pluginCacheDirPath\<close>: \<open>None\<close> before the first call.\<close>

record 't tfworld = "'t hworld" +
  o_cache :: "string option"

type_synonym ('t, 'm) tw = "('t, 'm) tfworld_scheme"

definition home_or_temp :: "('t, 'x, 'm) world_scheme \<Rightarrow> string" where
  "home_or_temp w = (case user_home_dir w of Inl err \<Rightarrow> temp_root w | Inr home \<Rightarrow> home)"

definition cache_base :: "('t, 'x, 'm) world_scheme \<Rightarrow> string" where
  "cache_base w =
     (if w_goos w = ''darwin'' then path_join [home_or_temp w, ''Library'', ''Caches'']
      else if getenv w ''XDG_CACHE_HOME'' \<noteq> [] then getenv w ''XDG_CACHE_HOME''
      else path_join [home_or_temp w, ''.cache''])"

definition resolvePluginCacheDir :: "(('t, 'x, 'm) world_scheme, string) act" where
  "resolvePluginCacheDir w =
     (let dir = path_join [cache_base w, ''libtftest'', ''plugin-cache''] in
      case os_mkdir_all dir (w_fs w) of
        (Inl err, s) \<Rightarrow> (Ret (path_join [temp_root w, ''libtftest-plugin-cache'']), w\<lparr>w_fs := s\<rparr>)
      | (Inr _, s) \<Rightarrow> (Ret dir, w\<lparr>w_fs := s\<rparr>))"

definition PluginCacheDir :: "(('t, 'm) tw, string) act" where
  "PluginCacheDir w =
     (case o_cache w of
        Some dir \<Rightarrow> (Ret dir, w)
      | None \<Rightarrow>
          bnd resolvePluginCacheDir (\<lambda>dir. bnd (modify (\<lambda>w. w\<lparr>o_cache := Some dir\<rparr>)) (\<lambda>_. ret dir)) w)"

section \<open>Options\<close>

definition dummyCredential :: string where
  "dummyCredential = ''test''"

definition defaultEnvVars :: "(('t, 'm) tw, (string \<times> string) list) act" where
  "defaultEnvVars =
     bnd PluginCacheDir (\<lambda>cache. ret
       [(''AWS_ACCESS_KEY_ID'', dummyCredential),
        (''AWS_SECRET_ACCESS_KEY'', dummyCredential),
        (''AWS_DEFAULT_REGION'', ''us-east-1''),
        (''TF_PLUGIN_CACHE_DIR'', cache),
        (''TF_IN_AUTOMATION'', ''1'')])"

definition BuildOptions :: "string \<Rightarrow> (string \<times> any_val) list \<Rightarrow> (('t, 'm) tw, tf_options) act" where
  "BuildOptions workDir vars =
     bnd defaultEnvVars (\<lambda>env. ret
       \<lparr>to_dir = workDir, to_vars = vars, to_env = env, to_no_color = True, to_lock = True,
        to_lock_timeout = ''60s'', to_plan_file = []\<rparr>)"

definition BuildPlanOptions :: "string \<Rightarrow> (string \<times> any_val) list \<Rightarrow> (('t, 'm) tw, tf_options) act" where
  "BuildPlanOptions workDir vars =
     bnd defaultEnvVars (\<lambda>env. ret
       \<lparr>to_dir = workDir, to_vars = vars, to_env = env, to_no_color = True, to_lock = True,
        to_lock_timeout = ''60s'', to_plan_file = path_join [workDir, ''libtftest.plan'']\<rparr>)"

section \<open>Override files\<close>

definition providerOverrideFile :: string where
  "providerOverrideFile = ''_libtftest_override.tf.json''"

definition backendOverrideFile :: string where
  "backendOverrideFile = ''_libtftest_backend_override.tf.json''"

definition services :: "string list" where
  "services =
     [''s3'', ''dynamodb'', ''iam'', ''sts'', ''ssm'', ''secretsmanager'', ''sqs'', ''sns'', ''lambda'',
      ''kms'', ''cloudwatch'', ''logs'', ''events'', ''kinesis'', ''firehose'', ''ec2'', ''route53'',
      ''acm'', ''cloudformation'', ''stepfunctions'', ''cognitoidp'']"

fun fill_endpoints :: "string \<Rightarrow> string list \<Rightarrow> (string \<times> string) list \<Rightarrow> (string \<times> string) list" where
  "fill_endpoints edgeURL [] m = m"
| "fill_endpoints edgeURL (svc # svcs) m = fill_endpoints edgeURL svcs (put svc edgeURL m)"

definition endpoints :: "string \<Rightarrow> (string \<times> string) list" where
  "endpoints edgeURL = fill_endpoints edgeURL services []"

definition provider_value :: "string \<Rightarrow> unit json" where
  "provider_value edgeURL =
     JObj [(''provider'', JObj [(''aws'', JObj
       [(''region'', JStr ''us-east-1''),
        (''access_key'', JStr dummyCredential),
        (''secret_key'', JStr dummyCredential),
        (''skip_credentials_validation'', JBool True),
        (''skip_metadata_api_check'', JBool True),
        (''skip_requesting_account_id'', JBool True),
        (''s3_use_path_style'', JBool True),
        (''endpoints'', JObj (map (\<lambda>(k, v). (k, JStr v)) (endpoints edgeURL)))])])]"

definition backend_value :: "unit json" where
  "backend_value = JObj [(''terraform'', JObj [(''backend'', JObj [(''local'', JObj [])])])]"

text \<open>Encoding strings, booleans and maps of them cannot fail, so neither can the renderers.\<close>

definition RenderProviderOverride :: "string \<Rightarrow> go_error + string" where
  "RenderProviderOverride edgeURL = Inr (marshal_indent (\<lambda>_. []) 0 (provider_value edgeURL))"

definition RenderBackendOverride :: string where
  "RenderBackendOverride = marshal_indent (\<lambda>_. []) 0 backend_value"

definition WriteOverrides :: "string \<Rightarrow> string \<Rightarrow> fsys \<Rightarrow> go_error option \<times> fsys" where
  "WriteOverrides dir edgeURL s =
     (case RenderProviderOverride edgeURL of
        Inl err \<Rightarrow> (Some (ErrWrap ''render provider override'' err), s)
      | Inr provider \<Rightarrow>
     case os_write_file (path_join [dir, providerOverrideFile]) provider 416 s of
        (Inl err, s1) \<Rightarrow> (Some (ErrWrap ''write provider override'' err), s1)
      | (Inr _, s1) \<Rightarrow>
     case os_write_file (path_join [dir, backendOverrideFile]) RenderBackendOverride 416 s1 of
        (Inl err, s2) \<Rightarrow> (Some (ErrWrap ''write backend override'' err), s2)
      | (Inr _, s2) \<Rightarrow> (None, s2))"

section \<open>Properties\<close>

lemma PluginCacheDir_returns: "\<exists>dir w'. PluginCacheDir w = (Ret dir, w') \<and> o_cache w' = Some dir"
  by (cases "o_cache w")
     (auto simp: PluginCacheDir_def resolvePluginCacheDir_def act_simps Let_def split: prod.splits sum.splits)

text \<open>
  One plugin cache per process: whatever happens to the environment, the file system and
  the test handle between two calls, as long as no one writes the package variable, both
  calls return the same directory and the second changes nothing; so all runs of Terraform
  share it.
\<close>

theorem plugin_cache_dir_is_stable:
  assumes "PluginCacheDir w = (Ret dir, w1)" and "o_cache w2 = o_cache w1"
  shows "PluginCacheDir w2 = (Ret dir, w2) \<and>
     (\<forall>p vars p' vars'. \<exists>o1 o2. BuildOptions p vars w2 = (Ret o1, w2) \<and>
        BuildPlanOptions p' vars' w2 = (Ret o2, w2) \<and> to_env o1 = to_env o2 \<and>
        map_of (to_env o1) ''TF_PLUGIN_CACHE_DIR'' = Some dir)"
proof -
  have "o_cache w2 = Some dir"
    using PluginCacheDir_returns [of w] assms by auto
  then show ?thesis
    by (simp add: PluginCacheDir_def BuildOptions_def BuildPlanOptions_def defaultEnvVars_def act_simps)
qed

definition demo_tfworld :: "unit tfworld" where
  "demo_tfworld = hworld.extend demo_hworld (tfworld.fields None)"

theorem plugin_cache_dir_is_stable_witness:
  "\<exists>dir w1. PluginCacheDir demo_tfworld = (Ret dir, w1) \<and>
     PluginCacheDir (w1\<lparr>w_env := (\<lambda>_. Some ''/elsewhere'')\<rparr>) = (Ret dir, w1\<lparr>w_env := (\<lambda>_. Some ''/elsewhere'')\<rparr>)"
proof -
  obtain dir w1 where d: "PluginCacheDir demo_tfworld = (Ret dir, w1)"
    using PluginCacheDir_returns by blast
  then show ?thesis
    using plugin_cache_dir_is_stable [OF d, of "w1\<lparr>w_env := (\<lambda>_. Some ''/elsewhere'')\<rparr>"] by auto
qed

lemma map_of_fill_endpoints:
  "map_of (fill_endpoints u svcs m) k = (if k \<in> set svcs then Some u else map_of m k)"
  by (induction u svcs m rule: fill_endpoints.induct) auto

lemma WriteOverrides_ok:
  assumes "fs_wf s" and "list_all plain d" and "node_at s d = Some NDir" and "fault s = (\<lambda>_ _. None)"
    and "node_at s (d @ [providerOverrideFile]) = None" and "node_at s (d @ [backendOverrideFile]) = None"
  shows "\<exists>s' m m'. WriteOverrides (abs_text d) u s = (None, s') \<and>
     (\<forall>p. node_at s' p =
        (if p = d @ [providerOverrideFile] then Some (NFile (marshal_indent (\<lambda>_. []) 0 (provider_value u)) m)
         else if p = d @ [backendOverrideFile] then Some (NFile RenderBackendOverride m')
         else node_at s p)) \<and>
     (\<forall>k. map_of (endpoints u) k = (if k \<in> set services then Some u else None))"
proof -
  have pl: "plain providerOverrideFile" "plain backendOverrideFile"
    by (simp_all add: plain_def providerOverrideFile_def backendOverrideFile_def)
  have ne: "providerOverrideFile \<noteq> backendOverrideFile"
    by (simp add: providerOverrideFile_def backendOverrideFile_def)
  obtain s1 m where s1: "os_write_file (abs_text (d @ [providerOverrideFile]))
      (marshal_indent (\<lambda>_. []) 0 (provider_value u)) 416 s = (Inr (), s1)"
    "fs_wf s1" "fault s1 = fault s"
    "\<forall>p. node_at s1 p = (if p = d @ [providerOverrideFile]
        then Some (NFile (marshal_indent (\<lambda>_. []) 0 (provider_value u)) m) else node_at s p)"
    using write_file_in_dir [of s d providerOverrideFile] assms pl by fastforce
  have "list_all plain (d @ [backendOverrideFile])" "node_at s1 d = Some NDir" "fault s1 = (\<lambda>_ _. None)"
      "node_at s1 (d @ [backendOverrideFile]) = None"
    using s1(3,4) assms pl ne by simp_all
  then obtain s2 m' where s2: "os_write_file (abs_text (d @ [backendOverrideFile])) RenderBackendOverride 416 s1 = (Inr (), s2)"
    "\<forall>p. node_at s2 p = (if p = d @ [backendOverrideFile] then Some (NFile RenderBackendOverride m') else node_at s1 p)"
    using write_file_in_dir [of s1 d backendOverrideFile RenderBackendOverride 416] s1(2) by auto
  have "WriteOverrides (abs_text d) u s = (None, s2)"
    using s1(1) s2(1) assms(2) pl by (simp add: WriteOverrides_def RenderProviderOverride_def)
  then show ?thesis
    using s1(4) s2(2) ne
    by (intro exI [of _ s2] exI [of _ m] exI [of _ m']) (simp add: map_of_fill_endpoints endpoints_def)
qed

text \<open>
  \<^verbatim>\<open>WriteOverrides\<close> into an existing directory succeeds and changes two files of it only:
  the provider override, in which every service of the catalog, and no other key, has the
  edge URL as its endpoint, and the backend override.
\<close>

theorem write_overrides_writes_two_files:
  assumes "fs_wf s" and "list_all plain d" and "node_at s d = Some NDir" and "fault s = (\<lambda>_ _. None)"
    and "node_at s (d @ [providerOverrideFile]) = None" and "node_at s (d @ [backendOverrideFile]) = None"
  shows "\<exists>s' m m'. WriteOverrides (abs_text d) u s = (None, s') \<and>
     (\<forall>p. node_at s' p =
        (if p = d @ [providerOverrideFile] then Some (NFile (marshal_indent (\<lambda>_. []) 0 (provider_value u)) m)
         else if p = d @ [backendOverrideFile] then Some (NFile RenderBackendOverride m')
         else node_at s p)) \<and>
     (\<forall>k. map_of (endpoints u) k = (if k \<in> set services then Some u else None))"
  using assms by (rule WriteOverrides_ok)

definition demo_dir :: fsys where
  "demo_dir = \<lparr>nodes = [([''w''], NDir)], cwd = [], umask = 18, fault = (\<lambda>_ _. None)\<rparr>"

lemma demo_dir_facts: "fs_wf demo_dir" "node_at demo_dir [''w''] = Some NDir" "fault demo_dir = (\<lambda>_ _. None)"
  "plain ''w''"
  by (simp_all add: fs_wf_def demo_dir_def keys_distinct_def plain_def node_at_def)

theorem write_overrides_writes_two_files_witness:
  "\<exists>s' m. WriteOverrides (abs_text [''w'']) ''http://ls'' demo_dir = (None, s') \<and>
     node_at s' [''w'', backendOverrideFile] = Some (NFile RenderBackendOverride m) \<and>
     node_at s' [''w''] = Some NDir"
proof -
  have "node_at demo_dir ([''w''] @ [providerOverrideFile]) = None"
      "node_at demo_dir ([''w''] @ [backendOverrideFile]) = None"
    by (simp_all add: demo_dir_def node_at_def)
  then show ?thesis
    using write_overrides_writes_two_files [of demo_dir "[''w'']" "''http://ls''"] demo_dir_facts
    by (auto simp: providerOverrideFile_def backendOverrideFile_def)
qed

end
