(* ===== verification/Workspace.thy ===== *)
theory Workspace
  imports Testing
begin

text \<open>
  \<^verbatim>\<open>tf/workspace.go\<close>: the scratch copy of a Terraform module.  \<^verbatim>\<open>copyTree\<close> walks the source
  with \<^verbatim>\<open>filepath.WalkDir\<close> and calls itself, through \<^verbatim>\<open>copySymlink\<close>, on a directory a link
  leads to; \<open>fuel\<close> bounds these calls and the depth of the walk, and the value \<open>None\<close> says
  that it did not suffice.
\<close>

section \<open>Copying\<close>

text \<open>
  The permission bits of an open file.  Those of a directory are not part of the model; the
  case occurs only when an entry turns into a directory between \<^verbatim>\<open>ReadDir\<close> and \<^verbatim>\<open>Open\<close>.
\<close>

fun file_mode :: "node \<Rightarrow> nat" where
  "file_mode (NFile _ m) = m"
| "file_mode _ = 493"

text \<open>
  The source is opened before the destination is truncated, and read after: what is copied
  is the content the file has then.
\<close>

definition copyFile :: "string \<Rightarrow> string \<Rightarrow> fsys \<Rightarrow> go_error option \<times> fsys" where
  "copyFile src dst s =
     (case stat_with ''open'' True s src of
        Inl err \<Rightarrow> (Some (ErrWrap (''open source '' @ src) err), s)
      | Inr sf \<Rightarrow>
     case fault s ''fstat'' src of
        Some err \<Rightarrow> (Some (ErrWrap (''stat source '' @ src) err), s)
      | None \<Rightarrow>
     case os_mkdir_all (path_dir dst) s of
        (Inl err, s1) \<Rightarrow> (Some (ErrWrap (''create parent dir for '' @ dst) err), s1)
      | (Inr _, s1) \<Rightarrow>
     case os_open_trunc dst (file_mode sf) s1 of
        (Inl err, s2) \<Rightarrow> (Some (ErrWrap (''create destination '' @ dst) err), s2)
      | (Inr q, s2) \<Rightarrow>
     case os_read_file s2 src of
        Inl err \<Rightarrow> (Some (ErrWrap (''copy '' @ src @ '' -> '' @ dst) err), s2)
      | Inr content \<Rightarrow>
     case fault s2 ''write'' dst of
        Some err \<Rightarrow> (Some (ErrWrap (''copy '' @ src @ '' -> '' @ dst) err), s2)
      | None \<Rightarrow> (None, put_content q content s2))"

type_synonym copier = "string \<Rightarrow> string \<Rightarrow> fsys \<Rightarrow> (go_error option \<times> fsys) option"

text \<open>The second component of the state is \<^verbatim>\<open>seen\<close>, made afresh by each call of \<^verbatim>\<open>copyTree\<close>.\<close>

definition copySymlink ::
  "copier \<Rightarrow> string \<Rightarrow> string \<Rightarrow> fsys \<times> string list \<Rightarrow> (go_error option \<times> fsys \<times> string list) option"
where
  "copySymlink rec path target st =
     (let s = fst st; seen = snd st in
      case eval_symlinks s path of
        Inl err \<Rightarrow> Some (Some (ErrWrap (''resolve symlink '' @ path) err), s, seen)
      | Inr resolved \<Rightarrow>
          if resolved \<in> set seen then Some (None, s, seen)
          else (let seen' = resolved # seen in
                case os_stat s resolved of
                  Inl err \<Rightarrow> Some (Some (ErrWrap (''stat resolved symlink '' @ resolved) err), s, seen')
                | Inr info \<Rightarrow>
                    if info = NDir
                    then map_option (\<lambda>(e, s'). (e, s', seen')) (rec resolved target s)
                    else (case copyFile resolved target s of (e, s') \<Rightarrow> Some (e, s', seen'))))"

fun walk_result :: "go_error option \<Rightarrow> walk_ret" where
  "walk_result None = WOk"
| "walk_result (Some e) = WErr e"

definition copy_entry :: "copier \<Rightarrow> string \<Rightarrow> string \<Rightarrow> (fsys \<times> string list) walk_fn" where
  "copy_entry rec src dst st path d err =
     (case (err, d) of
        (Some e, _) \<Rightarrow> Some (WErr e, st)
      | (None, None) \<Rightarrow> None
      | (None, Some n) \<Rightarrow>
          (case path_rel src path of
             Inl e \<Rightarrow> Some (WErr (ErrWrap ''compute relative path'' e), st)
           | Inr rel \<Rightarrow>
               (let target = path_join [dst, rel] in
                case n of
                  NDir \<Rightarrow>
                    (case os_mkdir_all target (fst st) of
                       (Inl e, s') \<Rightarrow> Some (WErr e, s', snd st)
                     | (Inr _, s') \<Rightarrow> Some (WOk, s', snd st))
                | NLink _ \<Rightarrow>
                    map_option (\<lambda>(e, st'). (walk_result e, st')) (copySymlink rec path target st)
                | NFile _ _ \<Rightarrow>
                    (case copyFile path target (fst st) of
                       (e, s') \<Rightarrow> Some (walk_result e, s', snd st)))))"

primrec copyTree :: "nat \<Rightarrow> copier" where
  "copyTree 0 = (\<lambda>src dst s. None)"
| "copyTree (Suc fuel) = (\<lambda>src dst s.
     map_option (\<lambda>(e, st). (e, fst st))
       (walk fst (Suc fuel) (copy_entry (copyTree fuel) src dst) src (s, [])))"

section \<open>The workspace\<close>

record workspace =
  ws_dir :: string
  ws_src :: string

text \<open>
  \<^verbatim>\<open>NewWorkspace\<close>.  A copy that does not end within the fuel is the outcome
  \<open>Panicked ''out of fuel''\<close>, which is no outcome of the code.
\<close>

definition NewWorkspace ::
  "nat \<Rightarrow> (('t, 'x, 'm) world_scheme, 'c) tb_iface \<Rightarrow> string \<Rightarrow> (('t, 'x, 'm) world_scheme, workspace) act"
where
  "NewWorkspace fuel I moduleDir =
     bnd (m_temp_dir I) (\<lambda>tempDir.
       let dst = path_join [tempDir, ''module''] in
       (\<lambda>w. case copyTree fuel moduleDir dst (w_fs w) of
              None \<Rightarrow> (Panicked ''out of fuel'', w)
            | Some (None, s) \<Rightarrow> (Ret \<lparr>ws_dir = dst, ws_src = moduleDir\<rparr>, w\<lparr>w_fs := s\<rparr>)
            | Some (Some err, s) \<Rightarrow>
                andthen (m_fatalf I ''copy module %s: %v'' [AStr moduleDir, AErr err])
                  (ret \<lparr>ws_dir = dst, ws_src = moduleDir\<rparr>) (w\<lparr>w_fs := s\<rparr>)))"

section \<open>Copying a file\<close>

lemma copyFile_new:
  assumes src: "list_all plain q" "dir_chain s (butlast q)" "node_at s q = Some (NFile content m)"
    and dst: "list_all plain (d @ [c])" "dir_chain s d" "node_at s (d @ [c]) = None"
    and quiet: "fault s = (\<lambda>_ _. None)"
  shows "copyFile (abs_text q) (abs_text (d @ [c])) s =
           (None, set_node (d @ [c]) (NFile content (masked s m)) (set_node (d @ [c]) (NFile [] (masked s m)) s))"
proof -
  have "q \<noteq> d @ [c]" using src(3) dst(3) by auto
  have st: "stat_with op True s (abs_text q) = Inr (NFile content m)" for op
    using locate_node [of q s "NFile content m" True False] src quiet
    by (simp add: stat_with_def)
  have mk: "os_mkdir_all (path_dir (abs_text (d @ [c]))) s = (Inr (), s)"
    using mkdir_all_existing [of d s] dst quiet by simp
  let ?s = "set_node (d @ [c]) (NFile [] (masked s m)) s"
  have op: "os_open_trunc (abs_text (d @ [c])) m s = (Inr (d @ [c]), ?s)"
    using locate_missing [of d c s True True] dst quiet by (simp add: os_open_trunc_def)
  have n: "node_at ?s q = Some (NFile content m)"
    using \<open>q \<noteq> d @ [c]\<close> src(3) by (simp add: node_at_set_node)
  have "dir_chain ?s (butlast q)"
    using src(2) dst(3) by (auto simp: dir_chain_def node_at_set_node)
  then have rd: "os_read_file ?s (abs_text q) = Inr content"
    using locate_node [of q ?s "NFile content m" True False] src(1) n quiet
    by (simp add: os_read_file_def stat_with_def)
  show ?thesis
    using quiet by (simp add: copyFile_def st mk op rd put_content_def node_at_set_node)
qed

section \<open>Copying a tree without links\<close>

text \<open>What the copy of a node is, and the part of the source tree below \<open>q @ r\<close>, relative to \<open>q\<close>.\<close>

fun duplicate :: "fsys \<Rightarrow> node \<Rightarrow> node" where
  "duplicate s (NFile content m) = NFile content (masked s m)"
| "duplicate s n = n"

definition tree :: "fsys \<Rightarrow> string list \<Rightarrow> string list \<Rightarrow> string list set" where
  "tree s q r = {r @ y |y. node_at s (q @ r @ y) \<noteq> None}"

text \<open>
  \<open>copied s q d R s'\<close>: \<open>s'\<close> is \<open>s\<close> with the entries \<open>R\<close> of the directory \<open>q\<close>, named relative
  to it, copied to the same places below \<open>d\<close>, and nothing else changed.
\<close>

definition copied :: "fsys \<Rightarrow> string list \<Rightarrow> string list \<Rightarrow> string list set \<Rightarrow> fsys \<Rightarrow> bool" where
  "copied s q d R s' \<longleftrightarrow>
     cwd s' = cwd s \<and> umask s' = umask s \<and> fault s' = fault s \<and> fs_wf s' \<and>
     (\<forall>p. node_at s' p =
        (if under d p \<and> drop (length d) p \<in> R
         then map_option (duplicate s) (node_at s (q @ drop (length d) p)) else node_at s p))"

text \<open>A directory \<open>q\<close> without links, and a fresh place \<open>d\<close> for its copy, neither inside the other.\<close>

definition copyable :: "fsys \<Rightarrow> string list \<Rightarrow> string list \<Rightarrow> bool" where
  "copyable s q d \<longleftrightarrow>
     fs_wf s \<and> fault s = (\<lambda>_ _. None) \<and> list_all plain q \<and> list_all plain d \<and> d \<noteq> [] \<and>
     node_at s (butlast d) = Some NDir \<and> \<not> under d q \<and> \<not> under q d \<and>
     (\<forall>p. under d p \<longrightarrow> node_at s p = None) \<and> (\<forall>x t. node_at s (q @ x) \<noteq> Some (NLink t))"

lemma under_append [simp]: "under d (d @ x)"
  by (simp add: under_def)

lemma underE: "under d p \<Longrightarrow> \<exists>x. p = d @ x"
  unfolding under_def by (metis append_take_drop_id)

lemma not_under_disjoint:
  assumes "\<not> under d q" and "\<not> under q d"
  shows "\<not> under d (q @ x)"
proof
  assume "under d (q @ x)"
  then have t: "take (length d) (q @ x) = d" by (simp add: under_def)
  show False
  proof (cases "length d \<le> length q")
    case True
    with t assms(1) show False by (simp add: under_def)
  next
    case False
    then have "take (length q) d = take (length q) (q @ x)"
      using t by (metis linear min.absorb1 take_take)
    with assms(2) show False by (simp add: under_def)
  qed
qed

lemma tree_self: "node_at s (q @ r) \<noteq> None \<Longrightarrow> r \<in> tree s q r"
  by (auto simp: tree_def intro: exI [of _ "[]"])

lemma tree_file: "fs_wf s \<Longrightarrow> node_at s (q @ r) = Some (NFile c m) \<Longrightarrow> tree s q r = {r}"
  using wf_parent(1) [of s "q @ r"] by (fastforce simp: tree_def)

lemma tree_dir:
  assumes "fs_wf s" and "node_at s (q @ r) \<noteq> None"
  shows "tree s q r = insert r (\<Union>c\<in>{c. node_at s (q @ r @ [c]) \<noteq> None}. tree s q (r @ [c]))"
proof -
  have "r @ y \<in> insert r (\<Union>c\<in>{c. node_at s (q @ r @ [c]) \<noteq> None}. tree s q (r @ [c]))"
    if "node_at s (q @ r @ y) \<noteq> None" for y
  proof (cases y)
    case (Cons c ys)
    then have "node_at s (q @ r @ [c]) \<noteq> None"
      using wf_parent(2) [OF assms(1), of "q @ r" y] that by simp
    with Cons that show ?thesis by (auto simp: tree_def intro!: bexI [of _ c] exI [of _ ys])
  qed simp
  then show ?thesis using assms(2) by (auto simp: tree_def)
qed

lemma copied_source:
  "copyable s q d \<Longrightarrow> copied s q d R s' \<Longrightarrow> node_at s' (q @ x) = node_at s (q @ x)"
  using not_under_disjoint [of d q x] by (simp add: copyable_def copied_def)

lemma copied_target:
  assumes "copyable s q d" and "copied s q d R s'"
  shows "node_at s' (d @ x) = (if x \<in> R then map_option (duplicate s) (node_at s (q @ x)) else None)"
  using assms by (auto simp: copyable_def copied_def)

lemma copied_set_node:
  assumes ok: "copyable s q d" "copied s q d R s'"
    and n: "node_at s (q @ r) = Some n" and r: "r \<notin> R" "list_all plain (d @ r)"
    and dir: "node_at s' (butlast (d @ r)) = Some NDir"
  shows "copied s q d (insert r R) (set_node (d @ r) (duplicate s n) s')"
proof -
  have d: "d @ r \<noteq> []" using ok(1) by (simp add: copyable_def)
  have none: "node_at s' (d @ r) = None" using copied_target [OF ok, of r] r(1) by simp
  then have wf: "fs_wf (set_node (d @ r) (duplicate s n) s')"
    using ok(2) r(2) dir d by (intro fs_wf_set_node) (auto simp: copied_def)
  have "node_at (set_node (d @ r) (duplicate s n) s') p =
      (if under d p \<and> drop (length d) p \<in> insert r R
       then map_option (duplicate s) (node_at s (q @ drop (length d) p)) else node_at s p)" for p
  proof (cases "p = d @ r")
    case True
    then show ?thesis using n d by (simp add: node_at_set_node)
  next
    case False
    then have "under d p \<Longrightarrow> drop (length d) p \<noteq> r"
      using underE [of d p] by auto
    with False d show ?thesis
      using ok(2) by (auto simp: node_at_set_node copied_def)
  qed
  with wf ok(2) show ?thesis unfolding copied_def by simp
qed

text \<open>One entry.\<close>

lemma copy_entry_step:
  assumes ok: "copyable s q d" "copied s q d R s'"
    and n: "node_at s (q @ r) = Some n" and r: "r \<notin> R" "r \<noteq> [] \<longrightarrow> butlast r \<in> R"
  shows "\<exists>s''. copy_entry rec (abs_text q) (abs_text d) (s', []) (abs_text (q @ r)) (Some n) None =
           Some (WOk, s'', []) \<and> copied s q d (insert r R) s''"
proof -
  have wf: "fs_wf s" "fs_wf s'" and quiet: "fault s' = (\<lambda>_ _. None)"
    using ok by (simp_all add: copyable_def copied_def)
  have pl: "list_all plain q" "list_all plain d" "d \<noteq> []"
    using ok(1) by (simp_all add: copyable_def)
  have "q @ r \<noteq> []"
    using ok(1) by (auto simp: copyable_def under_def)
  then have "list_all plain (q @ r)" using fs_wf_node(1) [OF wf(1) n] by simp
  then have pr: "list_all plain (d @ r)" "list_all plain r" using pl by simp_all
  have dir: "node_at s' (butlast (d @ r)) = Some NDir"
  proof (cases r rule: rev_exhaust)
    case Nil
    have "\<not> under d (butlast d)"
      using pl(3) by (cases d rule: rev_exhaust) (auto simp: under_def)
    with ok Nil show ?thesis by (simp add: copyable_def copied_def)
  next
    case (snoc r' c)
    then have "node_at s (q @ r') = Some NDir"
      using wf_parent(1) [OF wf(1), of "q @ r'" "[c]"] n by simp
    with snoc r(2) show ?thesis
      using copied_target [OF ok, of r'] by (simp add: butlast_append)
  qed
  have none: "node_at s' (d @ r) = None" using copied_target [OF ok, of r] r(1) by simp
  obtain e c where e: "d @ r = e @ [c]" using pl(3) by (cases "d @ r" rule: rev_exhaust) auto
  have chain: "dir_chain s' e" using dir_chain_wf [OF wf(2), of e] dir e by simp
  have rel: "path_rel (abs_text q) (abs_text (q @ r)) = Inr (path_text False r)"
      "path_join [abs_text d, path_text False r] = abs_text (d @ r)"
    using pl pr by simp_all
  note step = copied_set_node [OF ok n r(1) pr(1) dir]
  show ?thesis
  proof (cases n)
    case NDir
    have "os_mkdir_all (abs_text (d @ r)) s' = (Inr (), set_node (d @ r) NDir s')"
      using mkdir_all_new [of e c s'] pr(1) chain none quiet by (simp add: e)
    with NDir rel step show ?thesis by (simp add: copy_entry_def)
  next
    case (NFile content m)
    have "dir_chain s' (butlast (q @ r))"
      using dir_chain_wf [OF wf(2)] fs_wf_node(2) [OF wf(2) _ \<open>q @ r \<noteq> []\<close>]
        copied_source [OF ok, of r] n by simp
    moreover have "masked s' m = masked s m"
      using ok(2) by (simp add: copied_def masked_def)
    ultimately have "copyFile (abs_text (q @ r)) (abs_text (d @ r)) s' =
        (None, set_node (d @ r) (duplicate s n) s')"
      using copyFile_new [of "q @ r" s' content m e c] \<open>list_all plain (q @ r)\<close> pr(1) chain none quiet
        copied_source [OF ok, of r] n NFile by (simp add: e set_node_twice)
    with NFile rel step show ?thesis by (simp add: copy_entry_def)
  next
    case (NLink t)
    with ok(1) n show ?thesis by (simp add: copyable_def)
  qed
qed

lemma tree_plain: "copyable s q d \<Longrightarrow> x \<in> tree s q r \<Longrightarrow> list_all plain x"
proof -
  assume ok: "copyable s q d" and "x \<in> tree s q r"
  then obtain n where "node_at s (q @ x) = Some n" by (auto simp: tree_def)
  moreover have "q @ x \<noteq> []" using ok by (auto simp: copyable_def under_def)
  ultimately show ?thesis
    using fs_wf_node(1) [of s "q @ x" n] ok by (simp add: copyable_def)
qed

lemma copied_listing:
  assumes ok: "copyable s q d" "copied s q d R s'" and n: "node_at s (q @ r) = Some NDir"
  shows "os_read_dir s' (abs_text (q @ r)) =
    Inr (List.map_filter (\<lambda>c. map_option (Pair c) (node_at s (q @ r @ [c]))) (child_names s (q @ r)))"
proof -
  have wf: "fs_wf s" "fs_wf s'" and quiet: "fault s' = (\<lambda>_ _. None)"
    using ok by (simp_all add: copyable_def copied_def)
  have n': "node_at s' (q @ r) = Some NDir" using copied_source [OF ok] n by simp
  have "set (child_names s' (q @ r)) = set (child_names s (q @ r))"
    using wf copied_source [OF ok] by (simp add: set_child_names)
  then have "child_names s' (q @ r) = child_names s (q @ r)"
    by (intro sorted_distinct_set_unique) simp_all
  then show ?thesis
    using read_dir_entries [OF wf(2) quiet n'] copied_source [OF ok] by simp
qed

text \<open>The entries of a directory one after the other, given that each one is copied.\<close>

lemma entry_path:
  assumes "copyable s q d" and "node_at s (q @ r @ [c]) = Some m"
  shows "path_join [abs_text (q @ r), c] = abs_text (q @ r @ [c])"
proof -
  have "r @ [c] \<in> tree s q (r @ [c])"
    using assms(2) by (auto simp: tree_def intro: exI [of _ "[]"])
  then have "list_all plain (r @ [c])" by (rule tree_plain [OF assms(1)])
  then show ?thesis
    using path_join_abs_text1 [of "q @ r" c] assms(1) by (simp add: copyable_def)
qed

lemma walk_entries_step:
  assumes ok: "copyable s q d"
    and entry: "\<And>c m R s'. copied s q d R s' \<Longrightarrow> node_at s (q @ r @ [c]) = Some m \<Longrightarrow> r \<in> R \<Longrightarrow>
      tree s q (r @ [c]) \<inter> R = {} \<Longrightarrow>
      \<exists>s''. walk_dir fst fuel fn (abs_text (q @ r @ [c])) m (s', []) = Some (WOk, s'', []) \<and>
            copied s q d (R \<union> tree s q (r @ [c])) s''"
  shows "copied s q d R s' \<Longrightarrow> distinct cs \<Longrightarrow> r \<in> R \<Longrightarrow> (\<Union>c\<in>set cs. tree s q (r @ [c])) \<inter> R = {} \<Longrightarrow>
    \<exists>s''. walk_entries fst fuel fn (abs_text (q @ r))
        (List.map_filter (\<lambda>c. map_option (Pair c) (node_at s (q @ r @ [c]))) cs) (s', []) = Some (WOk, s'', []) \<and>
      copied s q d (R \<union> (\<Union>c\<in>set cs. tree s q (r @ [c]))) s''"
proof (induction cs arbitrary: R s')
  case Nil
  then show ?case by (auto simp: map_filter_simps)
next
  case (Cons c cs)
  have wf: "fs_wf s" using ok by (simp add: copyable_def)
  show ?case
  proof (cases "node_at s (q @ r @ [c])")
    case None
    then have "tree s q (r @ [c]) = {}"
      using wf_parent(1) [OF wf, of "q @ r @ [c]"] by (fastforce simp: tree_def)
    with None Cons show ?thesis by (simp add: map_filter_simps)
  next
    case (Some m)
    have "tree s q (r @ [c]) \<inter> R = {}" using Cons.prems(4) by auto
    from entry [OF Cons.prems(1) Some Cons.prems(3) this]
    obtain s1 where s1: "walk_dir fst fuel fn (abs_text (q @ r @ [c])) m (s', []) = Some (WOk, s1, [])"
      "copied s q d (R \<union> tree s q (r @ [c])) s1" by blast
    have "tree s q (r @ [c']) \<inter> tree s q (r @ [c]) = {}" if "c' \<in> set cs" for c'
      using Cons.prems(2) that by (auto simp: tree_def)
    then have disj: "(\<Union>c\<in>set cs. tree s q (r @ [c])) \<inter> (R \<union> tree s q (r @ [c])) = {}"
      using Cons.prems(4) by auto
    have "distinct cs" "r \<in> R \<union> tree s q (r @ [c])"
      using Cons.prems by simp_all
    from Cons.IH [OF s1(2) this disj] obtain s2 where
      "walk_entries fst fuel fn (abs_text (q @ r))
        (List.map_filter (\<lambda>c. map_option (Pair c) (node_at s (q @ r @ [c]))) cs) (s1, []) = Some (WOk, s2, [])"
      "copied s q d ((R \<union> tree s q (r @ [c])) \<union> (\<Union>c\<in>set cs. tree s q (r @ [c]))) s2"
      by blast
    with Some entry_path [OF ok Some] s1 show ?thesis
      by (intro exI [of _ s2]) (simp add: map_filter_simps Un_assoc)
  qed
qed

lemma walk_step:
  assumes ok: "copyable s q d"
  shows "copied s q d R s' \<Longrightarrow> node_at s (q @ r) = Some n \<Longrightarrow> tree s q r \<inter> R = {} \<Longrightarrow>
      (r \<noteq> [] \<longrightarrow> butlast r \<in> R) \<Longrightarrow> \<forall>x\<in>tree s q r. length x < fuel + length r \<Longrightarrow>
      \<exists>s''. walk_dir fst fuel (copy_entry rec (abs_text q) (abs_text d)) (abs_text (q @ r)) n (s', []) =
              Some (WOk, s'', []) \<and> copied s q d (R \<union> tree s q r) s''"
proof (induction fuel arbitrary: R s' r n)
  case 0
  then have "r \<in> tree s q r" by (auto simp: tree_def intro: exI [of _ "[]"])
  with 0 show ?case by force
next
  case (Suc fuel)
  let ?fn = "copy_entry rec (abs_text q) (abs_text d)"
  let ?cs = "child_names s (q @ r)"
  have wf: "fs_wf s" using ok by (simp add: copyable_def)
  have "r \<notin> R" using Suc.prems(2,3) tree_self [of s q r] by auto
  then obtain s1 where s1: "?fn (s', []) (abs_text (q @ r)) (Some n) None = Some (WOk, s1, [])"
      "copied s q d (insert r R) s1"
    using copy_entry_step [OF ok Suc.prems(1,2)] Suc.prems(4) by blast
  show ?case
  proof (cases "n = NDir")
    case False
    then obtain c m where "n = NFile c m"
      using ok Suc.prems(2) by (cases n) (auto simp: copyable_def)
    then have "tree s q r = {r}" using tree_file [OF wf] Suc.prems(2) by simp
    with False s1 show ?thesis by simp
  next
    case True
    have entry: "\<exists>s''. walk_dir fst fuel ?fn (abs_text (q @ r @ [c])) m (s2, []) = Some (WOk, s'', []) \<and>
        copied s q d (R2 \<union> tree s q (r @ [c])) s''"
      if "copied s q d R2 s2" "node_at s (q @ r @ [c]) = Some m" "r \<in> R2" "tree s q (r @ [c]) \<inter> R2 = {}" for c m R2 s2
    proof (rule Suc.IH [OF that(1,2,4)])
      have "tree s q (r @ [c]) \<subseteq> tree s q r" by (fastforce simp: tree_def)
      then show "\<forall>x\<in>tree s q (r @ [c]). length x < fuel + length (r @ [c])" using Suc.prems(5) by auto
    qed (use that(3) in simp)
    have tr: "tree s q r = insert r (\<Union>c\<in>set ?cs. tree s q (r @ [c]))"
      using tree_dir [OF wf, of q r] Suc.prems(2) by (simp add: set_child_names [OF wf])
    have "r \<notin> (\<Union>c\<in>set ?cs. tree s q (r @ [c]))"
      by (auto simp: tree_def)
    then have disj: "(\<Union>c\<in>set ?cs. tree s q (r @ [c])) \<inter> insert r R = {}"
      using Suc.prems(3) tr by auto
    have "\<exists>s2. walk_entries fst fuel ?fn (abs_text (q @ r))
          (List.map_filter (\<lambda>c. map_option (Pair c) (node_at s (q @ r @ [c]))) ?cs) (s1, []) = Some (WOk, s2, []) \<and>
        copied s q d (insert r R \<union> (\<Union>c\<in>set ?cs. tree s q (r @ [c]))) s2"
      by (rule walk_entries_step [OF ok _ s1(2) distinct_child_names insertI1 disj]) (rule entry)
    then obtain s2 where
      "walk_entries fst fuel ?fn (abs_text (q @ r))
          (List.map_filter (\<lambda>c. map_option (Pair c) (node_at s (q @ r @ [c]))) ?cs) (s1, []) = Some (WOk, s2, [])"
      "copied s q d (R \<union> tree s q r) s2"
      by (auto simp: tr)
    with True s1 show ?thesis
      using copied_listing [OF ok s1(2), of r] Suc.prems(2) by simp
  qed
qed

section \<open>More fuel, same result\<close>

text \<open>The fuel decides whether the copy ends in the model, and nothing else about it.\<close>

lemma walk_dir_more:
  "(\<And>s p d e r. fn s p d e = Some r \<Longrightarrow> fn' s p d e = Some r) \<Longrightarrow> fuel \<le> fuel' \<Longrightarrow>
   walk_dir fsof fuel fn path d s = Some r \<Longrightarrow> walk_dir fsof fuel' fn' path d s = Some r"
  "(\<And>s p d e r. fn s p d e = Some r \<Longrightarrow> fn' s p d e = Some r) \<Longrightarrow> fuel \<le> fuel' \<Longrightarrow>
   walk_entries fsof fuel fn path ents s = Some r \<Longrightarrow> walk_entries fsof fuel' fn' path ents s = Some r"
proof (induction fsof fuel fn path d s and fsof fuel fn path ents s
    arbitrary: fuel' r and fuel' r rule: walk_dir_walk_entries.induct)
  case (2 fsof fuel fn path d s)
  obtain n where n: "fuel' = Suc n" "fuel \<le> n" using "2.prems"(2) by (cases fuel') auto
  obtain r1 s1 where first: "fn s path (Some d) None = Some (r1, s1)" "fn' s path (Some d) None = Some (r1, s1)"
    using "2.prems"(1,3) by (fastforce split: option.splits)
  show ?case
  proof (cases "r1 = WOk \<and> d = NDir")
    case False
    with "2.prems"(3) first n show ?thesis by (cases r1) auto
  next
    case True
    show ?thesis
    proof (cases "os_read_dir (fsof s1) path")
      case (Inl e)
      obtain r2 s2 where "fn s1 path (Some d) (Some e) = Some (r2, s2)"
        using "2.prems"(3) first True Inl by (auto split: option.splits)
      with "2.prems"(1) [OF this] "2.prems"(3) first True Inl n show ?thesis by simp
    next
      case (Inr ents)
      have d: "\<not> d \<noteq> NDir" using True by simp
      have "walk_entries fsof fuel fn path ents s1 = Some r"
        using "2.prems"(3) first True Inr by simp
      from "2.IH" [OF first(1) refl _ d Inr "2.prems"(1) n(2) this]
      have "walk_entries fsof n fn' path ents s1 = Some r" using True by simp
      with first True Inr n show ?thesis by simp
    qed
  qed
next
  case (4 fsof fuel fn path name d ents s)
  obtain r1 s1 where first: "walk_dir fsof fuel fn (path_join [path, name]) d s = Some (r1, s1)"
    using "4.prems"(3) by (auto split: option.splits)
  from "4.IH"(1) [OF "4.prems"(1,2) first]
  have first': "walk_dir fsof fuel' fn' (path_join [path, name]) d s = Some (r1, s1)" by simp
  show ?case
  proof (cases r1)
    case WOk
    then have "walk_entries fsof fuel fn path ents s1 = Some r"
      using "4.prems"(3) first by simp
    from "4.IH"(2) [OF first refl WOk "4.prems"(1,2) this] WOk first' show ?thesis by simp
  qed (use "4.prems"(3) first first' in auto)
qed auto

lemma walk_more:
  assumes more: "\<And>s p d e r. fn s p d e = Some r \<Longrightarrow> fn' s p d e = Some r" and le: "fuel \<le> fuel'"
    and run: "walk fsof fuel fn root s = Some x"
  shows "walk fsof fuel' fn' root s = Some x"
proof (cases "os_lstat (fsof s) root")
  case (Inl e)
  with run obtain r where "fn s root None (Some e) = Some r" by (auto simp: walk_def split: option.splits)
  with more [OF this] run Inl show ?thesis by (simp add: walk_def)
next
  case (Inr d)
  with run obtain r where "walk_dir fsof fuel fn root d s = Some r" by (auto simp: walk_def split: option.splits)
  with walk_dir_more(1) [OF more le this] run Inr show ?thesis by (simp add: walk_def)
qed

lemma copy_entry_more:
  assumes "\<And>src dst s r. rec src dst s = Some r \<Longrightarrow> rec' src dst s = Some r"
    and "copy_entry rec src dst st path d err = Some r"
  shows "copy_entry rec' src dst st path d err = Some r"
  using assms(2)
  by (auto simp: copy_entry_def copySymlink_def Let_def dest: assms(1)
      split: option.splits sum.splits node.splits if_splits prod.splits)

lemma copyTree_more:
  "copyTree fuel src dst s = Some r \<Longrightarrow> fuel \<le> fuel' \<Longrightarrow> copyTree fuel' src dst s = Some r"
proof (induction fuel arbitrary: fuel' src dst s r)
  case (Suc fuel)
  then obtain n where n: "fuel' = Suc n" "fuel \<le> n" by (cases fuel') auto
  have rec: "copyTree n src dst s = Some r" if "copyTree fuel src dst s = Some r" for src dst s r
    using Suc.IH that n(2) by blast
  have entry: "copy_entry (copyTree n) src dst st path d err = Some x"
    if "copy_entry (copyTree fuel) src dst st path d err = Some x" for st path d err x
    using copy_entry_more [OF rec that] .
  have le: "Suc fuel \<le> Suc n" using n(2) by simp
  obtain e st where w: "walk fst (Suc fuel) (copy_entry (copyTree fuel) src dst) src (s, []) = Some (e, st)"
      "r = (e, fst st)"
    using Suc.prems(1) by auto
  from walk_more [OF entry le w(1)] w(2) n(1) show ?case by simp
qed simp

section \<open>Properties\<close>

lemma copyTree_copies:
  assumes "copyable s q d" and "node_at s q = Some NDir"
    and "\<forall>x. node_at s (q @ x) \<noteq> None \<longrightarrow> length x < fuel"
  shows "\<exists>s'. copyTree fuel (abs_text q) (abs_text d) s = Some (None, s') \<and>
     fs_wf s' \<and> fault s' = fault s \<and>
     (\<forall>p. node_at s' p =
        (if under d p then map_option (duplicate s) (node_at s (q @ drop (length d) p)) else node_at s p))"
proof -
  have ok: "fs_wf s" "list_all plain q" "fault s = (\<lambda>_ _. None)" "q \<noteq> []"
    using assms(1) by (auto simp: copyable_def under_def)
  obtain n where fuel: "fuel = Suc n"
    using assms(2,3) by (cases fuel) (auto dest: spec [of _ "[]"])
  have "dir_chain s (butlast q)"
    using dir_chain_wf [OF ok(1)] fs_wf_node(2) [OF ok(1) assms(2) ok(4)] by simp
  then have l: "os_lstat s (abs_text q) = Inr NDir"
    using locate_node [of q s NDir False False] ok assms(2) by (simp add: os_lstat_def stat_with_def)
  have c0: "copied s q d {} s"
    using ok by (simp add: copied_def)
  obtain s' where s': "walk_dir fst fuel (copy_entry (copyTree n) (abs_text q) (abs_text d)) (abs_text q) NDir (s, []) =
      Some (WOk, s', [])" "copied s q d (tree s q []) s'"
    using walk_step [OF assms(1) c0, of "[]" NDir fuel "copyTree n"] assms(2,3)
    by (auto simp: tree_def)
  have "node_at s' p =
      (if under d p then map_option (duplicate s) (node_at s (q @ drop (length d) p)) else node_at s p)" for p
    using s'(2) assms(1) by (auto simp: copied_def tree_def copyable_def)
  moreover have "fs_wf s'" "fault s' = fault s"
    using s'(2) by (simp_all add: copied_def)
  ultimately show ?thesis
    using s'(1) l by (intro exI [of _ s']) (simp add: fuel walk_def)
qed


definition demo_tree :: fsys where
  "demo_tree =
     \<lparr>nodes = [([''m''], NDir), ([''m'', ''main.tf''], NFile ''x'' 438), ([''m'', ''sub''], NDir),
               ([''m'', ''sub'', ''vpc.tf''], NFile ''y'' 420), ([''tmp''], NDir)],
      cwd = [], umask = 18, fault = (\<lambda>_ _. None)\<rparr>"

lemma demo_tree_copyable: "copyable demo_tree [''m''] [''tmp'', ''module'']"
  unfolding copyable_def
proof (intro conjI allI impI)
  show "fs_wf demo_tree"
    by (simp add: fs_wf_def demo_tree_def keys_distinct_def plain_def node_at_def)
qed (auto simp: demo_tree_def node_at_def plain_def under_def split: if_splits)


text \<open>Links: a module with a link to itself, and one with two links to the same file.\<close>

definition loop_tree :: fsys where
  "loop_tree =
     \<lparr>nodes = [([''m''], NDir), ([''m'', ''loop''], NLink ''.''), ([''tmp''], NDir)],
      cwd = [], umask = 18, fault = (\<lambda>_ _. None)\<rparr>"

definition twin_tree :: fsys where
  "twin_tree =
     \<lparr>nodes = [([''m''], NDir), ([''m'', ''a''], NLink ''/f''), ([''m'', ''b''], NLink ''/f''),
               ([''f''], NFile ''x'' 420), ([''tmp''], NDir)],
      cwd = [], umask = 18, fault = (\<lambda>_ _. None)\<rparr>"

text \<open>
  The second of two links to the same file is silently left out of the copy: the copy
  succeeds, the first link has become a file, and the second has no counterpart.
\<close>

theorem second_link_to_a_file_is_dropped:
  "map_option (\<lambda>(err, s'). (err, node_at s' [''tmp'', ''module'', ''a''], node_at s' [''tmp'', ''module'', ''b'']))
     (copyTree 3 ''/m'' ''/tmp/module'' twin_tree) =
   Some (None, Some (NFile ''x'' 420), None)"
  by code_simp

text \<open>A directory \<^verbatim>\<open>/m\<close> whose only entry is a link to itself, and a fresh place \<open>d\<close> outside it.\<close>

definition looping :: "fsys \<Rightarrow> string list \<Rightarrow> bool" where
  "looping s d \<longleftrightarrow>
     fs_wf s \<and> fault s = (\<lambda>_ _. None) \<and> node_at s [''m''] = Some NDir \<and>
     node_at s [''m'', ''loop''] = Some (NLink ''.'') \<and>
     (\<forall>c. node_at s [''m'', c] \<noteq> None \<longrightarrow> c = ''loop'') \<and>
     list_all plain d \<and> d \<noteq> [] \<and> hd d \<noteq> ''m'' \<and> node_at s (butlast d) = Some NDir \<and>
     (\<forall>p. under d p \<longrightarrow> node_at s p = None)"

lemma looping_step:
  assumes "looping s d"
  shows "looping (set_node d NDir s) (d @ [''loop''])"
proof -
  have "d \<noteq> ''m'' # x" for x using assms by (auto simp: looping_def)
  moreover have "fs_wf (set_node d NDir s)"
    using assms by (intro fs_wf_set_node) (auto simp: looping_def)
  moreover have "plain ''loop''" by (simp add: plain_def)
  moreover have "node_at s p = None" "d \<noteq> p" if "under (d @ [''loop'']) p" for p
    using assms underE [OF that] by (auto simp: looping_def)
  ultimately show ?thesis
    using assms by (auto simp: looping_def node_at_set_node)
qed

lemma copy_loop_runs_out: "looping s d \<Longrightarrow> copyTree fuel (abs_text [''m'']) (abs_text d) s = None"
proof (induction fuel arbitrary: s d)
  case (Suc fuel)
  let ?s = "set_node d NDir s"
  let ?fn = "copy_entry (copyTree fuel) (abs_text [''m'']) (abs_text d)"
  note loop = Suc.prems and loop' = looping_step [OF Suc.prems]
  have pm: "plain ''m''" "plain ''loop''" by (simp_all add: plain_def)
  have m: "list_all plain [''m'']" using pm by simp
  have l: "os_lstat s (abs_text [''m'']) = Inr NDir"
    using locate_node [of "[''m'']" s NDir False False] loop pm
    by (simp add: looping_def os_lstat_def stat_with_def)
  obtain e c where d: "d = e @ [c]"
    using loop by (cases d rule: rev_exhaust) (auto simp: looping_def)
  have "node_at s d = None"
    using loop by (simp add: looping_def under_def)
  then have "os_mkdir_all (abs_text d) s = (Inr (), ?s)"
    using mkdir_all_new [of e c s] loop dir_chain_wf [of s e] by (simp add: looping_def d)
  moreover have "path_join [abs_text d, ''.''] = abs_text d"
    using path_join_abs_text [of d "[]"] loop by (simp add: looping_def path_text_def)
  moreover have "path_rel (abs_text [''m'']) (abs_text [''m'']) = Inr ''.''"
    using path_rel_abs_text [of "[''m'']" "[]"] m by (simp add: path_text_def)
  ultimately have root: "?fn (s, []) (abs_text [''m'']) (Some NDir) None = Some (WOk, ?s, [])"
    by (simp add: copy_entry_def)
  have "locate ?s True False (abs_text [''m'']) = Inr [''m'']"
    using locate_node [of "[''m'']" ?s NDir True False] loop' pm by (simp add: looping_def)
  moreover have "child_names ?s [''m''] = [''loop'']"
    using loop' by (intro sorted_distinct_set_unique) (auto simp: set_child_names looping_def)
  ultimately have ents: "os_read_dir ?s (abs_text [''m'']) = Inr [(''loop'', NLink ''.'')]"
    and st: "os_stat ?s (abs_text [''m'']) = Inr NDir"
    using loop' by (simp_all add: looping_def os_read_dir_def map_filter_simps os_stat_def stat_with_def)
  have path: "path_join [abs_text [''m''], ''loop''] = abs_text [''m'', ''loop'']"
    using path_join_abs_text1 [of "[''m'']" "''loop''"] pm by simp
  have dot: "components ''.'' = []" "\<not> rooted ''.''"
    by (simp_all add: components_def rooted_def)
  have "eval_symlinks ?s (abs_text [''m'', ''loop'']) = Inr (abs_text [''m''])"
    using loop' pm dot by (simp add: eval_symlinks_def looping_def) (simp add: abs_text_def)
  moreover have "copyTree fuel (abs_text [''m'']) (abs_text (d @ [''loop''])) ?s = None"
    using loop' by (rule Suc.IH)
  moreover have "path_rel (abs_text [''m'']) (abs_text [''m'', ''loop'']) = Inr ''loop''"
    using path_rel_abs_text [of "[''m'']" "[''loop'']"] pm by (simp add: path_text_def)
  moreover have "path_join [abs_text d, ''loop''] = abs_text (d @ [''loop''])"
    using path_join_abs_text1 [of d "''loop''"] loop pm by (simp add: looping_def)
  ultimately have "?fn (?s, []) (abs_text [''m'', ''loop'']) (Some (NLink ''.'')) None = None"
    using st by (simp add: copy_entry_def copySymlink_def Let_def)
  then have "walk_dir fst fuel ?fn (abs_text [''m'', ''loop'']) (NLink ''.'') (?s, []) = None"
    by (cases fuel) simp_all
  then show ?case
    by (simp add: walk_def l root ents path)
qed simp

text \<open>
  C36.  A link to its own directory is not rejected: \<^verbatim>\<open>copyTree\<close> descends through it again and
  again, since each nested call starts with an empty \<^verbatim>\<open>seen\<close>; no amount of fuel ends the
  copy as long as no call fails (on a real system, until the path is too long).
\<close>

theorem self_link_is_copied_for_ever:
  "copyTree fuel ''/m'' ''/tmp/module'' loop_tree = None"
proof -
  have "looping loop_tree [''tmp'', ''module'']"
    unfolding looping_def
  proof (intro conjI allI impI)
    show "fs_wf loop_tree"
      by (simp add: fs_wf_def loop_tree_def keys_distinct_def plain_def node_at_def)
  qed (auto simp: loop_tree_def node_at_def plain_def under_def split: if_splits)
  from copy_loop_runs_out [OF this] show ?thesis
    by (simp add: abs_text_def path_text_def)
qed

end
