(* ===== verification/Naming.thy ===== *)
theory Naming
  imports Testing "HOL-Library.Word"
begin

unbundle bit_operations_syntax

text \<open>
  \<^verbatim>\<open>internal/naming/prefix.go\<close>: the prefix of a test case, with \<^verbatim>\<open>crypto/sha256\<close> on 32-bit
  words.  The process id and the clock are arguments.
\<close>

section \<open>SHA-256\<close>

text \<open>
  The constants, as the standard defines them: the first 32 bits of the fractional parts of the
  cube roots of the first 64 primes, and of the square roots of the first 8.  \<open>whole_root\<close> finds
  a root bit by bit.
\<close>

definition primes_upto :: "nat \<Rightarrow> nat list" where
  "primes_upto m = filter (\<lambda>n. list_all (\<lambda>d. n mod d \<noteq> 0) [2..<n]) [2..<Suc m]"

fun whole_root :: "nat \<Rightarrow> nat \<Rightarrow> nat \<Rightarrow> nat \<Rightarrow> nat" where
  "whole_root k x 0 r = r"
| "whole_root k x (Suc b) r = whole_root k x b (if (r + 2 ^ b) ^ k \<le> x then r + 2 ^ b else r)"

definition root_fraction :: "nat \<Rightarrow> nat \<Rightarrow> 32 word" where
  "root_fraction k p = word_of_nat (whole_root k (p * 2 ^ (32 * k)) 40 0)"

definition sha_k :: "32 word list" where
  "sha_k = map (root_fraction 3) (primes_upto 311)"

type_synonym sha_state = "32 word list"

definition sha_init :: sha_state where
  "sha_init = map (root_fraction 2) (primes_upto 19)"

definition rotr :: "nat \<Rightarrow> 32 word \<Rightarrow> 32 word" where
  "rotr n x = drop_bit n x OR push_bit (32 - n) x"

definition be_word :: "string \<Rightarrow> 32 word" where
  "be_word bs = fold (\<lambda>b acc. push_bit 8 acc OR word_of_nat (of_char b)) bs 0"

fun be_words :: "string \<Rightarrow> 32 word list" where
  "be_words (a # b # c # d # bs) = be_word [a, b, c, d] # be_words bs"
| "be_words _ = []"

definition be_bytes :: "nat \<Rightarrow> nat \<Rightarrow> string" where
  "be_bytes width n = map (\<lambda>i. char_of (n div 256 ^ i mod 256)) (rev [0..<width])"

text \<open>Padding: a bit 1, zeros, and the length in bits, up to a multiple of 64 bytes.\<close>

definition sha_pad :: "string \<Rightarrow> string" where
  "sha_pad msg =
     msg @ [CHR 0x80] @ replicate ((119 - length msg mod 64) mod 64) (CHR 0x00) @
     be_bytes 8 (8 * length msg mod 2 ^ 64)"

text \<open>The message schedule, newest word first.\<close>

fun sha_extend :: "nat \<Rightarrow> 32 word list \<Rightarrow> 32 word list" where
  "sha_extend 0 ws = ws"
| "sha_extend (Suc n) ws =
     (let w15 = ws ! 14; w2 = ws ! 1;
          s0 = rotr 7 w15 XOR rotr 18 w15 XOR drop_bit 3 w15;
          s1 = rotr 17 w2 XOR rotr 19 w2 XOR drop_bit 10 w2
      in sha_extend n ((s1 + ws ! 6 + s0 + ws ! 15) # ws))"

fun sha_round :: "32 word \<times> 32 word \<Rightarrow> sha_state \<Rightarrow> sha_state" where
  "sha_round (k, w) [a, b, c, d, e, f, g, h] =
     (let s1 = rotr 6 e XOR rotr 11 e XOR rotr 25 e;
          ch = (e AND f) XOR (NOT e AND g);
          t1 = h + s1 + ch + k + w;
          s0 = rotr 2 a XOR rotr 13 a XOR rotr 22 a;
          maj = (a AND b) XOR (a AND c) XOR (b AND c)
      in [t1 + (s0 + maj), a, b, c, d + t1, e, f, g])"
| "sha_round _ st = st"

definition sha_block :: "string \<Rightarrow> sha_state \<Rightarrow> sha_state" where
  "sha_block bs st =
     map2 (+) st (fold sha_round (zip sha_k (rev (sha_extend 48 (rev (be_words bs))))) st)"

fun sha_blocks :: "nat \<Rightarrow> string \<Rightarrow> sha_state \<Rightarrow> sha_state" where
  "sha_blocks 0 bs st = st"
| "sha_blocks (Suc n) bs st = sha_blocks n (drop 64 bs) (sha_block (take 64 bs) st)"

definition sha256 :: "string \<Rightarrow> string" where
  "sha256 msg =
     (let padded = sha_pad msg in
      concat (map (\<lambda>w. be_bytes 4 (unat w)) (sha_blocks (length padded div 64) padded sha_init)))"

section \<open>Prefixes\<close>

definition Prefix :: "(('t, 'x, 'm) world_scheme, 'c) tb_iface \<Rightarrow> nat \<Rightarrow> int \<Rightarrow> ('t, 'x, 'm) world_scheme \<Rightarrow> string" where
  "Prefix I pid nanos w =
     (let sum = sha256 (m_name I w @ '':'' @ itoa (int pid) @ '':'' @ itoa nanos)
      in ''ltt-'' @ take 6 (hex_encode sum))"

lemma length_sha_init: "length sha_init = 8"
proof -
  have "length (primes_upto 19) = 8" by code_simp
  then show ?thesis by (simp add: sha_init_def)
qed

lemma length_sha_round: "length st = 8 \<Longrightarrow> length (sha_round kw st) = 8"
  by (cases "(kw, st)" rule: sha_round.cases) (simp_all add: Let_def)

lemma length_sha_block: "length st = 8 \<Longrightarrow> length (sha_block bs st) = 8"
proof -
  have "length (fold sha_round kws st) = 8" if "length st = 8" for kws and st :: sha_state
    using that by (induction kws arbitrary: st) (simp_all add: length_sha_round)
  then show "length st = 8 \<Longrightarrow> length (sha_block bs st) = 8"
    by (simp add: sha_block_def)
qed

lemma length_sha256: "length (sha256 msg) = 32"
proof -
  have "length (sha_blocks n bs st) = 8" if "length st = 8" for n bs and st :: sha_state
    using that by (induction n arbitrary: bs st) (simp_all add: length_sha_block)
  then have "length (sha_blocks n bs sha_init) = 8" for n bs
    by (simp add: length_sha_init)
  then show ?thesis
    by (simp add: sha256_def Let_def length_concat comp_def be_bytes_def sum_list_triv)
qed

text \<open>
  C40.  A prefix always has the documented form, for any test name, process and time: ten
  characters, \<^verbatim>\<open>ltt-\<close> and six lower-case hexadecimal digits, so it can be used in the name of
  any AWS resource; and it is a function of the test's name, the process and the time alone.
\<close>

theorem prefix_format:
  "length (Prefix I pid nanos w) = 10 \<and> take 4 (Prefix I pid nanos w) = ''ltt-'' \<and>
   set (drop 4 (Prefix I pid nanos w)) \<subseteq> set hex_chars \<and>
   Prefix I pid nanos w = Prefix (I\<lparr>m_name := (\<lambda>_. m_name I w)\<rparr>) pid nanos w'"
proof -
  have "length (hex_encode (sha256 m)) = 64" for m
    by (simp add: length_hex_encode length_sha256)
  then show ?thesis
    using hex_encode_chars by (auto simp: Prefix_def Let_def eval_nat_numeral dest!: in_set_takeD)
qed

end
