(* ===== verification/Artifacts.thy ===== *)
theory Artifacts
  imports Testing Fake_TB
begin

text \<open>
  \<^verbatim>\<open>internal/logx/dump.go\<close>: where test artifacts go and how they are written.  The logger it
  also makes writes to standard error only and is not modelled.
\<close>

section \<open>Writing artifacts\<close>

definition artifactDirEnv :: string where
  "artifactDirEnv = ''LIBTFTEST_ARTIFACT_DIR''"

definition writeFile ::
  "(('t, 'x, 'm) world_scheme, 'c) tb_iface \<Rightarrow> string \<Rightarrow> string \<Rightarrow> string \<Rightarrow> (('t, 'x, 'm) world_scheme, unit) act"
where
  "writeFile I dir name data w =
     (case os_mkdir_all dir (w_fs w) of
        (Inl err, s) \<Rightarrow> m_errorf I ''create artifact dir %s: %v'' [AStr dir, AErr err] (w\<lparr>w_fs := s\<rparr>)
      | (Inr _, s) \<Rightarrow>
          (let path = path_join [dir, name] in
           case os_write_file path data 416 s of
             (Inl err, s') \<Rightarrow> m_errorf I ''write artifact %s: %v'' [AStr path, AErr err] (w\<lparr>w_fs := s'\<rparr>)
           | (Inr _, s') \<Rightarrow> m_logf I ''artifact written: %s'' [AStr path] (w\<lparr>w_fs := s'\<rparr>)))"

definition DumpArtifact ::
  "(('t, 'x, 'm) world_scheme, 'c) tb_iface \<Rightarrow> string \<Rightarrow> string \<Rightarrow> string \<Rightarrow> (('t, 'x, 'm) world_scheme, unit) act"
where
  "DumpArtifact I artifactDir name data =
     andthen (writeFile I artifactDir name data) (\<lambda>w.
       let ciBase = getenv w artifactDirEnv in
       if ciBase \<noteq> [] then writeFile I (path_join [ciBase, m_name I w]) name data w else (Ret (), w))"

definition ResolveArtifactDir ::
  "(('t, 'x, 'm) world_scheme, 'c) tb_iface \<Rightarrow> string \<Rightarrow> ('t, 'x, 'm) world_scheme \<Rightarrow> string"
where
  "ResolveArtifactDir I baseDir w =
     (let ciBase = getenv w artifactDirEnv in
      if ciBase \<noteq> [] then path_join [ciBase, m_name I w]
      else path_join [baseDir, ''libtftest-artifacts''])"

text \<open>A logger of \<^verbatim>\<open>log/slog\<close> on standard error: its level and the attributes of each record.\<close>

record logger =
  lg_level :: string
  lg_attrs :: "(string \<times> string) list"

definition NewLogger :: "(('t, 'x, 'm) world_scheme, 'c) tb_iface \<Rightarrow> ('t, 'x, 'm) world_scheme \<Rightarrow> logger" where
  "NewLogger I w = \<lparr>lg_level = ''DEBUG'', lg_attrs = [(''test'', m_name I w)]\<rparr>"

section \<open>Properties\<close>

text \<open>What artifact code may change: the handle, without registering anything, and the file system.\<close>

definition only_handle_and_files ::
  "('t \<Rightarrow> 'c list) \<Rightarrow> ('t, 'x, 'm) world_scheme \<Rightarrow> ('t, 'x, 'm) world_scheme \<Rightarrow> bool"
where
  "only_handle_and_files cleanups_of w w' \<longleftrightarrow>
     (\<exists>t s. w' = w\<lparr>w_tb := t, w_fs := s\<rparr> \<and> cleanups_of t = cleanups_of (w_tb w))"

lemma only_handle_and_files_trans:
  "only_handle_and_files c w w' \<Longrightarrow> only_handle_and_files c w' w'' \<Longrightarrow> only_handle_and_files c w w''"
  by (fastforce simp: only_handle_and_files_def)

lemma only_handle_and_files_fs: "only_handle_and_files c (w\<lparr>w_fs := s\<rparr>) w' \<Longrightarrow> only_handle_and_files c w w'"
  by (force simp: only_handle_and_files_def)

context test_handle
begin

lemma errorf_only_handle: "\<exists>w'. m_errorf I f as w = (Ret (), w') \<and> only_handle_and_files cleanups_of w w'"
proof -
  obtain t where t: "m_errorf I f as w = (Ret (), w\<lparr>w_tb := t\<rparr>)" "cleanups_of t = cleanups_of (w_tb w)"
    using errorf_law by metis
  have "only_handle_and_files cleanups_of w (w\<lparr>w_tb := t\<rparr>)"
    using t(2) unfolding only_handle_and_files_def by (intro exI [of _ t] exI [of _ "w_fs w"]) simp
  with t(1) show ?thesis by simp
qed

lemma logf_only_handle: "\<exists>w'. m_logf I f as w = (Ret (), w') \<and> only_handle_and_files cleanups_of w w'"
proof -
  obtain t where t: "m_logf I f as w = (Ret (), w\<lparr>w_tb := t\<rparr>)" "cleanups_of t = cleanups_of (w_tb w)"
    using logf_law by metis
  have "only_handle_and_files cleanups_of w (w\<lparr>w_tb := t\<rparr>)"
    using t(2) unfolding only_handle_and_files_def by (intro exI [of _ t] exI [of _ "w_fs w"]) simp
  with t(1) show ?thesis by simp
qed

lemma writeFile_only_handle:
  "\<exists>w'. writeFile I dir name data w = (Ret (), w') \<and> only_handle_and_files cleanups_of w w'"
  using errorf_only_handle logf_only_handle
  by (auto simp: writeFile_def Let_def split: prod.split sum.split)
     (metis only_handle_and_files_fs)+

lemma DumpArtifact_only_handle:
  "\<exists>w'. DumpArtifact I dir name data w = (Ret (), w') \<and> only_handle_and_files cleanups_of w w'"
proof -
  obtain w1 where w1: "writeFile I dir name data w = (Ret (), w1)" "only_handle_and_files cleanups_of w w1"
    using writeFile_only_handle by blast
  obtain w2 where w2: "writeFile I (path_join [getenv w1 artifactDirEnv, m_name I w1]) name data w1 = (Ret (), w2)"
      "only_handle_and_files cleanups_of w1 w2"
    using writeFile_only_handle by blast
  show ?thesis
    using w1 w2 only_handle_and_files_trans [OF w1(2) w2(2)]
    by (auto simp: DumpArtifact_def act_simps Let_def)
qed

end

text \<open>
  An artifact reaches its readers: when the directories exist or can be made and no call
  fails, a dumped artifact is afterwards in the artifact directory of the test, whether or
  not the environment names a directory for all artifacts, and, when it does, in the test's
  part of that directory as well.  Here for the real \<^verbatim>\<open>testing.T\<close>, an existing artifact
  directory \<open>a\<close> and an existing directory \<open>c\<close> of the test below the one named.
\<close>

theorem artifact_is_written_to_both_places:
  fixes w :: "('c, 'x, 'm) tworld"
  assumes "fs_wf (w_fs w)" and "fault (w_fs w) = (\<lambda>_ _. None)" and "list_all plain (a @ [n])" and "list_all plain (c @ [t_name (w_tb w)])"
    and "node_at (w_fs w) a = Some NDir" and "node_at (w_fs w) (c @ [t_name (w_tb w)]) = Some NDir"
    and "node_at (w_fs w) (a @ [n]) = None" and "node_at (w_fs w) (c @ [t_name (w_tb w), n]) = None"
    and "w_env w artifactDirEnv = Some (abs_text c)"
  shows "\<exists>w' m m'. DumpArtifact (real_tb rm) (abs_text a) n data w = (Ret (), w') \<and>
     t_failed (w_tb w') = t_failed (w_tb w) \<and>
     node_at (w_fs w') (a @ [n]) = Some (NFile data m) \<and>
     node_at (w_fs w') (c @ [t_name (w_tb w), n]) = Some (NFile data m')"
proof -
  let ?c = "c @ [t_name (w_tb w)]"
  have step: "\<exists>w' m. writeFile (real_tb rm) (abs_text d) n data v = (Ret (), w') \<and>
      t_failed (w_tb w') = t_failed (w_tb v) \<and> t_name (w_tb w') = t_name (w_tb v) \<and> w_env w' = w_env v \<and>
      fs_wf (w_fs w') \<and> fault (w_fs w') = fault (w_fs v) \<and>
      (\<forall>p. node_at (w_fs w') p = (if p = d @ [n] then Some (NFile data m) else node_at (w_fs v) p))"
    if v: "fs_wf (w_fs v)" "fault (w_fs v) = (\<lambda>_ _. None)" "list_all plain (d @ [n])"
      "node_at (w_fs v) d = Some NDir" "\<forall>t. node_at (w_fs v) (d @ [n]) \<noteq> Some (NLink t)"
      "node_at (w_fs v) (d @ [n]) \<noteq> Some NDir" for v :: "('c, 'x, 'm) tworld" and d
  proof -
    have mk: "os_mkdir_all (abs_text d) (w_fs v) = (Inr (), w_fs v)"
      using mkdir_all_existing [of d "w_fs v"] v dir_chain_wf [of "w_fs v" d] by simp
    obtain s m where s: "os_write_file (abs_text (d @ [n])) data 416 (w_fs v) = (Inr (), s)" "fs_wf s"
      "fault s = fault (w_fs v)" "\<forall>p. node_at s p = (if p = d @ [n] then Some (NFile data m) else node_at (w_fs v) p)"
      using write_file_in_dir [of "w_fs v" d n data 416] v by auto
    with mk v show ?thesis
      by (intro exI [of _ "snd (real_logf ''artifact written: %s'' [AStr (abs_text (d @ [n]))] (v\<lparr>w_fs := s\<rparr>))"] exI [of _ m])
         (simp add: writeFile_def Let_def real_tb_defs)
  qed
  obtain w1 m1 where w1: "writeFile (real_tb rm) (abs_text a) n data w = (Ret (), w1)"
      "t_failed (w_tb w1) = t_failed (w_tb w)" "t_name (w_tb w1) = t_name (w_tb w)" "w_env w1 = w_env w"
      "fs_wf (w_fs w1)" "fault (w_fs w1) = fault (w_fs w)"
      "\<forall>p. node_at (w_fs w1) p = (if p = a @ [n] then Some (NFile data m1) else node_at (w_fs w) p)"
    using step [of w a] assms by auto
  have dn: "?c \<noteq> a @ [n]" using assms(6,7) by auto
  have pre: "node_at (w_fs w1) ?c = Some NDir"
      "node_at (w_fs w1) (?c @ [n]) = (if ?c = a then Some (NFile data m1) else None)"
    using w1(7) assms(6,8) dn by simp_all
  have "list_all plain (?c @ [n])" "\<forall>t. node_at (w_fs w1) (?c @ [n]) \<noteq> Some (NLink t)"
      "node_at (w_fs w1) (?c @ [n]) \<noteq> Some NDir" "fault (w_fs w1) = (\<lambda>_ _. None)"
    using pre(2) assms(2,3,4) w1(6) by (simp_all split: if_splits)
  then obtain w2 m2 where w2: "writeFile (real_tb rm) (abs_text ?c) n data w1 = (Ret (), w2)"
      "t_failed (w_tb w2) = t_failed (w_tb w1)"
      "\<forall>p. node_at (w_fs w2) p = (if p = ?c @ [n] then Some (NFile data m2) else node_at (w_fs w1) p)"
    using step [of w1 ?c] w1(5) pre(1) by blast
  have ci: "getenv w1 artifactDirEnv = abs_text c"
    using w1(4) assms(9) by (simp add: getenv_def)
  have "path_join [abs_text c, t_name (w_tb w)] = abs_text ?c"
    using assms(4) by simp
  moreover have "m_name (real_tb rm) w1 = t_name (w_tb w)"
    using w1(3) by (simp add: real_tb_def)
  ultimately have "DumpArtifact (real_tb rm) (abs_text a) n data w = (Ret (), w2)"
    using w1(1) w2(1) ci by (simp add: DumpArtifact_def act_simps Let_def)
  moreover have "\<exists>m. node_at (w_fs w2) (a @ [n]) = Some (NFile data m)"
    using w1(7) w2(3) by simp
  ultimately show ?thesis
    using w1(2) w2(2,3) by auto
qed

definition demo_test_world :: "string \<Rightarrow> fsys \<Rightarrow> (unit, unit, unit) tworld" where
  "demo_test_world name s =
     \<lparr>w_tb = \<lparr>t_name = name, t_failed = False, t_skipped = False, t_cleanups = [], t_output = [],
              t_temp = [], t_seq = 0\<rparr>,
      w_env = (\<lambda>k. if k = artifactDirEnv then Some ''/ci'' else None), w_goos = ''linux'', w_fs = s,
      w_rand = [], w_cancelled = [], w_trace = [], \<dots> = ()\<rparr>"

definition demo_artifact_fs :: fsys where
  "demo_artifact_fs =
     \<lparr>nodes = [([''a''], NDir), ([''ci''], NDir), ([''ci'', ''TestX''], NDir)],
      cwd = [], umask = 18, fault = (\<lambda>_ _. None)\<rparr>"

theorem artifact_is_written_to_both_places_witness:
  "\<exists>w' m m'. DumpArtifact (real_tb (\<lambda>_. ())) (abs_text [''a'']) ''plan.bin'' ''data''
       (demo_test_world ''TestX'' demo_artifact_fs) = (Ret (), w') \<and>
     node_at (w_fs w') [''a'', ''plan.bin''] = Some (NFile ''data'' m) \<and>
     node_at (w_fs w') [''ci'', ''TestX'', ''plan.bin''] = Some (NFile ''data'' m')"
proof -
  let ?w = "demo_test_world ''TestX'' demo_artifact_fs"
  have "fs_wf (w_fs ?w)"
    by (simp add: demo_test_world_def fs_wf_def demo_artifact_fs_def keys_distinct_def plain_def node_at_def)
  moreover have "w_env ?w artifactDirEnv = Some (abs_text [''ci''])"
    by (simp add: demo_test_world_def abs_text_def path_text_def)
  ultimately show ?thesis
    using artifact_is_written_to_both_places 
        [where w = ?w and a = "[''a'']" and n = "''plan.bin''" and c = "[''ci'']"
          and rm = "\<lambda>_. ()" and data = "''data''"]
    by (auto simp: demo_test_world_def demo_artifact_fs_def plain_def node_at_def)
qed

end
