(* ===== verification/Aws.thy ===== *)
theory Aws
  imports Outside
begin

text \<open>
  Package \<^verbatim>\<open>awsx\<close>: the configuration that points the AWS SDK at LocalStack, and the clients.
  The SDK's operations are the record \<open>aws_api\<close> of answers; a pointer field of an SDK result
  is an option.  Each operation is one call, on a client, with its name and arguments.
\<close>

section \<open>Operations of the SDK\<close>

type_synonym sdk_tags = "(string option \<times> string option) list"

record public_access =
  pa_block_acls :: "bool option"
  pa_block_policy :: "bool option"
  pa_ignore_acls :: "bool option"
  pa_restrict_buckets :: "bool option"

text \<open>
  \<open>aw_do\<close> answers the operations of which only the error is used.  Encryption: the rules, each
  with its default algorithm if it has a default, or no configuration at all.
\<close>

record aws_api =
  aw_load :: "bool \<Rightarrow> string \<Rightarrow> call list \<Rightarrow> go_error + aws_config"
  aw_do :: "bool \<Rightarrow> aws_client \<Rightarrow> string \<Rightarrow> string list \<Rightarrow> call list \<Rightarrow> go_error option"
  aw_encryption :: "bool \<Rightarrow> aws_client \<Rightarrow> string \<Rightarrow> call list \<Rightarrow> go_error + string option list option"
  aw_versioning :: "bool \<Rightarrow> aws_client \<Rightarrow> string \<Rightarrow> call list \<Rightarrow> go_error + string"
  aw_public_access :: "bool \<Rightarrow> aws_client \<Rightarrow> string \<Rightarrow> call list \<Rightarrow> go_error + public_access option"
  aw_tagging :: "bool \<Rightarrow> aws_client \<Rightarrow> string \<Rightarrow> call list \<Rightarrow> go_error + sdk_tags"
  aw_parameter :: "bool \<Rightarrow> aws_client \<Rightarrow> string \<Rightarrow> call list \<Rightarrow> go_error + string option option"
  aw_resources :: "bool \<Rightarrow> aws_client \<Rightarrow> string list \<Rightarrow> call list \<Rightarrow> go_error + (string option \<times> sdk_tags) list"

text \<open>An operation called with the context \<open>ctx\<close>.\<close>

definition aws_call ::
  "ctx \<Rightarrow> aws_client \<Rightarrow> string \<Rightarrow> string list \<Rightarrow> (bool \<Rightarrow> call list \<Rightarrow> 'a) \<Rightarrow> (('t, 'm) cworld, 'a) act"
where
  "aws_call ctx client op args answer w =
     (let over = ctx_done w ctx in ask (AwsCall over client op args) (answer over) w)"

lemma aws_call_run [act_simps]:
  "aws_call ctx client op args answer w =
     (Ret (answer (ctx_done w ctx) (w_trace w)),
      w\<lparr>w_trace := w_trace w @ [AwsCall (ctx_done w ctx) client op args]\<rparr>)"
  by (simp add: aws_call_def ask_run Let_def)

definition aws_do ::
  "'z aws_api_scheme \<Rightarrow> ctx \<Rightarrow> aws_client \<Rightarrow> string \<Rightarrow> string list \<Rightarrow> (('t, 'm) cworld, go_error option) act"
where
  "aws_do a ctx client op args = aws_call ctx client op args (\<lambda>over. aw_do a over client op args)"

section \<open>Configuration and clients\<close>

definition load_config :: "'z aws_api_scheme \<Rightarrow> ctx \<Rightarrow> string \<Rightarrow> (('t, 'm) cworld, go_error + aws_config) act" where
  "load_config a ctx edgeURL w =
     (let over = ctx_done w ctx in ask (LoadAwsConfig over edgeURL) (aw_load a over edgeURL) w)"

definition awsx_New :: "'z aws_api_scheme \<Rightarrow> ctx \<Rightarrow> string \<Rightarrow> (('t, 'm) cworld, go_error + aws_config) act" where
  "awsx_New a ctx edgeURL =
     bnd (load_config a ctx edgeURL) (\<lambda>r.
       case r of Inl err \<Rightarrow> ret (Inl (ErrWrap ''load aws config'' err)) | Inr cfg \<Rightarrow> ret (Inr cfg))"

definition client :: "string \<Rightarrow> bool \<Rightarrow> aws_config \<Rightarrow> aws_client" where
  "client service pathStyle cfg = \<lparr>cl_service = service, cl_config = cfg, cl_path_style = pathStyle\<rparr>"

definition NewS3 :: "aws_config \<Rightarrow> aws_client" where "NewS3 = client ''s3'' True"
definition NewDynamoDB :: "aws_config \<Rightarrow> aws_client" where "NewDynamoDB = client ''dynamodb'' False"
definition NewIAM :: "aws_config \<Rightarrow> aws_client" where "NewIAM = client ''iam'' False"
definition NewSSM :: "aws_config \<Rightarrow> aws_client" where "NewSSM = client ''ssm'' False"
definition NewSecrets :: "aws_config \<Rightarrow> aws_client" where "NewSecrets = client ''secretsmanager'' False"
definition NewSQS :: "aws_config \<Rightarrow> aws_client" where "NewSQS = client ''sqs'' False"
definition NewSNS :: "aws_config \<Rightarrow> aws_client" where "NewSNS = client ''sns'' False"
definition NewLambda :: "aws_config \<Rightarrow> aws_client" where "NewLambda = client ''lambda'' False"
definition NewKMS :: "aws_config \<Rightarrow> aws_client" where "NewKMS = client ''kms'' False"
definition NewKinesis :: "aws_config \<Rightarrow> aws_client" where "NewKinesis = client ''kinesis'' False"
definition NewSTS :: "aws_config \<Rightarrow> aws_client" where "NewSTS = client ''sts'' False"
definition NewResourceGroupsTagging :: "aws_config \<Rightarrow> aws_client" where
  "NewResourceGroupsTagging = client ''resourcegroupstaggingapi'' False"

end
