(* ===== verification/Fixtures.thy ===== *)
theory Fixtures
  imports Aws
begin

text \<open>
  Packages \<^verbatim>\<open>fixtures/s3\<close>, \<^verbatim>\<open>ssm\<close>, \<^verbatim>\<open>secretsmanager\<close> and \<^verbatim>\<open>sqs\<close>: create something in AWS for
  the test, and register its deletion.  What a registered closure does when it runs is the
  definition \<open>delete_...\<close> after each.
\<close>

section \<open>Seeding\<close>

text \<open>The shape of every fixture: create, stop the test on an error, go on with \<open>rest\<close>.\<close>

definition seed ::
  "(('t, 'm) cworld, 'c) tb_iface \<Rightarrow> 'z aws_api_scheme \<Rightarrow> ctx \<Rightarrow> aws_client \<Rightarrow> string \<Rightarrow> string list \<Rightarrow> string \<Rightarrow>
   arg list \<Rightarrow> (('t, 'm) cworld, unit) act \<Rightarrow> (('t, 'm) cworld, unit) act"
where
  "seed I a ctx cl op args msg margs rest =
     bnd (aws_do a ctx cl op args) (\<lambda>err.
       andthen (case err of None \<Rightarrow> skip | Some e \<Rightarrow> m_fatalf I msg (margs @ [AErr e])) rest)"

definition SeedObjectContext ::
  "(('t, 'm) cworld, cleanup) tb_iface \<Rightarrow> 'z aws_api_scheme \<Rightarrow> ctx \<Rightarrow> aws_config \<Rightarrow> string \<Rightarrow> string \<Rightarrow> string \<Rightarrow>
   (('t, 'm) cworld, unit) act"
where
  "SeedObjectContext I a ctx cfg bucket key body =
     seed I a ctx (NewS3 cfg) ''PutObject'' [bucket, key, body] ''SeedObject(%s/%s): %v'' [AStr bucket, AStr key]
       (m_cleanup I (DeleteObject (WithoutCancel ctx) (NewS3 cfg) bucket key))"

definition delete_object ::
  "(('t, 'm) cworld, 'c) tb_iface \<Rightarrow> 'z aws_api_scheme \<Rightarrow> ctx \<Rightarrow> aws_client \<Rightarrow> string \<Rightarrow> string \<Rightarrow>
   (('t, 'm) cworld, unit) act"
where
  "delete_object I a ctx cl bucket key =
     bnd (aws_do a ctx cl ''DeleteObject'' [bucket, key]) (\<lambda>err.
       case err of None \<Rightarrow> skip
       | Some e \<Rightarrow> m_errorf I ''cleanup SeedObject(%s/%s): %v'' [AStr bucket, AStr key, AErr e])"

definition SeedObject ::
  "(('t, 'm) cworld, cleanup) tb_iface \<Rightarrow> 'z aws_api_scheme \<Rightarrow> aws_config \<Rightarrow> string \<Rightarrow> string \<Rightarrow> string \<Rightarrow>
   (('t, 'm) cworld, unit) act"
where
  "SeedObject I a cfg bucket key body w = SeedObjectContext I a (m_context I w) cfg bucket key body w"

definition SeedParameterContext ::
  "(('t, 'm) cworld, cleanup) tb_iface \<Rightarrow> 'z aws_api_scheme \<Rightarrow> ctx \<Rightarrow> aws_config \<Rightarrow> string \<Rightarrow> string \<Rightarrow> bool \<Rightarrow>
   (('t, 'm) cworld, unit) act"
where
  "SeedParameterContext I a ctx cfg name value secure =
     seed I a ctx (NewSSM cfg) ''PutParameter'' [name, value, if secure then ''SecureString'' else ''String'']
       ''SeedParameter(%s): %v'' [AStr name]
       (m_cleanup I (DeleteParameter (WithoutCancel ctx) (NewSSM cfg) name))"

definition delete_parameter ::
  "(('t, 'm) cworld, 'c) tb_iface \<Rightarrow> 'z aws_api_scheme \<Rightarrow> ctx \<Rightarrow> aws_client \<Rightarrow> string \<Rightarrow> (('t, 'm) cworld, unit) act"
where
  "delete_parameter I a ctx cl name =
     bnd (aws_do a ctx cl ''DeleteParameter'' [name]) (\<lambda>err.
       case err of None \<Rightarrow> skip
       | Some e \<Rightarrow> m_errorf I ''cleanup SeedParameter(%s): %v'' [AStr name, AErr e])"

definition SeedParameter ::
  "(('t, 'm) cworld, cleanup) tb_iface \<Rightarrow> 'z aws_api_scheme \<Rightarrow> aws_config \<Rightarrow> string \<Rightarrow> string \<Rightarrow> bool \<Rightarrow>
   (('t, 'm) cworld, unit) act"
where
  "SeedParameter I a cfg name value secure w = SeedParameterContext I a (m_context I w) cfg name value secure w"

definition SeedSecretContext ::
  "(('t, 'm) cworld, cleanup) tb_iface \<Rightarrow> 'z aws_api_scheme \<Rightarrow> ctx \<Rightarrow> aws_config \<Rightarrow> string \<Rightarrow> string \<Rightarrow>
   (('t, 'm) cworld, unit) act"
where
  "SeedSecretContext I a ctx cfg name value =
     seed I a ctx (NewSecrets cfg) ''CreateSecret'' [name, value] ''SeedSecret(%s): %v'' [AStr name]
       (m_cleanup I (DeleteSecret (WithoutCancel ctx) (NewSecrets cfg) name))"

definition delete_secret ::
  "(('t, 'm) cworld, 'c) tb_iface \<Rightarrow> 'z aws_api_scheme \<Rightarrow> ctx \<Rightarrow> aws_client \<Rightarrow> string \<Rightarrow> (('t, 'm) cworld, unit) act"
where
  "delete_secret I a ctx cl name =
     bnd (aws_do a ctx cl ''DeleteSecret'' [name, ''ForceDeleteWithoutRecovery'']) (\<lambda>err.
       case err of None \<Rightarrow> skip
       | Some e \<Rightarrow> m_errorf I ''cleanup SeedSecret(%s): %v'' [AStr name, AErr e])"

definition SeedSecret ::
  "(('t, 'm) cworld, cleanup) tb_iface \<Rightarrow> 'z aws_api_scheme \<Rightarrow> aws_config \<Rightarrow> string \<Rightarrow> string \<Rightarrow>
   (('t, 'm) cworld, unit) act"
where
  "SeedSecret I a cfg name value w = SeedSecretContext I a (m_context I w) cfg name value w"

definition SeedMessageContext ::
  "(('t, 'm) cworld, 'c) tb_iface \<Rightarrow> 'z aws_api_scheme \<Rightarrow> ctx \<Rightarrow> aws_config \<Rightarrow> string \<Rightarrow> string \<Rightarrow>
   (('t, 'm) cworld, unit) act"
where
  "SeedMessageContext I a ctx cfg queueURL body =
     seed I a ctx (NewSQS cfg) ''SendMessage'' [queueURL, body] ''SeedMessage(%s): %v'' [AStr queueURL] skip"

definition SeedMessage ::
  "(('t, 'm) cworld, 'c) tb_iface \<Rightarrow> 'z aws_api_scheme \<Rightarrow> aws_config \<Rightarrow> string \<Rightarrow> string \<Rightarrow> (('t, 'm) cworld, unit) act"
where
  "SeedMessage I a cfg queueURL body w = SeedMessageContext I a (m_context I w) cfg queueURL body w"

section \<open>Properties\<close>

text \<open>The four fixtures, as values, and the closure each registers.\<close>

datatype fixture =
    FixObject string string string | FixParameter string string bool
  | FixSecret string string | FixMessage string string

fun seed_fixture ::
  "(('t, 'm) cworld, cleanup) tb_iface \<Rightarrow> 'z aws_api_scheme \<Rightarrow> ctx \<Rightarrow> aws_config \<Rightarrow> fixture \<Rightarrow> (('t, 'm) cworld, unit) act"
where
  "seed_fixture I a ctx cfg (FixObject b k d) = SeedObjectContext I a ctx cfg b k d"
| "seed_fixture I a ctx cfg (FixParameter n v s) = SeedParameterContext I a ctx cfg n v s"
| "seed_fixture I a ctx cfg (FixSecret n v) = SeedSecretContext I a ctx cfg n v"
| "seed_fixture I a ctx cfg (FixMessage q b) = SeedMessageContext I a ctx cfg q b"

fun deletions :: "ctx \<Rightarrow> aws_config \<Rightarrow> fixture \<Rightarrow> cleanup list" where
  "deletions ctx cfg (FixObject b k d) = [DeleteObject (WithoutCancel ctx) (NewS3 cfg) b k]"
| "deletions ctx cfg (FixParameter n v s) = [DeleteParameter (WithoutCancel ctx) (NewSSM cfg) n]"
| "deletions ctx cfg (FixSecret n v) = [DeleteSecret (WithoutCancel ctx) (NewSecrets cfg) n]"
| "deletions ctx cfg (FixMessage q b) = []"

lemmas seed_defs = seed_def SeedObjectContext_def SeedParameterContext_def SeedSecretContext_def
  SeedMessageContext_def aws_do_def act_simps


end
