(* ===== verification/Libtftest.thy ===== *)
theory Libtftest
  imports Terraform_Files Workspace Naming Artifacts Fixtures
begin

text \<open>
  \<^verbatim>\<open>libtftest.go\<close>: test cases.  A \<^verbatim>\<open>*TestCase\<close> is the number of its record in the world, so
  closures and callers share it as they share the pointer.  Terraform (through Terratest) is
  the record \<open>terraform_api\<close>, \<^verbatim>\<open>terraform-json\<close> the record \<open>plan_api\<close>, and Terratest's failing
  variants are its error-returning ones followed by testify's \<^verbatim>\<open>require.NoError\<close>, the argument
  \<open>no_error\<close>.
\<close>

section \<open>State\<close>

record Options =
  op_edition :: Edition
  op_services :: "string list"
  op_image :: string
  op_module_dir :: string
  op_vars :: "(string \<times> any_val) list"
  op_reuse :: "container option"
  op_persist_on_failure :: bool
  op_init_hooks :: "init_hook list"
  op_auto_prefix_vars :: bool
  op_edge_url_override :: string

record test_case =
  tc_stack :: "container option"
  tc_work :: "workspace option"
  tc_aws :: aws_config
  tc_prefix :: string
  tc_vars :: "(string \<times> any_val) list"
  tc_opts :: Options
  tc_own :: bool
  tc_artifact_dir :: string

record PlanChanges =
  pc_add :: int
  pc_change :: int
  pc_destroy :: int

record PlanResult =
  pr_json :: string
  pr_file :: string
  pr_changes :: PlanChanges

record 't lworld = "'t tfworld" +
  l_cases :: "test_case list"

type_synonym ('t, 'm) lw = "('t, 'm) lworld_scheme"

text \<open>A resource change of a parsed plan is its actions; \<open>None\<close> when its \<^verbatim>\<open>Change\<close> is nil.\<close>

record plan_api =
  tj_parse :: "string \<Rightarrow> go_error + string list option list"
  tj_create :: "string list \<Rightarrow> bool"
  tj_update :: "string list \<Rightarrow> bool"
  tj_delete :: "string list \<Rightarrow> bool"
  tj_replace :: "string list \<Rightarrow> bool"

record lib_api = docker_api +
  a_aws :: aws_api
  a_tf :: terraform_api
  a_plan :: plan_api
  a_pid :: nat
  a_now :: int

definition the_case :: "nat \<Rightarrow> ('t, 'm) lw \<Rightarrow> test_case" where
  "the_case i w = l_cases w ! i"

definition upd_case :: "nat \<Rightarrow> (test_case \<Rightarrow> test_case) \<Rightarrow> ('t, 'm) lw \<Rightarrow> ('t, 'm) lw" where
  "upd_case i f w = w\<lparr>l_cases := (l_cases w)[i := f (l_cases w ! i)]\<rparr>"

definition nil_deref :: "('s, 'a) act" where
  "nil_deref = panic ''nil pointer dereference''"

section \<open>New\<close>

fun merge_vars :: "(string \<times> any_val) list \<Rightarrow> (string \<times> any_val) list \<Rightarrow> (string \<times> any_val) list" where
  "merge_vars [] m = m"
| "merge_vars ((k, v) # kvs) m = merge_vars kvs (put k v m)"

definition zero_config :: aws_config where
  "zero_config = \<lparr>ac_endpoint = [], ac_region = [], ac_access_key = [], ac_secret_key = []\<rparr>"

definition new_case :: "lib_api \<Rightarrow> (('t, 'm) lw, cleanup) tb_iface \<Rightarrow> Options \<Rightarrow> ('t, 'm) lw \<Rightarrow> test_case" where
  "new_case a I opts w =
     (let prefix = Prefix I (a_pid a) (a_now a) w; vars = merge_vars (op_vars opts) [] in
      \<lparr>tc_stack = None, tc_work = None, tc_aws = zero_config, tc_prefix = prefix,
       tc_vars = (if op_auto_prefix_vars opts then put ''name_prefix'' (AnyStr prefix) vars else vars),
       tc_opts = opts, tc_own = False, tc_artifact_dir = []\<rparr>)"

definition set_stack :: "nat \<Rightarrow> container option \<Rightarrow> bool \<Rightarrow> (('t, 'm) lw, unit) act" where
  "set_stack i ctr own = modify (upd_case i (\<lambda>tc. tc\<lparr>tc_stack := ctr, tc_own := own\<rparr>))"

definition resolveContainer :: "lib_api \<Rightarrow> (('t, 'm) lw, cleanup) tb_iface \<Rightarrow> ctx \<Rightarrow> nat \<Rightarrow> (('t, 'm) lw, unit) act" where
  "resolveContainer a I ctx i w =
     (let opts = tc_opts (the_case i w) in
      case op_reuse opts of
        Some ctr \<Rightarrow> set_stack i (Some ctr) False w
      | None \<Rightarrow>
          (case Current w of
             Some ctr \<Rightarrow> set_stack i (Some ctr) False w
           | None \<Rightarrow>
               bnd (Start a ctx
                 \<lparr>lc_edition = op_edition opts, lc_image = op_image opts, lc_services = op_services opts,
                  lc_auth_token = [], lc_init_hooks = op_init_hooks opts\<rparr>) (\<lambda>r.
                 case r of
                   Inl err \<Rightarrow> andthen (m_fatalf I ''start localstack: %v'' [AErr err]) (set_stack i None True)
                 | Inr ctr \<Rightarrow> set_stack i (Some ctr) True) w))"

definition write_overrides :: "(('t, 'm) lw, cleanup) tb_iface \<Rightarrow> string \<Rightarrow> string \<Rightarrow> (('t, 'm) lw, unit) act" where
  "write_overrides I dir edgeURL w =
     (case WriteOverrides dir edgeURL (w_fs w) of
        (None, s) \<Rightarrow> (Ret (), w\<lparr>w_fs := s\<rparr>)
      | (Some err, s) \<Rightarrow> m_fatalf I ''write overrides: %v'' [AErr err] (w\<lparr>w_fs := s\<rparr>))"

definition build_aws_config :: "lib_api \<Rightarrow> (('t, 'm) lw, cleanup) tb_iface \<Rightarrow> ctx \<Rightarrow> string \<Rightarrow> (('t, 'm) lw, aws_config) act" where
  "build_aws_config a I ctx edgeURL =
     bnd (load_config (a_aws a) ctx edgeURL) (\<lambda>r.
       case r of
         Inl err \<Rightarrow> andthen (m_fatalf I ''build aws config: %v'' [AErr err]) (ret zero_config)
       | Inr cfg \<Rightarrow> ret cfg)"

definition registerCleanup :: "(('t, 'm) lw, cleanup) tb_iface \<Rightarrow> nat \<Rightarrow> (('t, 'm) lw, unit) act" where
  "registerCleanup I i w =
     andthen (if tc_own (the_case i w) then m_cleanup I (StopContainer i) else skip)
       (andthen (m_cleanup I (TerraformDestroy i)) (m_cleanup I (DumpArtifacts i))) w"

text \<open>The part of \<^verbatim>\<open>New\<close> after the container: the edge URL, the workspace, the configuration.\<close>

definition set_up ::
  "lib_api \<Rightarrow> nat \<Rightarrow> (('t, 'm) lw, cleanup) tb_iface \<Rightarrow> ctx \<Rightarrow> nat \<Rightarrow> container \<Rightarrow> Options \<Rightarrow> (('t, 'm) lw, unit) act"
where
  "set_up a fuel I ctx i ctr opts =
     (let edgeURL = (if op_edge_url_override opts \<noteq> [] then op_edge_url_override opts else ct_edge_url ctr) in
      bnd (NewWorkspace fuel I (op_module_dir opts)) (\<lambda>work.
      andthen (modify (upd_case i (\<lambda>tc. tc\<lparr>tc_work := Some work\<rparr>)))
     (andthen (write_overrides I (ws_dir work) edgeURL)
     (bnd (build_aws_config a I ctx edgeURL) (\<lambda>cfg.
      andthen (modify (upd_case i (\<lambda>tc. tc\<lparr>tc_aws := cfg\<rparr>)))
     (andthen (modify (\<lambda>w. upd_case i (\<lambda>tc. tc\<lparr>tc_artifact_dir := ResolveArtifactDir I (ws_dir work) w\<rparr>) w))
      (registerCleanup I i)))))))"

definition New :: "lib_api \<Rightarrow> nat \<Rightarrow> (('t, 'm) lw, cleanup) tb_iface \<Rightarrow> Options \<Rightarrow> (('t, 'm) lw, nat) act" where
  "New a fuel I opts w =
     (let i = length (l_cases w); ctx = m_context I w in
      andthen (modify (\<lambda>w. w\<lparr>l_cases := l_cases w @ [new_case a I opts w]\<rparr>))
     (andthen (resolveContainer a I ctx i)
     (bnd (gets (\<lambda>w. tc_stack (the_case i w))) (\<lambda>stack.
       case stack of
         None \<Rightarrow> nil_deref
       | Some ctr \<Rightarrow> andthen (set_up a fuel I ctx i ctr opts) (ret i)))) w)"

definition SetVar :: "nat \<Rightarrow> string \<Rightarrow> any_val \<Rightarrow> ('t, 'm) lw \<Rightarrow> ('t, 'm) lw" where
  "SetVar i key val = upd_case i (\<lambda>tc. tc\<lparr>tc_vars := put key val (tc_vars tc)\<rparr>)"

definition tc_AWS :: "nat \<Rightarrow> ('t, 'm) lw \<Rightarrow> aws_config" where
  "tc_AWS i w = tc_aws (the_case i w)"

definition tc_Prefix :: "nat \<Rightarrow> ('t, 'm) lw \<Rightarrow> string" where
  "tc_Prefix i w = tc_prefix (the_case i w)"

section \<open>Apply, plan and output\<close>

definition error_of :: "go_error + 'a \<Rightarrow> go_error option" where
  "error_of r = (case r of Inl e \<Rightarrow> Some e | Inr _ \<Rightarrow> None)"

definition with_work :: "nat \<Rightarrow> (workspace \<Rightarrow> (('t, 'm) lw, 'a) act) \<Rightarrow> (('t, 'm) lw, 'a) act" where
  "with_work i f w = (case tc_work (the_case i w) of None \<Rightarrow> nil_deref w | Some work \<Rightarrow> f work w)"

definition ApplyContextE :: "lib_api \<Rightarrow> ctx \<Rightarrow> nat \<Rightarrow> (('t, 'm) lw, tf_options \<times> go_error option) act" where
  "ApplyContextE a ctx i =
     with_work i (\<lambda>work w.
       bnd (BuildOptions (ws_dir work) (tc_vars (the_case i w))) (\<lambda>tfOpts w.
         let over = ctx_done w ctx in
         bnd (ask_fs (TfInitAndApply over tfOpts) (tf_init_and_apply (a_tf a) over tfOpts))
           (\<lambda>r. ret (tfOpts, error_of r)) w) w)"

definition ApplyContext ::
  "lib_api \<Rightarrow> (go_error \<Rightarrow> (('t, 'm) lw, unit) act) \<Rightarrow> ctx \<Rightarrow> nat \<Rightarrow> (('t, 'm) lw, tf_options) act"
where
  "ApplyContext a no_error ctx i =
     bnd (ApplyContextE a ctx i) (\<lambda>(tfOpts, err).
       andthen (case err of None \<Rightarrow> skip | Some e \<Rightarrow> no_error e) (ret tfOpts))"

definition Apply ::
  "lib_api \<Rightarrow> (go_error \<Rightarrow> (('t, 'm) lw, unit) act) \<Rightarrow> (('t, 'm) lw, cleanup) tb_iface \<Rightarrow> nat \<Rightarrow> (('t, 'm) lw, tf_options) act"
where
  "Apply a no_error I i w = ApplyContext a no_error (m_context I w) i w"

definition ApplyE :: "lib_api \<Rightarrow> (('t, 'm) lw, cleanup) tb_iface \<Rightarrow> nat \<Rightarrow> (('t, 'm) lw, tf_options \<times> go_error option) act" where
  "ApplyE a I i w = ApplyContextE a (m_context I w) i w"

fun count_changes :: "plan_api \<Rightarrow> string list option list \<Rightarrow> PlanChanges \<Rightarrow> PlanChanges" where
  "count_changes p [] ch = ch"
| "count_changes p (None # rcs) ch = count_changes p rcs ch"
| "count_changes p (Some actions # rcs) ch =
     count_changes p rcs
       (if tj_create p actions then ch\<lparr>pc_add := pc_add ch + 1\<rparr>
        else if tj_update p actions then ch\<lparr>pc_change := pc_change ch + 1\<rparr>
        else if tj_delete p actions then ch\<lparr>pc_destroy := pc_destroy ch + 1\<rparr>
        else if tj_replace p actions then ch\<lparr>pc_destroy := pc_destroy ch + 1, pc_add := pc_add ch + 1\<rparr>
        else ch)"

definition no_changes :: PlanChanges where
  "no_changes = \<lparr>pc_add = 0, pc_change = 0, pc_destroy = 0\<rparr>"

definition parsePlanChanges :: "plan_api \<Rightarrow> string \<Rightarrow> go_error + PlanChanges" where
  "parsePlanChanges p planJSON =
     (case tj_parse p planJSON of
        Inl err \<Rightarrow> Inl (ErrWrap ''unmarshal plan'' err)
      | Inr rcs \<Rightarrow> Inr (count_changes p rcs no_changes))"

definition PlanContextE :: "lib_api \<Rightarrow> ctx \<Rightarrow> nat \<Rightarrow> (('t, 'm) lw, go_error + PlanResult) act" where
  "PlanContextE a ctx i =
     with_work i (\<lambda>work w.
       bnd (BuildPlanOptions (ws_dir work) (tc_vars (the_case i w))) (\<lambda>tfOpts w.
         let over = ctx_done w ctx in
         bnd (ask_fs (TfInitAndPlan over tfOpts) (tf_init_and_plan (a_tf a) over tfOpts)) (\<lambda>planned.
         case planned of
           Inl err \<Rightarrow> ret (Inl (ErrWrap ''init and plan'' err))
         | Inr _ \<Rightarrow>
             bnd (ask_fs (TfShow over tfOpts) (tf_show (a_tf a) over tfOpts)) (\<lambda>shown.
             case shown of
               Inl err \<Rightarrow> ret (Inl (ErrWrap ''terraform show'' err))
             | Inr planJSON \<Rightarrow>
                 (case parsePlanChanges (a_plan a) planJSON of
                    Inl err \<Rightarrow> ret (Inl (ErrWrap ''parse plan changes'' err))
                  | Inr changes \<Rightarrow>
                      ret (Inr \<lparr>pr_json = planJSON, pr_file = to_plan_file tfOpts, pr_changes = changes\<rparr>)))) w) w)"

text \<open>A nil result, after a \<^verbatim>\<open>Fatalf\<close> that came back, is \<open>None\<close>.\<close>

definition PlanContext ::
  "lib_api \<Rightarrow> (('t, 'm) lw, cleanup) tb_iface \<Rightarrow> ctx \<Rightarrow> nat \<Rightarrow> (('t, 'm) lw, PlanResult option) act"
where
  "PlanContext a I ctx i =
     bnd (PlanContextE a ctx i) (\<lambda>r.
       case r of
         Inl err \<Rightarrow> andthen (m_fatalf I ''plan: %v'' [AErr err]) (ret None)
       | Inr result \<Rightarrow> ret (Some result))"

definition Plan :: "lib_api \<Rightarrow> (('t, 'm) lw, cleanup) tb_iface \<Rightarrow> nat \<Rightarrow> (('t, 'm) lw, PlanResult option) act" where
  "Plan a I i w = PlanContext a I (m_context I w) i w"

definition PlanE :: "lib_api \<Rightarrow> (('t, 'm) lw, cleanup) tb_iface \<Rightarrow> nat \<Rightarrow> (('t, 'm) lw, go_error + PlanResult) act" where
  "PlanE a I i w = PlanContextE a (m_context I w) i w"

definition OutputContext ::
  "lib_api \<Rightarrow> (go_error \<Rightarrow> (('t, 'm) lw, unit) act) \<Rightarrow> ctx \<Rightarrow> nat \<Rightarrow> string \<Rightarrow> (('t, 'm) lw, string) act"
where
  "OutputContext a no_error ctx i name =
     with_work i (\<lambda>work w.
       bnd (BuildOptions (ws_dir work) (tc_vars (the_case i w))) (\<lambda>tfOpts w.
         let over = ctx_done w ctx in
         bnd (ask_fs (TfOutput over tfOpts name) (tf_output (a_tf a) over tfOpts name)) (\<lambda>r.
           case r of Inl err \<Rightarrow> andthen (no_error err) (ret []) | Inr out \<Rightarrow> ret out) w) w)"

definition Output ::
  "lib_api \<Rightarrow> (go_error \<Rightarrow> (('t, 'm) lw, unit) act) \<Rightarrow> (('t, 'm) lw, cleanup) tb_iface \<Rightarrow> nat \<Rightarrow> string \<Rightarrow> (('t, 'm) lw, string) act"
where
  "Output a no_error I i name w = OutputContext a no_error (m_context I w) i name w"

section \<open>Idempotency\<close>

definition change_count :: "PlanResult \<Rightarrow> int" where
  "change_count r = pc_add (pr_changes r) + pc_change (pr_changes r) + pc_destroy (pr_changes r)"

definition counts :: "PlanResult \<Rightarrow> arg list" where
  "counts r = [AInt (pc_add (pr_changes r)), AInt (pc_change (pr_changes r)), AInt (pc_destroy (pr_changes r))]"

definition AssertIdempotentContext ::
  "lib_api \<Rightarrow> (('t, 'm) lw, cleanup) tb_iface \<Rightarrow> ctx \<Rightarrow> nat \<Rightarrow> (('t, 'm) lw, unit) act"
where
  "AssertIdempotentContext a I ctx i =
     bnd (PlanContext a I ctx i) (\<lambda>result.
       case result of
         None \<Rightarrow> nil_deref
       | Some r \<Rightarrow>
           if change_count r > 0
           then m_errorf I ''module is not idempotent: plan shows add=%d change=%d destroy=%d'' (counts r)
           else skip)"

definition AssertIdempotent :: "lib_api \<Rightarrow> (('t, 'm) lw, cleanup) tb_iface \<Rightarrow> nat \<Rightarrow> (('t, 'm) lw, unit) act" where
  "AssertIdempotent a I i w = AssertIdempotentContext a I (m_context I w) i w"

definition AssertIdempotentApplyContext ::
  "lib_api \<Rightarrow> (go_error \<Rightarrow> (('t, 'm) lw, unit) act) \<Rightarrow> (('t, 'm) lw, cleanup) tb_iface \<Rightarrow> ctx \<Rightarrow> nat \<Rightarrow> (('t, 'm) lw, unit) act"
where
  "AssertIdempotentApplyContext a no_error I ctx i =
     bnd (PlanContext a I ctx i) (\<lambda>first.
       case first of
         None \<Rightarrow> nil_deref
       | Some r \<Rightarrow>
           if change_count r > 0
           then m_errorf I ''first plan not idempotent: add=%d change=%d destroy=%d'' (counts r)
           else
             bnd (ApplyContext a no_error ctx i) (\<lambda>_.
             bnd (PlanContext a I ctx i) (\<lambda>second.
               case second of
                 None \<Rightarrow> nil_deref
               | Some r' \<Rightarrow>
                   if change_count r' > 0
                   then m_errorf I ''post-second-Apply plan not idempotent: add=%d change=%d destroy=%d'' (counts r')
                   else skip)))"

definition AssertIdempotentApply ::
  "lib_api \<Rightarrow> (go_error \<Rightarrow> (('t, 'm) lw, unit) act) \<Rightarrow> (('t, 'm) lw, cleanup) tb_iface \<Rightarrow> nat \<Rightarrow> (('t, 'm) lw, unit) act"
where
  "AssertIdempotentApply a no_error I i w = AssertIdempotentApplyContext a no_error I (m_context I w) i w"

section \<open>Cleanup\<close>

definition dump_if_exists ::
  "(('t, 'm) lw, cleanup) tb_iface \<Rightarrow> nat \<Rightarrow> string \<Rightarrow> string \<Rightarrow> (('t, 'm) lw, unit) act"
where
  "dump_if_exists I i src name w =
     (case os_read_file (w_fs w) src of
        Inl _ \<Rightarrow> skip w
      | Inr data \<Rightarrow> DumpArtifact I (tc_artifact_dir (the_case i w)) name data w)"

definition dumpArtifacts :: "(('t, 'm) lw, cleanup) tb_iface \<Rightarrow> nat \<Rightarrow> (('t, 'm) lw, unit) act" where
  "dumpArtifacts I i =
     with_work i (\<lambda>work.
       andthen (dump_if_exists I i (ws_dir work @ ''/_libtftest_override.tf.json'') ''provider-override.json'')
      (andthen (dump_if_exists I i (ws_dir work @ ''/_libtftest_backend_override.tf.json'') ''backend-override.json'')
               (dump_if_exists I i (ws_dir work @ ''/libtftest.plan'') ''plan.bin'')))"

definition stop_container :: "lib_api \<Rightarrow> (('t, 'm) lw, cleanup) tb_iface \<Rightarrow> nat \<Rightarrow> (('t, 'm) lw, unit) act" where
  "stop_container a I i w =
     (case tc_stack (the_case i w) of
        None \<Rightarrow> nil_deref w
      | Some ctr \<Rightarrow>
          if op_persist_on_failure (tc_opts (the_case i w)) \<and> m_failed I w
          then m_logf I ''PersistOnFailure: container %s kept alive at %s'' [AStr (ct_id ctr), AStr (ct_edge_url ctr)] w
          else bnd (Stop a ctr) (\<lambda>r.
                 case r of None \<Rightarrow> skip | Some err \<Rightarrow> m_errorf I ''stop container: %v'' [AErr err]) w)"

definition terraform_destroy :: "lib_api \<Rightarrow> (('t, 'm) lw, cleanup) tb_iface \<Rightarrow> nat \<Rightarrow> (('t, 'm) lw, unit) act" where
  "terraform_destroy a I i w =
     (if op_persist_on_failure (tc_opts (the_case i w)) \<and> m_failed I w then skip w
      else with_work i (\<lambda>work w.
        bnd (BuildOptions (ws_dir work) (tc_vars (the_case i w))) (\<lambda>tfOpts w.
          let over = ctx_done w (WithoutCancel (m_context I w)) in
          bnd (ask_fs (TfDestroy over tfOpts) (tf_destroy (a_tf a) over tfOpts)) (\<lambda>r.
            case r of Inl err \<Rightarrow> m_errorf I ''terraform destroy: %v'' [AErr err] | Inr _ \<Rightarrow> skip) w) w) w)"

definition remove_temp :: "(('t, 'm) lw, cleanup) tb_iface \<Rightarrow> string \<Rightarrow> (('t, 'm) lw, unit) act" where
  "remove_temp I dir w =
     (case os_remove_all dir (w_fs w) of
        (Inl err, s) \<Rightarrow> m_errorf I ''TempDir RemoveAll cleanup: %v'' [AErr err] (w\<lparr>w_fs := s\<rparr>)
      | (Inr _, s) \<Rightarrow> (Ret (), w\<lparr>w_fs := s\<rparr>))"

text \<open>What a registered closure does.\<close>

fun run_cleanup :: "lib_api \<Rightarrow> (('t, 'm) lw, cleanup) tb_iface \<Rightarrow> cleanup \<Rightarrow> (('t, 'm) lw, unit) act" where
  "run_cleanup a I (RemoveTemp dir) = remove_temp I dir"
| "run_cleanup a I (StopContainer i) = stop_container a I i"
| "run_cleanup a I (TerraformDestroy i) = terraform_destroy a I i"
| "run_cleanup a I (DumpArtifacts i) = (\<lambda>w. if m_failed I w then dumpArtifacts I i w else skip w)"
| "run_cleanup a I (DeleteObject ctx cl bucket key) = delete_object I (a_aws a) ctx cl bucket key"
| "run_cleanup a I (DeleteParameter ctx cl name) = delete_parameter I (a_aws a) ctx cl name"
| "run_cleanup a I (DeleteSecret ctx cl name) = delete_secret I (a_aws a) ctx cl name"

section \<open>Requirements\<close>

definition RequirePro :: "(('t, 'x, 'm) world_scheme, 'c) tb_iface \<Rightarrow> (('t, 'x, 'm) world_scheme, unit) act" where
  "RequirePro I w =
     (if getenv w ''LOCALSTACK_AUTH_TOKEN'' = []
      then m_skip I ''skipping: requires LocalStack Pro (no LOCALSTACK_AUTH_TOKEN set)'' w
      else (Ret (), w))"

definition RequireServices :: "(('t, 'x, 'm) world_scheme, 'c) tb_iface \<Rightarrow> string list \<Rightarrow> (('t, 'x, 'm) world_scheme, unit) act" where
  "RequireServices I names = skip"

end
