(* ===== verification/Lifecycle.thy ===== *)
theory Lifecycle
  imports Libtftest
begin

text \<open>
  The life of a test case on a real \<^verbatim>\<open>testing.T\<close>: what \<^verbatim>\<open>New\<close> registers, in which order the
  closures run after the test, and which containers are left.
\<close>

section \<open>Calm actions\<close>


type_synonym 'm lt = "(cleanup gotest, 'm) lw"

abbreviation T :: "('m lt, cleanup) tb_iface" where
  "T \<equiv> real_tb RemoveTemp"

text \<open>
  A calm action changes no test case, registers no closure, leaves the shared container and the
  contexts alone, never takes a failure back, and makes only calls that satisfy \<open>P\<close>.
\<close>

definition calmly :: "(call \<Rightarrow> bool) \<Rightarrow> 'm lt \<Rightarrow> 'm lt \<Rightarrow> bool" where
  "calmly P w w' \<longleftrightarrow>
     l_cases w' = l_cases w \<and> t_cleanups (w_tb w') = t_cleanups (w_tb w) \<and>
     h_shared w' = h_shared w \<and> w_cancelled w' = w_cancelled w \<and>
     (t_failed (w_tb w) \<longrightarrow> t_failed (w_tb w')) \<and>
     (\<exists>t. w_trace w' = w_trace w @ t \<and> list_all P t)"

lemma calmly_refl [simp]: "calmly P w w"
  by (simp add: calmly_def)

lemma calmly_trans: "calmly P w w' \<Longrightarrow> calmly P w' w'' \<Longrightarrow> calmly P w w''"
  by (fastforce simp: calmly_def)

lemma calmlyD:
  assumes "calmly P w w'"
  shows "l_cases w' = l_cases w" and "t_cleanups (w_tb w') = t_cleanups (w_tb w)"
    and "t_failed (w_tb w) \<Longrightarrow> t_failed (w_tb w')"
    and "\<exists>t. w_trace w' = w_trace w @ t \<and> list_all P t"
    and "h_shared w' = h_shared w" and "w_cancelled w' = w_cancelled w"
  using assms by (auto simp: calmly_def)

lemma calmly_mono: "calmly P w w' \<Longrightarrow> (\<And>c. P c \<Longrightarrow> Q c) \<Longrightarrow> calmly Q w w'"
  unfolding calmly_def list_all_iff by blast

named_theorems calm_intros "which actions are calm"

lemma calm_ret [calm_intros]: "calmly P w (snd (ret x w))"
  by (simp add: ret_run)

lemma calm_skip [calm_intros]: "calmly P w (snd (skip w))"
  by (simp add: skip_run)

lemma calm_nil_deref [calm_intros]: "calmly P w (snd (nil_deref w))"
  by (simp add: nil_deref_def panic_run)

lemma calm_panic [calm_intros]: "calmly P w (snd (panic p w))"
  by (simp add: panic_run)

lemma calm_errorf [calm_intros]: "calmly P w (snd (m_errorf T f as w))"
  by (simp add: calmly_def real_tb_defs)

lemma calm_fatalf [calm_intros]: "calmly P w (snd (m_fatalf T f as w))"
  by (simp add: calmly_def real_tb_defs)

lemma calm_logf [calm_intros]: "calmly P w (snd (m_logf T f as w))"
  by (simp add: calmly_def real_tb_defs)

lemma calm_ask [calm_intros]: "P c \<Longrightarrow> calmly P w (snd (ask c answer w))"
  by (simp add: calmly_def ask_run)

lemma calm_ask_fs [calm_intros]: "P c \<Longrightarrow> calmly P w (snd (ask_fs c answer w))"
  by (simp add: calmly_def ask_fs_run)

lemma calm_bnd [calm_intros]:
  assumes "calmly P w (snd (m w))" and "\<And>x v. calmly P v (snd (f x v))"
  shows "calmly P w (snd (bnd m f w))"
proof (cases "m w")
  case (Pair oc w1)
  show ?thesis
  proof (cases oc)
    case (Ret x)
    with Pair calmly_trans [OF _ assms(2)] assms(1) show ?thesis by (simp add: bnd_run)
  qed (use assms(1) Pair in \<open>simp_all add: bnd_run\<close>)
qed

lemma calm_andthen [calm_intros]:
  "calmly P w (snd (m w)) \<Longrightarrow> (\<And>v. calmly P v (snd (k v))) \<Longrightarrow> calmly P w (snd (andthen m k w))"
  unfolding andthen_def by (rule calm_bnd)

lemma calm_PluginCacheDir [calm_intros]: "calmly P w (snd (PluginCacheDir w))"
  by (auto simp: calmly_def PluginCacheDir_def resolvePluginCacheDir_def act_simps Let_def
      split: option.split prod.split sum.split)

lemma calm_BuildOptions [calm_intros]: "calmly P w (snd (BuildOptions dir vars w))"
  unfolding BuildOptions_def defaultEnvVars_def by (intro calm_intros)

lemma calm_BuildPlanOptions [calm_intros]: "calmly P w (snd (BuildPlanOptions dir vars w))"
  unfolding BuildPlanOptions_def defaultEnvVars_def by (intro calm_intros)

lemma calm_with_work [calm_intros]:
  "(\<And>work. calmly P w (snd (f work w))) \<Longrightarrow> calmly P w (snd (with_work i f w))"
  by (auto simp: with_work_def split: option.split intro: calm_intros)

lemma calm_Stop [calm_intros]: "(\<And>h. P (TerminateContainer h)) \<Longrightarrow> calmly P w (snd (Stop a ctr w))"
  by (auto simp: Stop_def terminate_def split: option.split intro!: calm_intros)

lemma calm_writeFile [calm_intros]: "calmly P w (snd (writeFile T dir name data w))"
  by (auto simp: calmly_def writeFile_def Let_def real_tb_defs split: prod.split sum.split)

lemma calm_DumpArtifact [calm_intros]: "calmly P w (snd (DumpArtifact T dir name data w))"
  unfolding DumpArtifact_def Let_def
  by (intro calm_intros) (simp add: calm_writeFile)

lemma calm_dumpArtifacts [calm_intros]: "calmly P w (snd (dumpArtifacts T i w))"
proof -
  have "calmly P w (snd (dump_if_exists T i src name w))" for src name w
    by (auto simp: dump_if_exists_def split: sum.split intro!: calm_intros)
  then show ?thesis unfolding dumpArtifacts_def by (intro calm_intros)
qed

section \<open>The closures\<close>

text \<open>Calls a closure may make: anything but starting a container.\<close>

fun no_start :: "call \<Rightarrow> bool" where
  "no_start (RunContainer _ _ _) = False"
| "no_start _ = True"

lemma calm_aws_do [calm_intros]:
  "(\<And>over. P (AwsCall over cl op args)) \<Longrightarrow> calmly P w (snd (aws_do a ctx cl op args w))"
  by (simp add: aws_do_def aws_call_def Let_def calm_ask)

lemma calm_terraform_destroy: "(\<And>b o'. P (TfDestroy b o')) \<Longrightarrow> calmly P w (snd (terraform_destroy a T i w))"
  unfolding terraform_destroy_def Let_def
  by (auto intro!: calm_intros split: sum.split)

text \<open>Every closure is calm, and all but one make no call to Docker at all.\<close>

lemma calm_cleanup:
  assumes "\<And>b o'. P (TfDestroy b o')" and "\<And>over cl op args. P (AwsCall over cl op args)"
    and "\<And>i h. c = StopContainer i \<Longrightarrow> P (TerminateContainer h)"
  shows "calmly P w (snd (run_cleanup a T c w))"
proof (cases c)
  case (RemoveTemp dir)
  then show ?thesis
    by (auto simp: remove_temp_def real_tb_defs calmly_def split: prod.split sum.split)
next
  case (StopContainer i)
  with assms(3) show ?thesis
    by (auto simp: stop_container_def intro!: calm_intros split: option.split)
next
  case (TerraformDestroy i)
  with assms(1) show ?thesis by (simp add: calm_terraform_destroy)
next
  case (DumpArtifacts i)
  then show ?thesis by (auto intro!: calm_intros)
qed (use assms(2) in \<open>auto simp: delete_object_def delete_parameter_def delete_secret_def intro!: calm_intros split: option.split\<close>)

lemma calm_run_cleanup: "calmly no_start w (snd (run_cleanup a T c w))"
  by (rule calm_cleanup) simp_all

text \<open>No closure registers another one, so the closures run in reverse order and all of them run.\<close>

interpretation lib_cleanups: cleanup_runner "run_cleanup a T"
  by unfold_locales (rule calmlyD(2) [OF calm_run_cleanup])

section \<open>What New does\<close>

lemma real_temp_dir_Ret:
  assumes "m_temp_dir T w = (Ret dir, w')"
  shows "l_cases w' = l_cases w \<and> w_trace w' = w_trace w \<and> t_failed (w_tb w') = t_failed (w_tb w) \<and>
     t_cleanups (w_tb w') = t_cleanups (w_tb w) @
       (if t_temp (w_tb w) \<noteq> [] then [] else [RemoveTemp (t_temp (w_tb w'))])"
  using assms
  by (auto simp: real_tb_defs real_temp_dir_def act_simps Let_def
      split: if_splits prod.splits sum.splits)

lemma NewWorkspace_Ret:
  assumes "NewWorkspace fuel T md w = (Ret work, w')"
  shows "l_cases w' = l_cases w \<and> w_trace w' = w_trace w \<and> t_failed (w_tb w') = t_failed (w_tb w) \<and>
     t_cleanups (w_tb w') = t_cleanups (w_tb w) @
       (if t_temp (w_tb w) \<noteq> [] then [] else [RemoveTemp (t_temp (w_tb w'))])"
proof -
  obtain oc w1 where m: "m_temp_dir T w = (oc, w1)" by (cases "m_temp_dir T w")
  with assms obtain dir where "oc = Ret dir"
    by (cases oc) (auto simp: NewWorkspace_def bnd_run)
  with m have "m_temp_dir T w = (Ret dir, w1)" by simp
  from real_temp_dir_Ret [OF this] show ?thesis
    using assms m \<open>oc = Ret dir\<close>
    by (auto simp: NewWorkspace_def bnd_run Let_def andthen_run real_tb_defs
        split: option.splits prod.splits)
qed

lemma bnd_RetD:
  assumes "bnd m f w = (Ret y, w')"
  obtains x w1 where "m w = (Ret x, w1)" and "f x w1 = (Ret y, w')"
  using assms by (auto simp: bnd_run split: prod.splits outcome.splits)

lemma andthen_RetD:
  assumes "andthen m k w = (Ret y, w')"
  obtains w1 where "m w = (Ret (), w1)" and "k w1 = (Ret y, w')"
  using assms by (auto simp: andthen_run split: prod.splits outcome.splits)

lemma write_overrides_Ret:
  "write_overrides T dir u w = (Ret (), w') \<Longrightarrow> \<exists>s. w' = w\<lparr>w_fs := s\<rparr>"
  by (auto simp: write_overrides_def real_tb_defs split: prod.splits option.splits)

lemma build_aws_config_Ret:
  "build_aws_config a T ctx u w = (Ret cfg, w') \<Longrightarrow>
   w' = w\<lparr>w_trace := w_trace w @ [LoadAwsConfig (ctx_done w ctx) u]\<rparr> \<and>
   aw_load (a_aws a) (ctx_done w ctx) u (w_trace w) = Inr cfg"
  by (auto simp: build_aws_config_def load_config_def act_simps real_tb_defs Let_def split: sum.splits)

definition closures :: "nat \<Rightarrow> test_case \<Rightarrow> cleanup list" where
  "closures i tc = (if tc_own tc then [StopContainer i] else []) @ [TerraformDestroy i, DumpArtifacts i]"

lemma registerCleanup_run:
  "registerCleanup T i w =
     (Ret (), on_tb (\<lambda>t. t\<lparr>t_cleanups := t_cleanups t @ closures i (the_case i w)\<rparr>) w)"
  by (simp add: registerCleanup_def closures_def real_tb_defs act_simps)

lemma upd_case_simps [simp]:
  "w_tb (upd_case i f w) = w_tb w" "w_trace (upd_case i f w) = w_trace w" "w_fs (upd_case i f w) = w_fs w"
  "h_shared (upd_case i f w) = h_shared w"
  "l_cases (upd_case i f w) = (l_cases w)[i := f (l_cases w ! i)]"
  by (simp_all add: upd_case_def)

lemma set_up_Ret:
  assumes "set_up a fuel T ctx i ctr opts w = (Ret (), w')" and "i < length (l_cases w)"
  shows "\<exists>work cfg adir b t. l_cases w' = (l_cases w)[i := (l_cases w ! i)\<lparr>tc_work := Some work, tc_aws := cfg, tc_artifact_dir := adir\<rparr>] \<and>
     aw_load (a_aws a) b (if op_edge_url_override opts \<noteq> [] then op_edge_url_override opts else ct_edge_url ctr) (w_trace w) = Inr cfg \<and>
     w_trace w' = w_trace w @ [LoadAwsConfig b (if op_edge_url_override opts \<noteq> [] then op_edge_url_override opts else ct_edge_url ctr)] \<and>
     t_failed (w_tb w') = t_failed (w_tb w) \<and>
     t_cleanups (w_tb w') = t_cleanups (w_tb w) @ (if t_temp (w_tb w) \<noteq> [] then [] else [RemoveTemp t]) @
       closures i (l_cases w ! i)"
proof -
  let ?u = "if op_edge_url_override opts \<noteq> [] then op_edge_url_override opts else ct_edge_url ctr"
  from assms(1) obtain work w1 where 1: "NewWorkspace fuel T (op_module_dir opts) w = (Ret work, w1)"
    and r1: "andthen (modify (upd_case i (\<lambda>tc. tc\<lparr>tc_work := Some work\<rparr>)))
     (andthen (write_overrides T (ws_dir work) ?u)
     (bnd (build_aws_config a T ctx ?u) (\<lambda>cfg.
      andthen (modify (upd_case i (\<lambda>tc. tc\<lparr>tc_aws := cfg\<rparr>)))
     (andthen (modify (\<lambda>w. upd_case i (\<lambda>tc. tc\<lparr>tc_artifact_dir := ResolveArtifactDir T (ws_dir work) w\<rparr>) w))
      (registerCleanup T i))))) w1 = (Ret (), w')"
    unfolding set_up_def Let_def by (rule bnd_RetD)
  let ?w2 = "upd_case i (\<lambda>tc. tc\<lparr>tc_work := Some work\<rparr>) w1"
  from r1 obtain w3 where 3: "write_overrides T (ws_dir work) ?u ?w2 = (Ret (), w3)"
    and r3: "bnd (build_aws_config a T ctx ?u) (\<lambda>cfg.
      andthen (modify (upd_case i (\<lambda>tc. tc\<lparr>tc_aws := cfg\<rparr>)))
     (andthen (modify (\<lambda>w. upd_case i (\<lambda>tc. tc\<lparr>tc_artifact_dir := ResolveArtifactDir T (ws_dir work) w\<rparr>) w))
      (registerCleanup T i))) w3 = (Ret (), w')"
    by (auto elim!: andthen_RetD simp: modify_run)
  from r3 obtain cfg w4 where 4: "build_aws_config a T ctx ?u w3 = (Ret cfg, w4)"
    and r4: "andthen (modify (upd_case i (\<lambda>tc. tc\<lparr>tc_aws := cfg\<rparr>)))
     (andthen (modify (\<lambda>w. upd_case i (\<lambda>tc. tc\<lparr>tc_artifact_dir := ResolveArtifactDir T (ws_dir work) w\<rparr>) w))
      (registerCleanup T i)) w4 = (Ret (), w')"
    by (rule bnd_RetD)
  obtain s where s: "w3 = ?w2\<lparr>w_fs := s\<rparr>" using write_overrides_Ret [OF 3] by blast
  note n1 = NewWorkspace_Ret [OF 1] and n4 = build_aws_config_Ret [OF 4]
  let ?w5 = "upd_case i (\<lambda>tc. tc\<lparr>tc_aws := cfg\<rparr>) w4"
  let ?dir = "ResolveArtifactDir T (ws_dir work) ?w5"
  let ?w6 = "upd_case i (\<lambda>tc. tc\<lparr>tc_artifact_dir := ?dir\<rparr>) ?w5"
  have w': "w' = on_tb (\<lambda>t. t\<lparr>t_cleanups := t_cleanups t @ closures i (the_case i ?w6)\<rparr>) ?w6"
    using r4 by (simp add: act_simps registerCleanup_run)
  have "the_case i ?w6 = (l_cases w ! i)\<lparr>tc_work := Some work, tc_aws := cfg, tc_artifact_dir := ?dir\<rparr>"
    using assms(2) n1 n4 s by (simp add: the_case_def)
  moreover have "l_cases ?w6 = (l_cases w)[i := (l_cases w ! i)\<lparr>tc_work := Some work, tc_aws := cfg, tc_artifact_dir := ?dir\<rparr>]"
    using assms(2) n1 n4 s by simp
  ultimately show ?thesis
    using n1 n4 s w'
    by (intro exI [of _ work] exI [of _ cfg] exI [of _ ?dir] exI [of _ "ctx_done w3 ctx"] exI [of _ "t_temp (w_tb w1)"])
       (simp add: on_tb_def closures_def)
qed

lemma resolve_Ret:
  assumes "resolveContainer a T ctx i w = (Ret (), w')" and "i < length (l_cases w)"
    and law: "\<And>over img spec t. snd (d_run a over img spec t) \<noteq> None \<Longrightarrow> fst (d_run a over img spec t) = None"
  shows "\<exists>ctr own. l_cases w' = (l_cases w)[i := (l_cases w ! i)\<lparr>tc_stack := Some ctr, tc_own := own\<rparr>] \<and>
     w_tb w' = w_tb w \<and>
     (own \<longleftrightarrow> op_reuse (tc_opts (the_case i w)) = None \<and> Current w = None) \<and>
     (own \<longrightarrow> ct_ctr ctr = Some (ct_id ctr) \<and>
        (\<exists>t. w_trace w' = w_trace w @ t \<and> list_all docker_call t \<and> running a (w_trace w) t = [ct_id ctr])) \<and>
     (\<not> own \<longrightarrow> w_trace w' = w_trace w \<and>
        Some ctr = (if op_reuse (tc_opts (the_case i w)) \<noteq> None then op_reuse (tc_opts (the_case i w)) else Current w))"
proof -
  let ?o = "tc_opts (the_case i w)"
  show ?thesis
  proof (cases "op_reuse ?o = None \<and> Current w = None")
    case False
    then obtain ctr where ctr: "Some ctr = (if op_reuse ?o \<noteq> None then op_reuse ?o else Current w)"
      "resolveContainer a T ctx i w = set_stack i (Some ctr) False w"
      by (cases "op_reuse ?o"; cases "Current w") (auto simp: resolveContainer_def Let_def)
    then have "w' = upd_case i (\<lambda>tc. tc\<lparr>tc_stack := Some ctr, tc_own := False\<rparr>) w"
      using assms(1) by (simp add: set_stack_def modify_run)
    with ctr(1) False show ?thesis
      by (intro exI [of _ ctr] exI [of _ False]) auto
  next
    case True
    let ?cfg = "\<lparr>lc_edition = op_edition ?o, lc_image = op_image ?o, lc_services = op_services ?o,
                  lc_auth_token = [], lc_init_hooks = op_init_hooks ?o\<rparr>"
    have eq: "resolveContainer a T ctx i w =
        bnd (Start a ctx ?cfg) (\<lambda>r. case r of
           Inl err \<Rightarrow> andthen (m_fatalf T ''start localstack: %v'' [AErr err]) (set_stack i None True)
         | Inr ctr \<Rightarrow> set_stack i (Some ctr) True) w"
      using True by (simp add: resolveContainer_def Let_def)
    obtain r w1 where r: "Start a ctx ?cfg w = (Ret r, w1)" "(case r of
           Inl err \<Rightarrow> andthen (m_fatalf T ''start localstack: %v'' [AErr err]) (set_stack i None True)
         | Inr ctr \<Rightarrow> set_stack i (Some ctr) True) w1 = (Ret (), w')"
      using assms(1) unfolding eq by (rule bnd_RetD)
    then obtain ctr where ctr: "r = Inr ctr"
      by (cases r) (auto simp: andthen_run real_tb_defs)
    then have w': "w' = upd_case i (\<lambda>tc. tc\<lparr>tc_stack := Some ctr, tc_own := True\<rparr>) w1"
      using r(2) by (simp add: set_stack_def modify_run)
    have io: "io_frame w w1" using Start_io [of w a ctx ?cfg] r(1) by simp
    then have fr: "w_tb w1 = w_tb w" "l_cases w1 = l_cases w"
      by (auto simp: io_frame_def)
    obtain t where t: "w_trace w1 = w_trace w @ t" "list_all docker_call t" "calls_of (Start a ctx ?cfg) w = t"
      using only_callsE [OF Start_docker, of a ctx ?cfg w] r(1) by (metis snd_conv)
    have "ct_ctr ctr = Some (ct_id ctr) \<and> running a (w_trace w) t = [ct_id ctr]"
      using Start_ledger [OF law, where ctx = ctx and cfg = ?cfg and w = w] r(1) t(3) ctr by simp
    with True w' fr t show ?thesis
      by (intro exI [of _ ctr] exI [of _ True]) auto
  qed
qed

text \<open>The record of a test case that \<^verbatim>\<open>New\<close> returned, and what \<^verbatim>\<open>New\<close> did to make it.\<close>

lemma New_Ret:
  assumes "New a fuel T opts w = (Ret i, w')"
    and law: "\<And>over img spec t. snd (d_run a over img spec t) \<noteq> None \<Longrightarrow> fst (d_run a over img spec t) = None"
  shows "i = length (l_cases w) \<and>
    (\<exists>tc ctr tmp b edge t. l_cases w' = l_cases w @ [tc] \<and> tc_opts tc = opts \<and> tc_stack tc = Some ctr \<and> tc_work tc \<noteq> None \<and>
       tc_vars tc = tc_vars (new_case a T opts w) \<and>
       edge = (if op_edge_url_override opts \<noteq> [] then op_edge_url_override opts else ct_edge_url ctr) \<and>
       w_trace w' = w_trace w @ t @ [LoadAwsConfig b edge] \<and>
       aw_load (a_aws a) b edge (w_trace w @ t) = Inr (tc_aws tc) \<and>
       t_failed (w_tb w') = t_failed (w_tb w) \<and>
       t_cleanups (w_tb w') = t_cleanups (w_tb w) @ (if t_temp (w_tb w) \<noteq> [] then [] else [RemoveTemp tmp]) @ closures i tc \<and>
       (tc_own tc \<longleftrightarrow> op_reuse opts = None \<and> Current w = None) \<and>
       (tc_own tc \<longrightarrow> ct_ctr ctr = Some (ct_id ctr) \<and> list_all docker_call t \<and> running a (w_trace w) t = [ct_id ctr]) \<and>
       (\<not> tc_own tc \<longrightarrow> t = [] \<and> Some ctr = (if op_reuse opts \<noteq> None then op_reuse opts else Current w)))"
proof -
  let ?i = "length (l_cases w)"
  let ?ctx = "m_context T w"
  let ?w1 = "w\<lparr>l_cases := l_cases w @ [new_case a T opts w]\<rparr>"
  have "andthen (resolveContainer a T ?ctx ?i)
     (bnd (gets (\<lambda>w. tc_stack (the_case ?i w))) (\<lambda>stack. case stack of
         None \<Rightarrow> nil_deref
       | Some ctr \<Rightarrow> andthen (set_up a fuel T ?ctx ?i ctr opts) (ret ?i))) ?w1 = (Ret i, w')"
    using assms(1) by (simp add: New_def Let_def andthen_run modify_run)
  then obtain w2 where 2: "resolveContainer a T ?ctx ?i ?w1 = (Ret (), w2)"
    and r2: "bnd (gets (\<lambda>w. tc_stack (the_case ?i w))) (\<lambda>stack. case stack of
         None \<Rightarrow> nil_deref
       | Some ctr \<Rightarrow> andthen (set_up a fuel T ?ctx ?i ctr opts) (ret ?i)) w2 = (Ret i, w')"
    by (rule andthen_RetD)
  have len: "?i < length (l_cases ?w1)" by simp
  have o: "tc_opts (the_case ?i ?w1) = opts" "Current ?w1 = Current w"
    by (simp_all add: the_case_def new_case_def Let_def Current_def)
  obtain ctr own where res: "l_cases w2 = (l_cases ?w1)[?i := (l_cases ?w1 ! ?i)\<lparr>tc_stack := Some ctr, tc_own := own\<rparr>]"
     "w_tb w2 = w_tb w" "own \<longleftrightarrow> op_reuse opts = None \<and> Current w = None"
     "own \<longrightarrow> ct_ctr ctr = Some (ct_id ctr) \<and>
        (\<exists>t. w_trace w2 = w_trace w @ t \<and> list_all docker_call t \<and> running a (w_trace w) t = [ct_id ctr])"
     "\<not> own \<longrightarrow> w_trace w2 = w_trace w \<and> Some ctr = (if op_reuse opts \<noteq> None then op_reuse opts else Current w)"
    using resolve_Ret [OF 2 len law] unfolding o by auto
  let ?tc = "(new_case a T opts w)\<lparr>tc_stack := Some ctr, tc_own := own\<rparr>"
  have l2: "l_cases w2 = l_cases w @ [?tc]" using res(1) by simp
  then have st: "tc_stack (the_case ?i w2) = Some ctr" by (simp add: the_case_def)
  with r2 have r3: "andthen (set_up a fuel T ?ctx ?i ctr opts) (ret ?i) w2 = (Ret i, w')"
    by (simp add: bnd_run gets_run)
  then obtain 3: "set_up a fuel T ?ctx ?i ctr opts w2 = (Ret (), w')" and i: "i = ?i"
    by (auto elim!: andthen_RetD simp: ret_run)
  let ?u = "if op_edge_url_override opts \<noteq> [] then op_edge_url_override opts else ct_edge_url ctr"
  have "?i < length (l_cases w2)" using l2 by simp
  from set_up_Ret [OF 3 this] obtain work cfg adir b tmp where s:
     "l_cases w' = l_cases w @ [?tc\<lparr>tc_work := Some work, tc_aws := cfg, tc_artifact_dir := adir\<rparr>]"
     "aw_load (a_aws a) b ?u (w_trace w2) = Inr cfg" "w_trace w' = w_trace w2 @ [LoadAwsConfig b ?u]"
     "t_failed (w_tb w') = t_failed (w_tb w)"
     "t_cleanups (w_tb w') = t_cleanups (w_tb w) @ (if t_temp (w_tb w) \<noteq> [] then [] else [RemoveTemp tmp]) @ closures ?i ?tc"
    by (auto simp: l2 res(2))
  obtain t where t: "w_trace w2 = w_trace w @ t"
      "own \<longrightarrow> list_all docker_call t \<and> running a (w_trace w) t = [ct_id ctr]" "\<not> own \<longrightarrow> t = []"
    using res(4,5) by (cases own) auto
  show ?thesis
    using s t res i
    by (intro conjI exI [of _ "?tc\<lparr>tc_work := Some work, tc_aws := cfg, tc_artifact_dir := adir\<rparr>"] exI [of _ ctr]
          exI [of _ tmp] exI [of _ b] exI [of _ ?u] exI [of _ t])
       (simp_all add: closures_def new_case_def Let_def)
qed

section \<open>What the closures do together\<close>

lemma stop_container_calls:
  assumes "tc_stack (the_case i w) = Some c" and "ct_ctr c = Some h"
    and "op_persist_on_failure (tc_opts (the_case i w)) \<longrightarrow> \<not> t_failed (w_tb w)"
  shows "w_trace (snd (stop_container a T i w)) = w_trace w @ [TerminateContainer h]"
  using assms
  by (auto simp: stop_container_def Stop_def terminate_def act_simps real_tb_defs split: option.split)

lemma closures_run:
  "l_cases (call_each (run_cleanup a T) cs w) = l_cases w \<and>
   (t_failed (w_tb w) \<longrightarrow> t_failed (w_tb (call_each (run_cleanup a T) cs w))) \<and>
   (\<exists>t. w_trace (call_each (run_cleanup a T) cs w) = w_trace w @ t \<and> list_all no_start t \<and>
      (\<forall>i c h. StopContainer i \<in> set cs \<and> tc_stack (the_case i w) = Some c \<and> ct_ctr c = Some h \<and>
         (op_persist_on_failure (tc_opts (the_case i w)) \<longrightarrow>
          \<not> t_failed (w_tb (call_each (run_cleanup a T) cs w))) \<longrightarrow> TerminateContainer h \<in> set t))"
proof (induction cs arbitrary: w)
  case Nil
  show ?case by simp
next
  case (Cons c cs)
  let ?w = "on_tb (\<lambda>t. t\<lparr>t_cleanups := rev cs\<rparr>) w"
  let ?w1 = "snd (run_cleanup a T c ?w)"
  let ?w2 = "call_each (run_cleanup a T) cs ?w1"
  have same: "l_cases ?w = l_cases w" "t_failed (w_tb ?w) = t_failed (w_tb w)" "w_trace ?w = w_trace w"
    by (simp_all add: on_tb_def)
  note c1 = calmlyD [OF calm_run_cleanup [of ?w a c]]
  obtain t1 where t1: "w_trace ?w1 = w_trace w @ t1" "list_all no_start t1"
    using c1(4) same(3) by auto
  have l1: "l_cases ?w1 = l_cases w" using c1(1) same(1) by simp
  then have cases1: "the_case i ?w1 = the_case i w" for i by (simp add: the_case_def)
  have f1: "t_failed (w_tb w) \<Longrightarrow> t_failed (w_tb ?w1)" using c1(3) same(2) by simp
  obtain t2 where t2: "w_trace ?w2 = w_trace ?w1 @ t2" "list_all no_start t2"
      "\<forall>i c h. StopContainer i \<in> set cs \<and> tc_stack (the_case i ?w1) = Some c \<and> ct_ctr c = Some h \<and>
         (op_persist_on_failure (tc_opts (the_case i ?w1)) \<longrightarrow> \<not> t_failed (w_tb ?w2)) \<longrightarrow>
         TerminateContainer h \<in> set t2"
    and l2: "l_cases ?w2 = l_cases ?w1" and f2: "t_failed (w_tb ?w1) \<longrightarrow> t_failed (w_tb ?w2)"
    using Cons.IH [of ?w1] by auto
  have stop: "TerminateContainer h \<in> set (t1 @ t2)"
    if "StopContainer i \<in> set (c # cs)" "tc_stack (the_case i w) = Some k" "ct_ctr k = Some h"
      "op_persist_on_failure (tc_opts (the_case i w)) \<longrightarrow> \<not> t_failed (w_tb ?w2)" for i k h
  proof (cases "c = StopContainer i")
    case True
    have "the_case i ?w = the_case i w" by (simp add: the_case_def same(1))
    then have "w_trace ?w1 = w_trace ?w @ [TerminateContainer h]"
      using True that(2-4) f1 f2 same(2) by (auto intro!: stop_container_calls)
    then have "t1 = [TerminateContainer h]" using t1(1) same(3) by simp
    then show ?thesis by simp
  next
    case False
    with that t2(3) show ?thesis by (auto simp: cases1)
  qed
  show ?case
    using l1 l2 f1 f2 t1 t2(1,2) stop
    by (intro conjI exI [of _ "t1 @ t2"]) (simp_all, blast)
qed

text \<open>
  The test: make a test case, then the rest of the test.  The rest may apply, plan, assert and
  seed, register the deletion of what it seeded, and end in any way; it starts and stops no
  container and does not touch the stack and the options of the test case.
\<close>

fun deletion :: "cleanup \<Rightarrow> bool" where
  "deletion (DeleteObject _ _ _ _) = True"
| "deletion (DeleteParameter _ _ _) = True"
| "deletion (DeleteSecret _ _ _) = True"
| "deletion _ = False"

definition well_behaved :: "(nat \<Rightarrow> ('m lt, unit) act) \<Rightarrow> bool" where
  "well_behaved rest \<longleftrightarrow>
     (\<forall>i w. \<exists>t ds. w_trace (snd (rest i w)) = w_trace w @ t \<and> list_all neutral t \<and>
        t_cleanups (w_tb (snd (rest i w))) = t_cleanups (w_tb w) @ ds \<and> list_all deletion ds \<and>
        tc_stack (the_case i (snd (rest i w))) = tc_stack (the_case i w) \<and>
        tc_opts (the_case i (snd (rest i w))) = tc_opts (the_case i w))"

lemma no_start_handed_out: "list_all no_start t \<Longrightarrow> handed_out d before t = []"
proof (induction t arbitrary: before)
  case (Cons c cs)
  then show ?case by (cases c) auto
qed simp

lemma BuildOptions_run:
  "\<exists>env s c. BuildOptions dir vars w =
     (Ret \<lparr>to_dir = dir, to_vars = vars, to_env = env, to_no_color = True, to_lock = True,
           to_lock_timeout = ''60s'', to_plan_file = []\<rparr>, w\<lparr>w_fs := s, o_cache := c\<rparr>)"
proof -
  obtain cache s c where "PluginCacheDir w = (Ret cache, w\<lparr>w_fs := s, o_cache := c\<rparr>)"
  proof (cases "o_cache w")
    case None
    then show ?thesis
      using that by (force simp: PluginCacheDir_def resolvePluginCacheDir_def act_simps Let_def split: prod.splits sum.splits)
  next
    case (Some dir)
    then have "PluginCacheDir w = (Ret dir, w\<lparr>w_fs := w_fs w, o_cache := o_cache w\<rparr>)"
      by (simp add: PluginCacheDir_def)
    then show ?thesis by (rule that)
  qed
  then show ?thesis
    by (auto simp: BuildOptions_def defaultEnvVars_def act_simps)
qed

subsection \<open>When New fails\<close>

definition only_temp :: "'m lt \<Rightarrow> 'm lt \<Rightarrow> bool" where
  "only_temp w w' \<longleftrightarrow> (\<exists>ds. t_cleanups (w_tb w') = t_cleanups (w_tb w) @ map RemoveTemp ds)"

lemma only_temp_refl: "t_cleanups (w_tb w') = t_cleanups (w_tb w) \<Longrightarrow> only_temp w w'"
  unfolding only_temp_def by (rule exI [of _ "[]"]) simp

lemma only_temp_trans: "only_temp w w' \<Longrightarrow> only_temp w' w'' \<Longrightarrow> only_temp w w''"
  by (force simp: only_temp_def simp flip: map_append)

definition quits :: "('m lt, 'a) act \<Rightarrow> 'm lt \<Rightarrow> bool" where
  "quits m w \<longleftrightarrow> (\<exists>x. fst (m w) = Ret x) \<or> only_temp w (snd (m w))"

lemma quits_bnd:
  assumes "only_temp w (snd (m w))" and "\<And>x v. quits (f x) v"
  shows "quits (bnd m f) w"
proof (cases "m w")
  case (Pair oc w1)
  show ?thesis
  proof (cases oc)
    case (Ret x)
    with Pair assms(2) [of x w1] only_temp_trans [OF _, of w w1] assms(1) show ?thesis
      by (auto simp: quits_def bnd_run)
  qed (use assms(1) Pair in \<open>simp_all add: bnd_run quits_def\<close>)
qed

lemma quits_andthen:
  "only_temp w (snd (m w)) \<Longrightarrow> (\<And>v. quits k v) \<Longrightarrow> quits (andthen m k) w"
  unfolding andthen_def by (rule quits_bnd)

lemma only_temp_NewWorkspace: "only_temp w (snd (NewWorkspace fuel T md w))"
proof -
  have t: "only_temp w (snd (m_temp_dir T w))" for w
    by (auto simp: real_tb_defs real_temp_dir_def act_simps Let_def only_temp_def
        intro: exI [of _ "[]"] split: prod.split sum.split)
       (metis list.simps(8,9) append_Nil2)+
  show ?thesis
  proof (cases "m_temp_dir T w")
    case (Pair oc w1)
    have k: "only_temp w1 (snd (case copyTree fuel md d (w_fs w1) of
              None \<Rightarrow> (Panicked ''out of fuel'', w1)
            | Some (None, s) \<Rightarrow> (Ret \<lparr>ws_dir = d, ws_src = md\<rparr>, w1\<lparr>w_fs := s\<rparr>)
            | Some (Some err, s) \<Rightarrow>
                andthen (m_fatalf T ''copy module %s: %v'' [AStr md, AErr err])
                  (ret \<lparr>ws_dir = d, ws_src = md\<rparr>) (w1\<lparr>w_fs := s\<rparr>)))" for d
      by (rule only_temp_refl) (auto simp: andthen_run real_tb_defs split: option.split prod.split)
    then show ?thesis
      using t [of w] Pair only_temp_trans
      by (cases oc) (auto simp: NewWorkspace_def bnd_run Let_def)
  qed
qed

lemma quits_New:
  fixes w :: "'m lt"
  shows "quits (New a fuel T opts) w"
proof -
  have res: "only_temp v (snd (resolveContainer a T ctx i v))" for ctx i and v :: "'m lt"
  proof (rule only_temp_refl)
    have "w_tb (snd (Start a ctx cfg v)) = w_tb v" for cfg
      using Start_io [of v a ctx cfg] by (auto simp: io_frame_def)
    then show "t_cleanups (w_tb (snd (resolveContainer a T ctx i v))) = t_cleanups (w_tb v)"
      by (auto simp: resolveContainer_def Let_def set_stack_def act_simps real_tb_defs
          split: option.split sum.split prod.split outcome.split) (metis snd_conv)+
  qed
  have upd: "only_temp v (snd (modify (\<lambda>w. upd_case i (f w) w) v))" for i f and v :: "'m lt"
    by (rule only_temp_refl) (simp add: modify_run)
  have wo: "only_temp v (snd (write_overrides T d u v))" for d u and v :: "'m lt"
    by (rule only_temp_refl) (auto simp: write_overrides_def real_tb_defs split: prod.split option.split)
  have aw: "only_temp v (snd (build_aws_config a T ctx u v))" for ctx u and v :: "'m lt"
    by (rule only_temp_refl)
       (auto simp: build_aws_config_def load_config_def act_simps real_tb_defs Let_def split: sum.split)
  have su: "quits (set_up a fuel T ctx i ctr opts) v" for ctx i ctr and v :: "'m lt"
    unfolding set_up_def Let_def
    by (intro quits_bnd quits_andthen only_temp_NewWorkspace wo aw upd)
       (simp add: quits_def registerCleanup_run)
  have "quits (andthen (set_up a fuel T ctx i ctr opts) (ret i)) v" for ctx i ctr and v :: "'m lt"
    using su [of ctx i ctr v] by (auto simp: quits_def andthen_run ret_run split: prod.split outcome.split)
  then have "quits (case s of None \<Rightarrow> nil_deref | Some ctr \<Rightarrow> andthen (set_up a fuel T ctx i ctr opts) (ret i)) v" for s ctx i and v :: "'m lt"
    by (auto simp: quits_def nil_deref_def panic_run only_temp_refl split: option.split)
  then have "quits (andthen (modify (\<lambda>w. w\<lparr>l_cases := l_cases w @ [new_case a T opts w]\<rparr>))
     (andthen (resolveContainer a T ctx i)
     (bnd (gets (\<lambda>w. tc_stack (the_case i w))) (\<lambda>stack. case stack of
         None \<Rightarrow> nil_deref
       | Some ctr \<Rightarrow> andthen (set_up a fuel T ctx i ctr opts) (ret i))))) v" for ctx i and v :: "'m lt"
    by (intro quits_andthen quits_bnd res) (simp_all add: modify_run gets_run only_temp_refl)
  then show ?thesis
    unfolding quits_def New_def Let_def .
qed

lemma remove_temp_trace [simp]: "w_trace (snd (remove_temp T e v)) = w_trace v"
  by (auto simp: remove_temp_def real_tb_defs split: prod.split sum.split)

end
