(* ===== verification/Setup.thy ===== *)
theory Setup
  imports Lifecycle
begin

text \<open>
  When setting up a test case succeeds: the directories \<^verbatim>\<open>t.TempDir()\<close> makes, the copy of the
  module, the override files, and the concrete test case the witnesses run.
\<close>

section \<open>Temporary directories\<close>

lemma mkdir_temp_fresh:
  assumes "list_all plain (q @ [pre @ r])" and "dir_chain s q" and "node_at s (q @ [pre @ r]) = None"
    and "fault s = (\<lambda>_ _. None)"
  shows "mkdir_temp (abs_text q) pre (r # rs) s =
           (Inr (abs_text (q @ [pre @ r])), rs, set_node (q @ [pre @ r]) NDir s)"
  using assms locate_missing [of q "pre @ r" s False True] by simp

lemma os_mkdir_new:
  assumes "list_all plain (q @ [c])" and "dir_chain s q" and "node_at s (q @ [c]) = None"
    and "fault s = (\<lambda>_ _. None)"
  shows "os_mkdir (abs_text (q @ [c])) s = (Inr (), set_node (q @ [c]) NDir s)"
  using assms locate_missing [of q c s False True] by (simp add: os_mkdir_def)

text \<open>A module at \<open>q\<close> and a temporary directory at \<open>r\<close>, with a free name \<open>n\<close> in it.\<close>

definition can_copy :: "fsys \<Rightarrow> string list \<Rightarrow> string list \<Rightarrow> string \<Rightarrow> bool" where
  "can_copy s q r n \<longleftrightarrow>
     fs_wf s \<and> fault s = (\<lambda>_ _. None) \<and> list_all plain q \<and> list_all plain (r @ [n]) \<and>
     node_at s q = Some NDir \<and> node_at s r = Some NDir \<and> node_at s (r @ [n]) = None \<and> \<not> under q r \<and>
     (\<forall>x t. node_at s (q @ x) \<noteq> Some (NLink t))"

definition work_dir :: "string list \<Rightarrow> string \<Rightarrow> string list" where
  "work_dir r n = r @ [n, ''001'', ''module'']"

definition temp_dirs :: "string list \<Rightarrow> string \<Rightarrow> fsys \<Rightarrow> fsys" where
  "temp_dirs r n s = set_node (r @ [n, ''001'']) NDir (set_node (r @ [n]) NDir s)"

lemma missing_below: "fs_wf s \<Longrightarrow> node_at s p = None \<Longrightarrow> node_at s (p @ x) = None"
  using wf_parent(1) [of s p x] by (cases "x = []"; cases "node_at s (p @ x)") simp_all

lemma under_trans_missing:
  assumes "can_copy s q r n"
  shows "\<not> under (r @ [n]) q" and "\<not> under q (r @ n # x)"
proof -
  have s: "fs_wf s" "node_at s (r @ [n]) = None" "node_at s q = Some NDir" "\<not> under q r"
    using assms by (simp_all add: can_copy_def)
  show nu: "\<not> under (r @ [n]) q"
  proof
    assume "under (r @ [n]) q"
    then obtain x where "q = (r @ [n]) @ x" using underE by blast
    with missing_below [OF s(1,2), of x] s(3) show False by simp
  qed
  show "\<not> under q (r @ n # x)"
  proof
    assume u: "under q (r @ n # x)"
    then obtain y where y: "r @ n # x = q @ y" using underE by blast
    then consider z where "r = q @ z" | z where "q = (r @ [n]) @ z"
      by (auto simp: append_eq_append_conv2 Cons_eq_append_conv)
    then show False
    proof cases
      case 1
      with s(4) show False by simp
    next
      case 2
      with nu show False by (metis under_append)
    qed
  qed
qed

lemma copyable_temp:
  assumes "can_copy s q r n"
  shows "copyable (temp_dirs r n s) q (work_dir r n)"
    and "node_at (temp_dirs r n s) (q @ x) = node_at s (q @ x)"
    and "fs_wf (temp_dirs r n s)" and "fault (temp_dirs r n s) = fault s"
proof -
  note c = assms [unfolded can_copy_def]
  note u = under_trans_missing [OF assms]
  have p: "plain ''001''" "plain ''module''" by (simp_all add: plain_def)
  have wf1: "fs_wf (set_node (r @ [n]) NDir s)"
    using c by (intro fs_wf_set_node) simp_all
  have none: "node_at s ((r @ [n]) @ x) = None" for x
    using c missing_below [of s "r @ [n]"] by simp
  have "node_at (set_node (r @ [n]) NDir s) (butlast (r @ [n, ''001''])) = Some NDir"
    by (simp add: node_at_set_node butlast_append)
  then show wf: "fs_wf (temp_dirs r n s)"
    unfolding temp_dirs_def using wf1 c p by (intro fs_wf_set_node) simp_all
  show at: "node_at (temp_dirs r n s) (q @ x) = node_at s (q @ x)" for x
  proof -
    have "q @ x \<noteq> r @ [n]" "q @ x \<noteq> r @ [n, ''001'']"
      using u(2) [of "[]"] u(2) [of "[''001'']"] by (metis under_append)+
    then show ?thesis by (simp add: temp_dirs_def node_at_set_node)
  qed
  show fl: "fault (temp_dirs r n s) = fault s" by (simp add: temp_dirs_def)
  show "copyable (temp_dirs r n s) q (work_dir r n)"
    unfolding copyable_def
  proof (intro conjI allI impI)
    show "node_at (temp_dirs r n s) (butlast (work_dir r n)) = Some NDir"
      by (simp add: work_dir_def temp_dirs_def node_at_set_node butlast_append)
    show "\<not> under (work_dir r n) q"
      using u(1) by (auto dest!: underE simp: work_dir_def) (metis append.assoc append_Cons append_Nil under_append)
    show "\<not> under q (work_dir r n)" using u(2) by (simp add: work_dir_def)
    show "node_at (temp_dirs r n s) p = None" if "under (work_dir r n) p" for p
      using underE [OF that] none by (auto simp: work_dir_def temp_dirs_def node_at_set_node)
    show "node_at (temp_dirs r n s) (q @ x) \<noteq> Some (NLink t)" for x t
      using c at by simp
  qed (use c p wf fl in \<open>simp_all add: work_dir_def\<close>)
qed

section \<open>The workspace of a fresh test\<close>

lemma NewWorkspace_runs:
  assumes "t_temp (w_tb w) = []" and "t_seq (w_tb w) = 0"
    and "mkdir_temp (temp_root w) (t_name (w_tb w)) (w_rand w) (w_fs w) = (Inr tmp, rs, s1)"
    and "os_mkdir (tmp @ ''/001'') s1 = (Inr (), s2)"
    and "copyTree fuel md (path_join [tmp @ ''/001'', ''module'']) s2 = Some (e, s3)"
  shows "\<exists>w'. NewWorkspace fuel T md w =
      (case e of None \<Rightarrow> Ret \<lparr>ws_dir = path_join [tmp @ ''/001'', ''module''], ws_src = md\<rparr> | Some _ \<Rightarrow> Goexit, w') \<and>
    w_fs w' = s3 \<and> w_trace w' = w_trace w"
proof -
  have "seq_name 1 = ''001''" by (simp add: seq_name_def nat_digits.simps digit_def eval_nat_numeral)
  with assms show ?thesis
    by (auto simp: NewWorkspace_def real_tb_defs real_temp_dir_def act_simps Let_def temp_root_def getenv_def
        split: option.split)
qed

definition fresh_test :: "'m lt \<Rightarrow> string list \<Rightarrow> string \<Rightarrow> bool" where
  "fresh_test w r x \<longleftrightarrow>
     t_temp (w_tb w) = [] \<and> t_seq (w_tb w) = 0 \<and> temp_root w = abs_text r \<and> w_rand w \<noteq> [] \<and> hd (w_rand w) = x"

lemma temp_dirs_run:
  assumes "fresh_test w r x" and "can_copy (w_fs w) q r (t_name (w_tb w) @ x)"
  shows "mkdir_temp (temp_root w) (t_name (w_tb w)) (w_rand w) (w_fs w) =
      (Inr (abs_text (r @ [t_name (w_tb w) @ x])), tl (w_rand w), set_node (r @ [t_name (w_tb w) @ x]) NDir (w_fs w))"
    and "os_mkdir (abs_text (r @ [t_name (w_tb w) @ x]) @ ''/001'') (set_node (r @ [t_name (w_tb w) @ x]) NDir (w_fs w)) =
      (Inr (), temp_dirs r (t_name (w_tb w) @ x) (w_fs w))"
    and "path_join [abs_text (r @ [t_name (w_tb w) @ x]) @ ''/001'', ''module''] = abs_text (work_dir r (t_name (w_tb w) @ x))"
proof -
  let ?n = "t_name (w_tb w) @ x"
  note c = assms(2) [unfolded can_copy_def]
  have p: "plain ''001''" "plain ''module''" by (simp_all add: plain_def)
  have tx: "abs_text (r @ [?n]) @ ''/001'' = abs_text ((r @ [?n]) @ [''001''])"
    unfolding abs_text_snoc [of "r @ [?n]"] by simp
  have chain: "dir_chain (w_fs w) r" using dir_chain_wf c by blast
  show "mkdir_temp (temp_root w) (t_name (w_tb w)) (w_rand w) (w_fs w) =
      (Inr (abs_text (r @ [?n])), tl (w_rand w), set_node (r @ [?n]) NDir (w_fs w))"
    using assms(1) c chain mkdir_temp_fresh [of r "t_name (w_tb w)" x "w_fs w" "tl (w_rand w)"]
    by (cases "w_rand w") (auto simp: fresh_test_def)
  let ?s = "set_node (r @ [?n]) NDir (w_fs w)"
  have "fs_wf ?s" using c by (intro fs_wf_set_node) simp_all
  then have "dir_chain ?s (r @ [?n])" by (rule dir_chain_wf) (simp add: node_at_set_node)
  moreover have "node_at ?s ((r @ [?n]) @ [''001'']) = None"
    using c missing_below [of "w_fs w" "r @ [?n]" "[''001'']"] by (simp add: node_at_set_node)
  moreover have "list_all plain ((r @ [?n]) @ [''001''])" using c p by simp
  ultimately show "os_mkdir (abs_text (r @ [?n]) @ ''/001'') ?s = (Inr (), temp_dirs r ?n (w_fs w))"
    unfolding tx using c os_mkdir_new [of "r @ [?n]" "''001''" ?s] by (simp add: temp_dirs_def)
  show "path_join [abs_text (r @ [?n]) @ ''/001'', ''module''] = abs_text (work_dir r ?n)"
    unfolding tx using c p path_join_abs_text1 [of "(r @ [?n]) @ [''001'']" "''module''"] by (simp add: work_dir_def)
qed

lemma NewWorkspace_copies:
  assumes "fresh_test w r x" and "can_copy (w_fs w) q r (t_name (w_tb w) @ x)"
    and "\<forall>y. node_at (w_fs w) (q @ y) \<noteq> None \<longrightarrow> length y < fuel"
  shows "\<exists>w'. NewWorkspace fuel T (abs_text q) w =
      (Ret \<lparr>ws_dir = abs_text (work_dir r (t_name (w_tb w) @ x)), ws_src = abs_text q\<rparr>, w') \<and>
    fs_wf (w_fs w') \<and> fault (w_fs w') = (\<lambda>_ _. None) \<and> w_trace w' = w_trace w \<and>
    (\<forall>y. node_at (w_fs w') (work_dir r (t_name (w_tb w) @ x) @ y) =
         map_option (duplicate (w_fs w)) (node_at (w_fs w) (q @ y)))"
proof -
  let ?n = "t_name (w_tb w) @ x" let ?s = "temp_dirs r ?n (w_fs w)"
  note c = assms(2) [unfolded can_copy_def] and ct = copyable_temp [OF assms(2)]
  have "node_at ?s q = Some NDir" using ct(2) [of "[]"] c by simp
  moreover have "\<forall>y. node_at ?s (q @ y) \<noteq> None \<longrightarrow> length y < fuel"
    using ct(2) assms(3) by simp
  ultimately obtain s' where s': "copyTree fuel (abs_text q) (abs_text (work_dir r ?n)) ?s = Some (None, s')"
      "fs_wf s'" "fault s' = fault ?s"
      "\<forall>p. node_at s' p = (if under (work_dir r ?n) p
         then map_option (duplicate ?s) (node_at ?s (q @ drop (length (work_dir r ?n)) p)) else node_at ?s p)"
    using copyTree_copies [OF ct(1)] by blast
  have "duplicate ?s = duplicate (w_fs w)"
  proof
    fix nd
    show "duplicate ?s nd = duplicate (w_fs w) nd"
      by (cases nd) (simp_all add: masked_def temp_dirs_def)
  qed
  with s' ct(2,4) c NewWorkspace_runs [OF _ _ temp_dirs_run(1,2) [OF assms(1,2)], of fuel "abs_text q" None s']
    temp_dirs_run(3) [OF assms(1,2)] assms(1)
  show ?thesis by (auto simp: fresh_test_def)
qed

end
