(* ===== verification/Test_Cases.thy ===== *)
theory Test_Cases
  imports Setup
begin

text \<open>
  The properties of test cases on a real \<^verbatim>\<open>testing.T\<close> (\<^verbatim>\<open>libtftest.go\<close>), over the lemmas of
  \<^verbatim>\<open>Lifecycle\<close> and \<^verbatim>\<open>Setup\<close>, with a concrete test case for the witnesses.
\<close>

section \<open>A test case on concrete answers\<close>

text \<open>Docker gives the container \<^verbatim>\<open>c1\<close>, the AWS configuration loads, Terraform and plans are empty.\<close>

definition demo_cfg_aws :: aws_config where
  "demo_cfg_aws = \<lparr>ac_endpoint = ''http://ls'', ac_region = ''us-east-1'', ac_access_key = ''test'', ac_secret_key = ''test''\<rparr>"

definition demo_aws :: aws_api where
  "demo_aws =
     \<lparr>aw_load = (\<lambda>_ _ _. Inr demo_cfg_aws), aw_do = (\<lambda>_ _ _ _ _. None),
      aw_encryption = (\<lambda>_ _ _ _. Inr None), aw_versioning = (\<lambda>_ _ _ _. Inr ''Enabled''),
      aw_public_access = (\<lambda>_ _ _ _. Inr None), aw_tagging = (\<lambda>_ _ _ _. Inr []),
      aw_parameter = (\<lambda>_ _ _ _. Inr None), aw_resources = (\<lambda>_ _ _ _. Inr [])\<rparr>"

definition demo_tf :: terraform_api where
  "demo_tf =
     \<lparr>tf_init_and_apply = (\<lambda>_ _ _ s. (Inr [], s)), tf_init_and_plan = (\<lambda>_ _ _ s. (Inr [], s)),
      tf_show = (\<lambda>_ _ _ s. (Inr ''{}'', s)), tf_destroy = (\<lambda>_ _ _ s. (Inr [], s)),
      tf_output = (\<lambda>_ _ _ _ s. (Inr [], s))\<rparr>"

definition demo_plan :: plan_api where
  "demo_plan =
     \<lparr>tj_parse = (\<lambda>_. Inr []), tj_create = (\<lambda>as. as = [''create'']), tj_update = (\<lambda>as. as = [''update'']),
      tj_delete = (\<lambda>as. as = [''delete'']),
      tj_replace = (\<lambda>as. as = [''delete'', ''create''] \<or> as = [''create'', ''delete''])\<rparr>"

definition demo_lib :: lib_api where
  "demo_lib = docker_api.extend demo_up (lib_api.fields demo_aws demo_tf demo_plan 4711 0)"

definition demo_opts :: "string \<Rightarrow> Options" where
  "demo_opts dir =
     \<lparr>op_edition = EditionAuto, op_services = [], op_image = [], op_module_dir = dir, op_vars = [],
      op_reuse = None, op_persist_on_failure = False, op_init_hooks = [], op_auto_prefix_vars = False,
      op_edge_url_override = []\<rparr>"

definition demo_files :: fsys where
  "demo_files =
     \<lparr>nodes = [([''m''], NDir), ([''m'', ''main.tf''], NFile ''x'' 420), ([''tmp''], NDir)],
      cwd = [], umask = 18, fault = (\<lambda>_ _. None)\<rparr>"

definition demo_T :: "cleanup gotest" where
  "demo_T = \<lparr>t_name = ''TestX'', t_failed = False, t_skipped = False, t_cleanups = [], t_output = [],
             t_temp = [], t_seq = 0\<rparr>"

definition demo_lw :: "unit lt" where
  "demo_lw =
     \<lparr>w_tb = demo_T, w_env = (\<lambda>_. None), w_goos = ''linux'', w_fs = demo_files, w_rand = [''1''],
      w_cancelled = [], w_trace = [], h_shared = None, h_edge = [], h_seen = [], o_cache = None,
      l_cases = [], \<dots> = ()\<rparr>"

lemma demo_law: "snd (d_run demo_lib over img spec t) \<noteq> None \<Longrightarrow> fst (d_run demo_lib over img spec t) = None"
  by (simp add: demo_lib_def docker_api.defs lib_api.defs demo_docker_def)

abbreviation demo_ctr :: container where
  "demo_ctr \<equiv> \<lparr>ct_id = ''c1'', ct_edge_url = ''http://ls'', ct_edition = EditionCommunity,
              ct_services = [], ct_ctr = Some ''c1''\<rparr>"

abbreviation demo_calls :: "call list" where
  "demo_calls \<equiv>
     [DockerDial False defaultDockerSocket, DockerClose, DockerGet False defaultDockerSocket,
      RunContainer False defaultCommunityImage
        \<lparr>cs_port = edgePort, cs_env = [(''DEBUG'', ''1'')], cs_health_path = ''/_localstack/health'',
         cs_timeout_seconds = 90, cs_binds = []\<rparr>,
      PortEndpoint False ''c1'' edgePort]"

definition demo_w2 :: "string \<Rightarrow> unit lt" where
  "demo_w2 dir =
     demo_lw\<lparr>w_trace := demo_calls,
             l_cases := [(new_case demo_lib T (demo_opts dir) demo_lw)\<lparr>tc_stack := Some demo_ctr, tc_own := True\<rparr>]\<rparr>"

lemma demo_resolve:
  "resolveContainer demo_lib T TestCtx 0
     (demo_lw\<lparr>l_cases := [new_case demo_lib T (demo_opts dir) demo_lw]\<rparr>) = (Ret (), demo_w2 dir)"
  by (simp add: resolveContainer_def the_case_def new_case_def Let_def demo_opts_def Current_def demo_lw_def
      Start_def Ping_def hook_binds_def run_container_def demo_lib_def docker_api.defs lib_api.defs demo_docker_def
      act_simps dockerSocket_def getenv_def ctx_done_def start_spec_def Env_def ResolveImage_def hasAuthToken_def
      DetectEdition_def set_stack_def upd_case_def demo_w2_def)

lemma New_returns:
  assumes "resolveContainer a T (m_context T w) (length (l_cases w))
      (w\<lparr>l_cases := l_cases w @ [new_case a T opts w]\<rparr>) = (Ret (), w2)"
    and "tc_stack (the_case (length (l_cases w)) w2) = Some ctr" and "length (l_cases w) < length (l_cases w2)"
    and "NewWorkspace fuel T (op_module_dir opts) w2 = (Ret work, w3)"
    and "u = (if op_edge_url_override opts \<noteq> [] then op_edge_url_override opts else ct_edge_url ctr)"
    and "WriteOverrides (ws_dir work) u (w_fs w3) = (None, s)" and "\<And>b t. aw_load (a_aws a) b u t = Inr cfg"
  shows "\<exists>w'. New a fuel T opts w = (Ret (length (l_cases w)), w') \<and> w_fs w' = s \<and>
     tc_work (the_case (length (l_cases w)) w') = Some work \<and> tc_aws (the_case (length (l_cases w)) w') = cfg"
proof -
  have "l_cases w3 = l_cases w2" using NewWorkspace_Ret [OF assms(4)] by simp
  with assms show ?thesis
    by (auto simp: New_def Let_def act_simps set_up_def write_overrides_def build_aws_config_def load_config_def
        registerCleanup_run the_case_def on_tb_def)
qed

lemma demo_can_copy: "can_copy demo_files [''m''] [''tmp''] ''TestX1''"
  unfolding can_copy_def
proof (intro conjI allI)
  show "fs_wf demo_files"
    by (simp add: fs_wf_def demo_files_def keys_distinct_def plain_def node_at_def)
qed (auto simp: demo_files_def node_at_def plain_def under_def split: if_splits)

lemma demo_fresh: "fresh_test (demo_w2 dir) [''tmp''] ''1''"
  by (simp add: fresh_test_def demo_w2_def demo_lw_def demo_T_def temp_root_def getenv_def abs_text_def path_text_def)

text \<open>The workspace of a fresh test with the overrides in it.\<close>

lemma workspace_with_overrides:
  assumes fresh: "Setup.fresh_test w r x" and copy: "can_copy (w_fs w) q r (t_name (w_tb w) @ x)"
    and deep: "\<forall>y. node_at (w_fs w) (q @ y) \<noteq> None \<longrightarrow> length y < fuel"
    and free: "node_at (w_fs w) (q @ [providerOverrideFile]) = None" "node_at (w_fs w) (q @ [backendOverrideFile]) = None"
  obtains d w' s m where
    "NewWorkspace fuel T (abs_text q) w = (Ret \<lparr>ws_dir = abs_text d, ws_src = abs_text q\<rparr>, w')"
    "WriteOverrides (abs_text d) u (w_fs w') = (None, s)"
    "node_at s (d @ [providerOverrideFile]) = Some (NFile (marshal_indent (\<lambda>_. []) 0 (provider_value u)) m)"
    "\<And>y. node_at (w_fs w) (q @ y) \<noteq> None \<Longrightarrow>
       node_at s (d @ y) = map_option (duplicate (w_fs w)) (node_at (w_fs w) (q @ y))"
proof -
  let ?d = "work_dir r (t_name (w_tb w) @ x)"
  obtain w' where w': "NewWorkspace fuel T (abs_text q) w = (Ret \<lparr>ws_dir = abs_text ?d, ws_src = abs_text q\<rparr>, w')"
      "fs_wf (w_fs w')" "fault (w_fs w') = (\<lambda>_ _. None)"
      "\<forall>y. node_at (w_fs w') (?d @ y) = map_option (duplicate (w_fs w)) (node_at (w_fs w) (q @ y))"
    using NewWorkspace_copies [OF fresh copy deep] by auto
  have pl: "list_all plain ?d" "node_at (w_fs w) q = Some NDir"
    using copy by (simp_all add: can_copy_def work_dir_def plain_def)
  have "node_at (w_fs w') ?d = Some NDir"
    using w'(4) [rule_format, of "[]"] pl(2) by simp
  moreover have "node_at (w_fs w') (?d @ [providerOverrideFile]) = None" "node_at (w_fs w') (?d @ [backendOverrideFile]) = None"
    using w'(4) free by simp_all
  ultimately obtain s m m' where s: "WriteOverrides (abs_text ?d) u (w_fs w') = (None, s)"
     "\<forall>p. node_at s p =
        (if p = ?d @ [providerOverrideFile] then Some (NFile (marshal_indent (\<lambda>_. []) 0 (provider_value u)) m)
         else if p = ?d @ [backendOverrideFile] then Some (NFile RenderBackendOverride m')
         else node_at (w_fs w') p)"
    using WriteOverrides_ok [OF w'(2) pl(1) _ w'(3)] by metis
  have "node_at s (?d @ y) = map_option (duplicate (w_fs w)) (node_at (w_fs w) (q @ y))"
    if "node_at (w_fs w) (q @ y) \<noteq> None" for y
  proof -
    have "y \<noteq> [providerOverrideFile]" "y \<noteq> [backendOverrideFile]" using that free by auto
    then show ?thesis using s(2) w'(4) by simp
  qed
  with that [OF w'(1) s(1), of m] s(2) show thesis by simp
qed

lemma demo_new: "\<exists>w'. New demo_lib 3 T (demo_opts ''/m'') demo_lw = (Ret 0, w')"
proof -
  let ?w2 = "demo_w2 ''/m''"
  have fs: "w_fs ?w2 = demo_files" "t_name (w_tb ?w2) = ''TestX''"
    by (simp_all add: demo_w2_def demo_lw_def demo_T_def)
  have m: "\<forall>y. node_at (w_fs ?w2) ([''m''] @ y) \<noteq> None \<longrightarrow> length y < 3"
      "node_at (w_fs ?w2) ([''m''] @ [providerOverrideFile]) = None"
      "node_at (w_fs ?w2) ([''m''] @ [backendOverrideFile]) = None"
    by (auto simp: fs demo_files_def node_at_def providerOverrideFile_def backendOverrideFile_def split: if_splits)
  have "can_copy (w_fs ?w2) [''m''] [''tmp''] (t_name (w_tb ?w2) @ ''1'')"
    using demo_can_copy by (simp add: fs)
  then obtain d w3 s mo where ws: "NewWorkspace 3 T (abs_text [''m'']) ?w2 =
      (Ret \<lparr>ws_dir = abs_text d, ws_src = abs_text [''m'']\<rparr>, w3)"
      and wo: "WriteOverrides (abs_text d) ''http://ls'' (w_fs w3) = (None, s)"
    by (rule workspace_with_overrides [OF demo_fresh _ m, of "''http://ls''"])
  have dir: "abs_text [''m''] = ''/m''" by (simp add: abs_text_def path_text_def)
  have lw: "m_context T demo_lw = TestCtx" "length (l_cases demo_lw) = 0" "l_cases demo_lw = []"
    by (simp_all add: real_tb_def demo_lw_def)
  let ?work = "\<lparr>ws_dir = abs_text d, ws_src = ''/m''\<rparr>"
  have "\<exists>w'. New demo_lib 3 T (demo_opts ''/m'') demo_lw = (Ret (length (l_cases demo_lw)), w') \<and> w_fs w' = s \<and>
      tc_work (the_case (length (l_cases demo_lw)) w') = Some ?work \<and>
      tc_aws (the_case (length (l_cases demo_lw)) w') = demo_cfg_aws"
  proof (rule New_returns)
    show "resolveContainer demo_lib T (m_context T demo_lw) (length (l_cases demo_lw))
        (demo_lw\<lparr>l_cases := l_cases demo_lw @ [new_case demo_lib T (demo_opts ''/m'') demo_lw]\<rparr>) = (Ret (), ?w2)"
      using demo_resolve [of "''/m''"] by (simp add: lw)
    show "tc_stack (the_case (length (l_cases demo_lw)) ?w2) = Some demo_ctr"
        "length (l_cases demo_lw) < length (l_cases ?w2)"
      by (simp_all add: lw the_case_def) (simp_all add: demo_w2_def)
    show "NewWorkspace 3 T (op_module_dir (demo_opts ''/m'')) ?w2 = (Ret ?work, w3)"
      using ws by (simp add: dir demo_opts_def)
    show "WriteOverrides (ws_dir ?work) ''http://ls'' (w_fs w3) = (None, s)"
      using wo by simp
  qed (simp_all add: demo_opts_def demo_lib_def docker_api.defs lib_api.defs demo_aws_def)
  then show ?thesis by (auto simp: lw)
qed

section \<open>Properties\<close>


text \<open>
  C24.  Cleanup order.  When \<^verbatim>\<open>New\<close> returns, the closures it has registered run, after the
  test, in this order: dump the artifacts, destroy the module's resources, stop the container
  if \<^verbatim>\<open>New\<close> started it, remove the temporary directory if \<^verbatim>\<open>New\<close> was the first to ask for it.
  So the files of the module are there when it is destroyed, and so is the container.
\<close>

theorem cleanup_order:
  assumes "New a fuel T opts w = (Ret i, w')"
    and "\<And>over img spec t. snd (d_run a over img spec t) \<noteq> None \<Longrightarrow> fst (d_run a over img spec t) = None"
  shows "\<exists>tmp. rev (t_cleanups (w_tb w')) =
     [DumpArtifacts i, TerraformDestroy i] @ (if tc_own (the_case i w') then [StopContainer i] else []) @
     (if t_temp (w_tb w) = [] then [RemoveTemp tmp] else []) @ rev (t_cleanups (w_tb w))"
proof -
  obtain tc tmp where i: "i = length (l_cases w)" "l_cases w' = l_cases w @ [tc]"
     "t_cleanups (w_tb w') = t_cleanups (w_tb w) @ (if t_temp (w_tb w) \<noteq> [] then [] else [RemoveTemp tmp]) @ closures i tc"
    using New_Ret [OF assms] by blast
  then have "the_case i w' = tc" by (simp add: the_case_def)
  with i show ?thesis
    by (intro exI [of _ tmp]) (simp add: closures_def)
qed

text \<open>
  The ledger of a test: the calls of \<^verbatim>\<open>New\<close>, in which at most the container \<open>h\<close> was handed out, the
  calls of the test, and those of its closures, which stop \<open>h\<close> unless it is kept.
\<close>

lemma ledger_of_a_test:
  assumes "list_all neutral t2" and "list_all no_start t3"
    and "own \<longrightarrow> running a tr t1 = [h]" and "\<not> own \<longrightarrow> t1 = []" and "own \<Longrightarrow> \<not> keep \<Longrightarrow> h \<in> terminated t3"
  shows "keep \<or> running a tr (t1 @ t2 @ t3) = []"
proof (cases own)
  case False
  with assms(4) show ?thesis
    using assms(1,2) by (simp add: running_def handed_out_append handed_out_neutral no_start_handed_out)
next
  case True
  have "k = h" if "k \<in> set (handed_out a tr t1)" "k \<notin> terminated t1" for k
  proof -
    have "k \<in> set (running a tr t1)" using that by (simp add: running_def)
    with True assms(3) show ?thesis by simp
  qed
  moreover have "handed_out a tr (t1 @ t2 @ t3) = handed_out a tr t1"
    using assms(1,2) by (simp add: handed_out_append handed_out_neutral no_start_handed_out)
  ultimately show ?thesis
    using assms(5) [OF True] by (auto simp: running_def terminated_def filter_empty_conv)
qed


text \<open>
  Destruction works after the test.  The destroy closure runs after the context of the test
  has been cancelled, and still makes its one call with a context that is not done; it uses
  the workspace of the test case and the variables as they are then, so also those set after
  the last \<^verbatim>\<open>Apply\<close>.
\<close>

theorem destroy_uses_the_latest_variables:
  assumes "tc_work (the_case i w) = Some work" and "i < length (l_cases w)"
    and "\<not> (op_persist_on_failure (tc_opts (the_case i w)) \<and> t_failed (w_tb w))"
  shows "\<exists>tfOpts. calls_of (run_cleanup a T (TerraformDestroy i)) (cancel TestCtx (SetVar i k v w)) = [TfDestroy False tfOpts] \<and>
     to_dir tfOpts = ws_dir work \<and> map_of (to_vars tfOpts) = (map_of (tc_vars (the_case i w)))(k \<mapsto> v)"
proof -
  let ?w = "cancel TestCtx (SetVar i k v w)"
  have c: "the_case i ?w = (the_case i w)\<lparr>tc_vars := put k v (tc_vars (the_case i w))\<rparr>"
    using assms(2) by (simp add: the_case_def cancel_def SetVar_def)
  have f: "t_failed (w_tb ?w) = t_failed (w_tb w)"
    by (simp add: cancel_def SetVar_def)
  obtain env s cache where b: "BuildOptions (ws_dir work) (put k v (tc_vars (the_case i w))) ?w =
     (Ret \<lparr>to_dir = ws_dir work, to_vars = put k v (tc_vars (the_case i w)), to_env = env, to_no_color = True,
           to_lock = True, to_lock_timeout = ''60s'', to_plan_file = []\<rparr>, ?w\<lparr>w_fs := s, o_cache := cache\<rparr>)"
    using BuildOptions_run by blast
  show ?thesis
    using assms(1,3)
    by (auto simp: terraform_destroy_def with_work_def c f b calls_of_def act_simps real_tb_defs Let_def split: sum.split)
qed


text \<open>
  C32.  A failed set-up leaks its container.  When \<^verbatim>\<open>New\<close> does not return (the module cannot be
  copied, an override cannot be written, the AWS configuration cannot be loaded) nothing
  that stops a container is registered: after the closures have run, the containers that
  \<^verbatim>\<open>New\<close> has started are still running, whatever the options say.
\<close>

theorem failed_set_up_leaks_the_container:
  fixes w :: "'m lt"
  assumes "\<And>x. fst (New a fuel T opts w) \<noteq> Ret x" and "t_cleanups (w_tb w) = []"
  shows "\<exists>n w'. run_test n (run_cleanup a T) (bnd (New a fuel T opts) rest) w = Some w' \<and>
     running a (w_trace w) (drop (length (w_trace w)) (w_trace w')) =
     running a (w_trace w) (calls_of (New a fuel T opts) w)"
proof -
  obtain oc w1 where n: "New a fuel T opts w = (oc, w1)" by (cases "New a fuel T opts w")
  then obtain ds where ds: "t_cleanups (w_tb w1) = map RemoveTemp ds"
    using quits_New [of a fuel opts w] assms by (auto simp: quits_def only_temp_def)
  have b: "snd (bnd (New a fuel T opts) rest w) = w1"
    using n assms(1) by (cases oc) (auto simp: bnd_run)
  let ?w2 = "cancel TestCtx w1"
  have silent: "w_trace (call_each (run_cleanup a T) (map RemoveTemp es) v) = w_trace v" for es and v :: "'m lt"
  proof (induction es arbitrary: v)
    case (Cons e es)
    then show ?case by (simp add: on_tb_def)
  qed simp
  have "run_test (length ds) (run_cleanup a T) (bnd (New a fuel T opts) rest) w =
      Some (call_each (run_cleanup a T) (map RemoveTemp (rev ds)) ?w2)"
    using lib_cleanups.drain_all [of ?w2 "map RemoveTemp (rev ds)" "length ds" a] ds
    by (simp add: run_test_def b cancel_def rev_map)
  moreover have "w_trace (call_each (run_cleanup a T) (map RemoveTemp (rev ds)) ?w2) = w_trace w1"
    by (simp add: silent cancel_def)
  ultimately show ?thesis
    using n by (intro exI [of _ "length ds"] exI) (auto simp: calls_of_def)
qed




theorem cleanup_order_witness:
  "\<exists>w' tmp. New demo_lib 3 T (demo_opts ''/m'') demo_lw = (Ret 0, w') \<and>
     rev (t_cleanups (w_tb w')) = [DumpArtifacts 0, TerraformDestroy 0] @
       (if tc_own (the_case 0 w') then [StopContainer 0] else []) @ [RemoveTemp tmp]"
proof -
  obtain w' where w': "New demo_lib 3 T (demo_opts ''/m'') demo_lw = (Ret 0, w')" using demo_new by blast
  have "t_temp (w_tb demo_lw) = []" "t_cleanups (w_tb demo_lw) = []" by (simp_all add: demo_lw_def demo_T_def)
  with cleanup_order [OF w' demo_law] w' show ?thesis by auto
qed


theorem destroy_uses_the_latest_variables_witness:
  "\<exists>tfOpts. calls_of (run_cleanup demo_lib T (TerraformDestroy 0))
       (cancel TestCtx (SetVar 0 ''env'' (AnyStr ''prod'')
          (upd_case 0 (\<lambda>tc. tc\<lparr>tc_work := Some \<lparr>ws_dir = ''/w'', ws_src = ''/m''\<rparr>\<rparr>) (demo_w2 ''/m'')))) =
     [TfDestroy False tfOpts] \<and> to_dir tfOpts = ''/w'' \<and> map_of (to_vars tfOpts) ''env'' = Some (AnyStr ''prod'')"
proof -
  let ?w = "upd_case 0 (\<lambda>tc. tc\<lparr>tc_work := Some \<lparr>ws_dir = ''/w'', ws_src = ''/m''\<rparr>\<rparr>) (demo_w2 ''/m'')"
  have "tc_work (the_case 0 ?w) = Some \<lparr>ws_dir = ''/w'', ws_src = ''/m''\<rparr>" "0 < length (l_cases ?w)"
      "\<not> (op_persist_on_failure (tc_opts (the_case 0 ?w)) \<and> t_failed (w_tb ?w))"
    by (simp_all add: the_case_def demo_w2_def new_case_def demo_opts_def Let_def)
  from destroy_uses_the_latest_variables [OF this, of demo_lib "''env''" "AnyStr ''prod''"] show ?thesis
    by auto
qed


lemma copyTree_missing: "os_lstat s src = Inl e \<Longrightarrow> copyTree (Suc n) src dst s = Some (Some e, s)"
  by (simp add: walk_def copy_entry_def)

lemma New_stops:
  assumes "resolveContainer a T (m_context T w) (length (l_cases w))
      (w\<lparr>l_cases := l_cases w @ [new_case a T opts w]\<rparr>) = (Ret (), w2)"
    and "tc_stack (the_case (length (l_cases w)) w2) = Some ctr"
    and "NewWorkspace fuel T (op_module_dir opts) w2 = (Goexit, w3)"
  shows "New a fuel T opts w = (Goexit, w3)"
  using assms by (simp add: New_def Let_def act_simps set_up_def)

lemma demo_new_missing: "\<exists>w'. New demo_lib 3 T (demo_opts ''/none'') demo_lw = (Goexit, w') \<and> w_trace w' = demo_calls"
proof -
  let ?w2 = "demo_w2 ''/none''" let ?s = "temp_dirs [''tmp''] ''TestX1'' demo_files"
  have fs: "w_fs ?w2 = demo_files" "t_name (w_tb ?w2) = ''TestX''" "w_trace ?w2 = demo_calls"
    by (simp_all add: demo_w2_def demo_lw_def demo_T_def)
  have fresh: "t_temp (w_tb ?w2) = []" "t_seq (w_tb ?w2) = 0"
    by (simp_all add: demo_w2_def demo_lw_def demo_T_def)
  have "can_copy (w_fs ?w2) [''m''] [''tmp''] (t_name (w_tb ?w2) @ ''1'')"
    using demo_can_copy by (simp add: fs)
  note t = temp_dirs_run [OF demo_fresh [of "''/none''"] this]
  have none: "''/none'' = abs_text ([] @ [''none''])" by (simp add: abs_text_def path_text_def)
  have "locate ?s False False (abs_text ([] @ [''none''])) = Inl ErrNotExist"
    using locate_missing [of "[]" "''none''" ?s False False]
    by (simp add: plain_def temp_dirs_def node_at_set_node) (simp add: demo_files_def node_at_def)
  then have "os_lstat ?s ''/none'' = Inl ErrNotExist"
    unfolding none by (simp add: os_lstat_def stat_with_def temp_dirs_def demo_files_def)
  then have "copyTree 3 ''/none'' (path_join [abs_text ([''tmp''] @ [''TestX1'']) @ ''/001'', ''module'']) ?s =
      Some (Some ErrNotExist, ?s)"
    using copyTree_missing [of ?s "''/none''" ErrNotExist 2] by (simp add: eval_nat_numeral)
  then obtain w3 where w3: "NewWorkspace 3 T ''/none'' ?w2 = (Goexit, w3)" "w_trace w3 = demo_calls"
    using NewWorkspace_runs [OF fresh, of "abs_text ([''tmp''] @ [''TestX1''])" "tl (w_rand ?w2)" _ ?s 3 "''/none''" "Some ErrNotExist" ?s]
      t(1,2) by (fastforce simp: fs)
  have lw: "m_context T demo_lw = TestCtx" "length (l_cases demo_lw) = 0" "l_cases demo_lw = []"
    by (simp_all add: real_tb_def demo_lw_def)
  have "New demo_lib 3 T (demo_opts ''/none'') demo_lw = (Goexit, w3)"
  proof (rule New_stops)
    show "resolveContainer demo_lib T (m_context T demo_lw) (length (l_cases demo_lw))
        (demo_lw\<lparr>l_cases := l_cases demo_lw @ [new_case demo_lib T (demo_opts ''/none'') demo_lw]\<rparr>) = (Ret (), ?w2)"
      using demo_resolve [of "''/none''"] by (simp add: lw)
    show "tc_stack (the_case (length (l_cases demo_lw)) ?w2) = Some demo_ctr"
      by (simp add: lw the_case_def) (simp add: demo_w2_def)
    show "NewWorkspace 3 T (op_module_dir (demo_opts ''/none'')) ?w2 = (Goexit, w3)"
      using w3(1) by (simp add: demo_opts_def)
  qed
  with w3(2) show ?thesis by blast
qed

theorem failed_set_up_leaks_the_container_witness:
  "\<exists>n w'. run_test n (run_cleanup demo_lib T) (bnd (New demo_lib 3 T (demo_opts ''/none'')) (\<lambda>_. skip)) demo_lw = Some w' \<and>
     running demo_lib [] (w_trace w') = [''c1'']"
proof -
  obtain w1 where w1: "New demo_lib 3 T (demo_opts ''/none'') demo_lw = (Goexit, w1)" "w_trace w1 = demo_calls"
    using demo_new_missing by blast
  have lw: "w_trace demo_lw = []" "t_cleanups (w_tb demo_lw) = []" by (simp_all add: demo_lw_def demo_T_def)
  have "running demo_lib [] demo_calls = [''c1'']"
    by (simp add: running_def terminated_def demo_lib_def docker_api.defs lib_api.defs demo_docker_def)
  then show ?thesis
    using failed_set_up_leaks_the_container [of demo_lib 3 "demo_opts ''/none''" demo_lw "\<lambda>_. skip"] w1 lw
    by (auto simp: calls_of_def)
qed

end
