(* ===== verification/Suite.thy ===== *)
theory Suite
  imports Test_Cases
begin

text \<open>
  A whole test package: \<^verbatim>\<open>harness.Run\<close> around \<^verbatim>\<open>m.Run\<close>, which runs the tests one after the
  other, each on a fresh \<^verbatim>\<open>testing.T\<close>, each with a test case made by \<^verbatim>\<open>libtftest.New\<close>.
\<close>

section \<open>The tests of a package\<close>

text \<open>A test: its name, the options it gives to \<^verbatim>\<open>New\<close>, and what it does with the test case.\<close>

type_synonym 'm test = "string \<times> Options \<times> (nat \<Rightarrow> ('m lt, unit) act)"

definition new_test :: "string \<Rightarrow> 'm lt \<Rightarrow> 'm lt" where
  "new_test name w =
     w\<lparr>w_tb := \<lparr>t_name = name, t_failed = False, t_skipped = False, t_cleanups = [], t_output = [],
                t_temp = [], t_seq = 0\<rparr>,
       w_cancelled := filter (\<lambda>c. c \<noteq> TestCtx) (w_cancelled w)\<rparr>"

text \<open>
  \<^verbatim>\<open>m.Run\<close>: the status is 1 when a test has failed.  A panic in a test ends the process once the
  closures of that test have run, and so does \<^verbatim>\<open>os.Exit\<close> without running them.
\<close>

fun run_suite :: "lib_api \<Rightarrow> nat \<Rightarrow> 'm test list \<Rightarrow> ('m lt, int) act" where
  "run_suite a fuel [] = ret 0"
| "run_suite a fuel ((name, opts, rest) # ts) = (\<lambda>w.
     (let w0 = new_test name w; body = bnd (New a fuel T opts) rest; (oc, w1) = body w0 in
      case run_test (length (t_cleanups (w_tb w1))) (run_cleanup a T) body w0 of
        None \<Rightarrow> (Panicked ''out of fuel'', w1)
      | Some w2 \<Rightarrow>
          (case oc of
             Panicked p \<Rightarrow> (Panicked p, w2)
           | Exited c \<Rightarrow> (Exited c, w1)
           | _ \<Rightarrow> bnd (run_suite a fuel ts) (\<lambda>code. ret (if t_failed (w_tb w2) then 1 else code)) w2)))"

section \<open>Tests that share the container\<close>

text \<open>
  Calls that concern neither a container nor a sidecar.  A step of an attached test case, the
  one with the number \<open>i\<close>, makes only such calls, keeps the shared container and what has been
  cancelled, and registers no closure that stops a container.
\<close>

definition quiet :: "call \<Rightarrow> bool" where
  "quiet c \<longleftrightarrow> neutral c \<and> no_sidecar_call c"

definition joined :: "nat \<Rightarrow> 'm lt \<Rightarrow> bool" where
  "joined i w \<longleftrightarrow> i < length (l_cases w) \<and> \<not> tc_own (the_case i w)"

definition shares :: "'m lt \<Rightarrow> 'm lt \<Rightarrow> bool" where
  "shares w w' \<longleftrightarrow> h_shared w' = h_shared w \<and> set (w_cancelled w) \<subseteq> set (w_cancelled w') \<and>
     (\<exists>t. w_trace w' = w_trace w @ t \<and> list_all quiet t) \<and>
     (\<exists>ds. t_cleanups (w_tb w') = t_cleanups (w_tb w) @ ds \<and> (\<forall>i. StopContainer i \<notin> set ds))"

definition attached :: "nat \<Rightarrow> 'm lt \<Rightarrow> 'm lt \<Rightarrow> bool" where
  "attached i w w' \<longleftrightarrow> shares w w' \<and> (joined i w \<longrightarrow> joined i w')"

lemma shares_refl: "shares w w"
  by (simp add: shares_def)

lemma shares_trans: "shares w w' \<Longrightarrow> shares w' w'' \<Longrightarrow> shares w w''"
  by (fastforce simp: shares_def)

lemma attached_refl: "attached i w w"
  by (simp add: attached_def shares_refl)

lemma attached_trans: "attached i w w' \<Longrightarrow> attached i w' w'' \<Longrightarrow> attached i w w''"
  by (auto simp: attached_def intro: shares_trans)

text \<open>What only changes the handle's own fields, the files, or a test case but not its ownership.\<close>

lemma attached_same:
  "h_shared w' = h_shared w \<Longrightarrow> w_cancelled w' = w_cancelled w \<Longrightarrow> w_trace w' = w_trace w \<Longrightarrow>
   t_cleanups (w_tb w') = t_cleanups (w_tb w) \<Longrightarrow> l_cases w' = l_cases w \<Longrightarrow> attached i w w'"
  by (simp add: attached_def shares_def joined_def the_case_def)

lemma attached_bnd:
  assumes "joined i w" and "attached i w (snd (m w))" and "\<And>x v. joined i v \<Longrightarrow> attached i v (snd (f x v))"
  shows "attached i w (snd (bnd m f w))"
proof (cases "m w")
  case (Pair oc w1)
  with assms(1,2) have j: "joined i w1" by (simp add: attached_def)
  show ?thesis
  proof (cases oc)
    case (Ret x)
    with Pair attached_trans [OF _ assms(3) [OF j]] assms(2) show ?thesis by (simp add: bnd_run)
  qed (use assms(2) Pair in \<open>simp_all add: bnd_run\<close>)
qed

lemma attached_andthen:
  "joined i w \<Longrightarrow> attached i w (snd (m w)) \<Longrightarrow> (\<And>v. joined i v \<Longrightarrow> attached i v (snd (k v))) \<Longrightarrow>
   attached i w (snd (andthen m k w))"
  unfolding andthen_def by (rule attached_bnd)

lemma attached_upd:
  assumes "\<And>tc. tc_own (f tc) = tc_own tc"
  shows "attached i w (upd_case j f w)"
proof -
  have "joined i w \<Longrightarrow> joined i (upd_case j f w)"
    using assms by (cases "i = j") (simp_all add: joined_def the_case_def)
  moreover have "w_cancelled (upd_case j f w) = w_cancelled w" by (simp add: upd_case_def)
  ultimately show ?thesis by (simp add: attached_def shares_def)
qed

section \<open>New with a shared container\<close>

lemma attached_temp_dir: "attached i w (snd (m_temp_dir T w))"
  by (auto simp: real_tb_defs real_temp_dir_def act_simps Let_def attached_def shares_def joined_def the_case_def
      split: prod.split sum.split)

lemma attached_NewWorkspace:
  assumes "joined i w"
  shows "attached i w (snd (NewWorkspace fuel T md w))"
  unfolding NewWorkspace_def Let_def
  by (rule attached_bnd, rule assms, rule attached_temp_dir)
     (auto simp: andthen_run ret_run real_tb_defs attached_refl intro!: attached_same split: option.split prod.split)

lemma attached_build_aws_config: "attached i w (snd (build_aws_config a T ctx u w))"
  by (auto simp: build_aws_config_def load_config_def act_simps real_tb_defs Let_def attached_def shares_def joined_def
      the_case_def quiet_def split: sum.split)

lemma attached_registerCleanup: "joined i w \<Longrightarrow> attached i w (snd (registerCleanup T i w))"
  by (simp add: registerCleanup_run attached_def shares_def joined_def the_case_def on_tb_def closures_def)

lemma attached_set_up:
  assumes "joined i w"
  shows "attached i w (snd (set_up a fuel T ctx i ctr opts w))"
proof -
  have wo: "attached i v (snd (write_overrides T d u v))" for d u and v :: "'a lt"
    by (auto simp: write_overrides_def real_tb_defs intro!: attached_same split: prod.split option.split)
  show ?thesis
    unfolding set_up_def Let_def
    by (intro attached_bnd attached_andthen attached_NewWorkspace attached_build_aws_config attached_registerCleanup
          wo assms)
       (simp_all add: modify_run attached_upd)
qed

lemma shares_New:
  assumes "h_shared w \<noteq> None"
  shows "shares w (snd (New a fuel T opts w))" and "fst (New a fuel T opts w) = Ret i \<Longrightarrow> joined i (snd (New a fuel T opts w))"
proof -
  let ?i = "length (l_cases w)"
  let ?w1 = "w\<lparr>l_cases := l_cases w @ [new_case a T opts w]\<rparr>"
  have o: "tc_opts (the_case ?i ?w1) = opts" "Current ?w1 = h_shared w"
    by (simp_all add: the_case_def new_case_def Let_def Current_def)
  obtain ctr where r: "resolveContainer a T (m_context T w) ?i ?w1 = set_stack ?i (Some ctr) False ?w1"
    using assms o by (cases "op_reuse opts") (auto simp: resolveContainer_def Let_def)
  let ?w2 = "upd_case ?i (\<lambda>tc. tc\<lparr>tc_stack := Some ctr, tc_own := False\<rparr>) ?w1"
  have j: "joined ?i ?w2" "tc_stack (the_case ?i ?w2) = Some ctr" by (simp_all add: joined_def the_case_def)
  have New: "New a fuel T opts w = andthen (set_up a fuel T (m_context T w) ?i ctr opts) (ret ?i) ?w2"
    using j(2) by (simp add: New_def Let_def andthen_run modify_run r set_stack_def bnd_run gets_run)
  have "attached ?i ?w2 (snd (New a fuel T opts w))"
    unfolding New by (rule attached_andthen, rule j, rule attached_set_up, rule j) (simp add: ret_run attached_refl)
  then have a: "shares ?w2 (snd (New a fuel T opts w))" "joined ?i (snd (New a fuel T opts w))"
    using j(1) by (simp_all add: attached_def)
  moreover have "shares w ?w2" by (simp add: shares_def) (simp add: upd_case_def)
  ultimately show "shares w (snd (New a fuel T opts w))" by (blast intro: shares_trans)
  assume "fst (New a fuel T opts w) = Ret i"
  then have "i = ?i"
    by (auto simp: New andthen_run ret_run split: prod.splits outcome.splits)
  with a(2) show "joined i (snd (New a fuel T opts w))" by simp
qed

section \<open>The whole package\<close>

text \<open>What a test may do with its test case, in any way it likes: apply, plan, assert, seed, fail.\<close>

definition polite :: "(nat \<Rightarrow> ('m lt, unit) act) \<Rightarrow> bool" where
  "polite rest \<longleftrightarrow> (\<forall>i w. joined i w \<longrightarrow> attached i w (snd (rest i w)))"

lemma shares_body:
  assumes "h_shared w \<noteq> None" and "polite rest"
  shows "shares w (snd (bnd (New a fuel T opts) rest w))"
proof (cases "New a fuel T opts w")
  case (Pair oc w1)
  with shares_New [OF assms(1), of a fuel opts] have s: "shares w w1" "\<And>i. oc = Ret i \<Longrightarrow> joined i w1" by simp_all
  then show ?thesis
    using Pair assms(2) shares_trans [OF s(1)]
    by (cases oc) (auto simp: bnd_run polite_def attached_def)
qed

text \<open>From one test to the next: the container stays, and so does the cancelled startup context.\<close>

definition goes_on :: "'m lt \<Rightarrow> 'm lt \<Rightarrow> bool" where
  "goes_on w w' \<longleftrightarrow> h_shared w' = h_shared w \<and> (ctx_done w startup_ctx \<longrightarrow> ctx_done w' startup_ctx) \<and>
     (\<exists>t. w_trace w' = w_trace w @ t \<and> list_all quiet t)"

lemma goes_on_trans: "goes_on w w' \<Longrightarrow> goes_on w' w'' \<Longrightarrow> goes_on w w''"
  by (fastforce simp: goes_on_def)

lemma goes_on_shares: "shares w w' \<Longrightarrow> goes_on w w'"
  by (auto simp: shares_def goes_on_def ctx_done_def startup_ctx_def)

lemma goes_on_new_test: "goes_on w (new_test name w)"
  by (simp add: goes_on_def new_test_def ctx_done_def startup_ctx_def)

lemma goes_on_cancel: "goes_on w (cancel c w)"
  by (simp add: goes_on_def cancel_def ctx_done_def startup_ctx_def)

lemma goes_on_closures:
  "\<forall>i. StopContainer i \<notin> set cs \<Longrightarrow> goes_on w (call_each (run_cleanup a T) cs w)"
proof (induction cs arbitrary: w)
  case Nil
  show ?case by (simp add: goes_on_def)
next
  case (Cons c cs)
  let ?w = "on_tb (\<lambda>t. t\<lparr>t_cleanups := rev cs\<rparr>) w"
  have "calmly quiet ?w (snd (run_cleanup a T c ?w))"
    using Cons.prems by (intro calm_cleanup) (auto simp: quiet_def)
  from calmlyD(4-6) [OF this] have "goes_on w (snd (run_cleanup a T c ?w))"
    by (auto simp: goes_on_def ctx_done_def startup_ctx_def on_tb_def)
  moreover have "goes_on (snd (run_cleanup a T c ?w)) (call_each (run_cleanup a T) cs (snd (run_cleanup a T c ?w)))"
    using Cons by simp
  ultimately show ?case by (auto intro: goes_on_trans)
qed

lemma run_suite_goes_on:
  "h_shared w \<noteq> None \<Longrightarrow> \<forall>(name, opts, rest)\<in>set ts. polite rest \<Longrightarrow> goes_on w (snd (run_suite a fuel ts w))"
proof (induction ts arbitrary: w)
  case Nil
  show ?case by (simp add: ret_run goes_on_def)
next
  case (Cons t ts)
  obtain name opts rest where t: "t = (name, opts, rest)" by (cases t)
  let ?w0 = "new_test name w" and ?body = "bnd (New a fuel T opts) rest"
  obtain oc w1 where b: "?body ?w0 = (oc, w1)" by (cases "?body ?w0")
  have w0: "h_shared ?w0 \<noteq> None" "t_cleanups (w_tb ?w0) = []"
    using Cons.prems(1) by (simp_all add: new_test_def)
  have sh: "shares ?w0 w1"
    using shares_body [OF w0(1), of rest a fuel opts] Cons.prems(2) t b by simp
  let ?cs = "rev (t_cleanups (w_tb w1))" and ?w1 = "cancel TestCtx w1"
  let ?w2 = "call_each (run_cleanup a T) ?cs ?w1"
  have run: "run_test (length (t_cleanups (w_tb w1))) (run_cleanup a T) ?body ?w0 = Some ?w2"
    using lib_cleanups.drain_all [of ?w1 ?cs "length ?cs" a] b by (simp add: run_test_def cancel_def)
  have w1: "goes_on w w1"
    using goes_on_new_test goes_on_shares [OF sh] goes_on_trans by blast
  have "\<forall>i. StopContainer i \<notin> set ?cs"
    using sh w0(2) by (auto simp: shares_def)
  then have w2: "goes_on w ?w2"
    using w1 goes_on_cancel goes_on_closures goes_on_trans by metis
  then have "goes_on ?w2 (snd (run_suite a fuel ts ?w2))"
    using Cons by (auto simp: goes_on_def)
  then have "goes_on w (snd (bnd (run_suite a fuel ts) (\<lambda>code. ret (if t_failed (w_tb ?w2) then 1 else code)) ?w2))"
    using goes_on_trans [OF w2] by (auto simp: bnd_run ret_run split: prod.split outcome.split)
  then show ?case
    using w1 w2 run b by (cases oc) (simp_all add: t Let_def)
qed

text \<open>
  \<^verbatim>\<open>Run\<close> around a package whose tests are polite: between its start and its end there are only
  quiet calls, and unless a test ends the process the teardown follows.
\<close>

lemma package_trace:
  assumes "Start a startup_ctx (ls_cfg_of cfg) w = (Ret (Inr c), w1)"
    and "\<And>i b u t. s_start s i b u t = Inr (url i)" and "ct_ctr c = Some h"
    and "\<forall>(name, opts, rest)\<in>set tests. polite rest"
  shows "\<exists>w2 t. Current w2 = Some c \<and> list_all neutral t \<and>
     (case fst (run_suite a fuel tests w2) of
        Ret code \<Rightarrow>
          fst (Run a s (run_suite a fuel tests) cfg w) = Exited code \<and>
          w_trace (snd (Run a s (run_suite a fuel tests) cfg w)) = w_trace w1 @ t @ [TerminateContainer h]
      | _ \<Rightarrow> w_trace (snd (Run a s (run_suite a fuel tests) cfg w)) = w_trace w1 @ t)"
proof -
  note start = start_sidecars_all [OF assms(2), of c "[]" "hc_sidecars cfg" "container_up c w1"]
  let ?w2 = "cancel startup_ctx (snd (start_sidecars s c [] (hc_sidecars cfg) (container_up c w1)))"
  let ?starts = "map (\<lambda>i. SidecarStart i (ctx_done w1 startup_ctx) (ct_edge_url c)) (hc_sidecars cfg)"
  let ?stops = "map (\<lambda>i. SidecarStop i True) (rev (hc_sidecars cfg))"
  have w2: "h_shared ?w2 = Some c" "w_trace ?w2 = w_trace w1 @ ?starts" "ctx_done ?w2 startup_ctx"
    unfolding start by (simp_all add: cancel_def container_up_def ctx_done_def startup_ctx_def)
  have eq: "Run a s (run_suite a fuel tests) cfg w = after_startup a s (run_suite a fuel tests) (hc_sidecars cfg) c ?w2"
    using Run_started [OF assms(1) start] start by simp
  obtain oc w3 where m: "run_suite a fuel tests ?w2 = (oc, w3)" by (cases "run_suite a fuel tests ?w2")
  have "goes_on ?w2 w3"
    using run_suite_goes_on [of ?w2 tests a fuel] w2(1) assms(4) m by simp
  then obtain t where t: "w_trace w3 = w_trace w1 @ ?starts @ t" "list_all quiet t" "ctx_done w3 startup_ctx"
    using w2 by (auto simp: goes_on_def)
  have n: "list_all neutral (?starts @ t @ ?stops)" "list_all neutral (?starts @ t)"
    using t(2) by (auto simp: list_all_iff quiet_def)
  show ?thesis
  proof (cases oc)
    case (Ret code)
    with m t(1,3) n(1) w2(1) show ?thesis
      by (intro exI [of _ ?w2] exI [of _ "?starts @ t @ ?stops"])
         (simp add: eq after_startup_def stopAll_run [OF assms(3)] act_simps Current_def)
  qed (use m t(1) n(2) w2(1) in
    \<open>intro exI [of _ ?w2] exI [of _ "?starts @ t"], simp add: eq after_startup_def bnd_run Current_def\<close>)+
qed

end
