(* ===== verification/Idempotency.thy ===== *)
theory Idempotency
  imports Test_Cases
begin

text \<open>
  Plans and the idempotency assertions of \<^verbatim>\<open>libtftest.go\<close>: what the counts of a plan say about its
  resource changes, and when the assertions fail.
\<close>

section \<open>Counting\<close>

definition of_kind :: "(string list \<Rightarrow> bool) \<Rightarrow> string list option list \<Rightarrow> int" where
  "of_kind P rcs = int (length (filter (\<lambda>rc. case rc of None \<Rightarrow> False | Some acts \<Rightarrow> P acts) rcs))"

definition changes :: "plan_api \<Rightarrow> string list option \<Rightarrow> bool" where
  "changes p rc =
     (case rc of None \<Rightarrow> False
      | Some acts \<Rightarrow> tj_create p acts \<or> tj_update p acts \<or> tj_delete p acts \<or> tj_replace p acts)"

text \<open>The four readings of the actions exclude each other, as those of \<^verbatim>\<open>terraform-json\<close> do.\<close>

definition exclusive :: "plan_api \<Rightarrow> bool" where
  "exclusive p \<longleftrightarrow>
     (\<forall>acts. (tj_create p acts \<longrightarrow> \<not> tj_update p acts \<and> \<not> tj_delete p acts \<and> \<not> tj_replace p acts) \<and>
             (tj_update p acts \<longrightarrow> \<not> tj_delete p acts \<and> \<not> tj_replace p acts) \<and>
             (tj_delete p acts \<longrightarrow> \<not> tj_replace p acts))"

lemma of_kind_simps [simp]:
  "of_kind P [] = 0" "of_kind P (None # rcs) = of_kind P rcs"
  "of_kind P (Some acts # rcs) = (if P acts then 1 else 0) + of_kind P rcs"
  by (simp_all add: of_kind_def)

lemma count_changes_sums:
  "exclusive p \<Longrightarrow> count_changes p rcs ch =
     \<lparr>pc_add = pc_add ch + of_kind (tj_create p) rcs + of_kind (tj_replace p) rcs,
      pc_change = pc_change ch + of_kind (tj_update p) rcs,
      pc_destroy = pc_destroy ch + of_kind (tj_delete p) rcs + of_kind (tj_replace p) rcs\<rparr>"
proof (induction p rcs ch rule: count_changes.induct)
  case (3 p acts rcs ch)
  then show ?case by (auto simp: exclusive_def)
qed simp_all

definition change_total :: "PlanChanges \<Rightarrow> int" where
  "change_total ch = pc_add ch + pc_change ch + pc_destroy ch"

lemma count_changes_total: "change_total ch + int (length (filter (changes p) rcs)) \<le> change_total (count_changes p rcs ch)"
proof (induction p rcs ch rule: count_changes.induct)
  case (3 p acts rcs ch)
  then show ?case by (auto simp: changes_def change_total_def)
qed (simp_all add: changes_def)

lemma count_changes_none: "\<not> list_ex (changes p) rcs \<Longrightarrow> count_changes p rcs ch = ch"
  by (induction p rcs ch rule: count_changes.induct) (auto simp: changes_def)

lemma total_pos: "0 < change_total (count_changes p rcs no_changes) \<longleftrightarrow> list_ex (changes p) rcs"
proof (cases "list_ex (changes p) rcs")
  case True
  then have "filter (changes p) rcs \<noteq> []" by (auto simp: list_ex_iff filter_empty_conv)
  then have "0 < length (filter (changes p) rcs)" by blast
  moreover have "change_total no_changes + int (length (filter (changes p) rcs)) \<le> change_total (count_changes p rcs no_changes)"
    by (rule count_changes_total)
  moreover have "change_total no_changes = 0" by (simp add: change_total_def no_changes_def)
  ultimately have "0 < change_total (count_changes p rcs no_changes)" by linarith
  with True show ?thesis by simp
qed (simp add: count_changes_none change_total_def no_changes_def)

section \<open>Planning\<close>

text \<open>
  A plan was made from the workspace and the variables, shown, and its resource changes read:
  \<open>t\<close> is the calls this took, after the calls \<open>tr\<close>.
\<close>

definition planned ::
  "lib_api \<Rightarrow> bool \<Rightarrow> workspace \<Rightarrow> (string \<times> any_val) list \<Rightarrow> call list \<Rightarrow> call list \<Rightarrow> string list option list \<Rightarrow> bool"
where
  "planned a over work vars tr t rcs \<longleftrightarrow>
     (\<exists>opts s s' json. t = [TfInitAndPlan over opts, TfShow over opts] \<and> to_dir opts = ws_dir work \<and>
        to_vars opts = vars \<and> tf_show (a_tf a) over opts (tr @ [TfInitAndPlan over opts]) s = (Inr json, s') \<and>
        tj_parse (a_plan a) json = Inr rcs)"

lemma BuildPlanOptions_run:
  "\<exists>env s c. BuildPlanOptions dir vars w =
     (Ret \<lparr>to_dir = dir, to_vars = vars, to_env = env, to_no_color = True, to_lock = True,
           to_lock_timeout = ''60s'', to_plan_file = path_join [dir, ''libtftest.plan'']\<rparr>,
      w\<lparr>w_fs := s, o_cache := c\<rparr>)"
  using BuildOptions_run [of dir vars w]
  by (auto simp: BuildOptions_def BuildPlanOptions_def act_simps split: outcome.splits prod.splits)

text \<open>The calls \<open>t\<close> were made; neither the handle nor a test case changed.\<close>

definition touched :: "('t, 'm) lw \<Rightarrow> call list \<Rightarrow> ('t, 'm) lw \<Rightarrow> bool" where
  "touched w t w' \<longleftrightarrow> w_trace w' = w_trace w @ t \<and> w_tb w' = w_tb w \<and> l_cases w' = l_cases w \<and>
     w_cancelled w' = w_cancelled w"

lemma ctx_done_cache [simp]: "ctx_done (w\<lparr>o_cache := c\<rparr>) ctx = ctx_done w ctx"
  by (simp add: ctx_done_def split: ctx.split)

lemma PlanContextE_run:
  assumes "tc_work (the_case i w) = Some work"
  shows "\<exists>r w' t. PlanContextE a ctx i w = (Ret r, w') \<and> touched w t w' \<and>
     (case r of Inl e \<Rightarrow> True
      | Inr pr \<Rightarrow> \<exists>rcs. planned a (ctx_done w ctx) work (tc_vars (the_case i w)) (w_trace w) t rcs \<and>
                   pr_changes pr = count_changes (a_plan a) rcs no_changes)"
proof -
  obtain env s c where b: "BuildPlanOptions (ws_dir work) (tc_vars (the_case i w)) w =
     (Ret \<lparr>to_dir = ws_dir work, to_vars = tc_vars (the_case i w), to_env = env, to_no_color = True, to_lock = True,
           to_lock_timeout = ''60s'', to_plan_file = path_join [ws_dir work, ''libtftest.plan'']\<rparr>,
      w\<lparr>w_fs := s, o_cache := c\<rparr>)" (is "_ = (Ret ?o, _)")
    using BuildPlanOptions_run by blast
  let ?over = "ctx_done w ctx"
  obtain p s1 where p: "tf_init_and_plan (a_tf a) ?over ?o (w_trace w) s = (p, s1)" by fastforce
  show ?thesis
  proof (cases p)
    case (Inl e)
    then show ?thesis
      using b p by (auto simp: PlanContextE_def with_work_def assms act_simps Let_def touched_def)
  next
    case (Inr x)
    obtain q s2 where q: "tf_show (a_tf a) ?over ?o (w_trace w @ [TfInitAndPlan ?over ?o]) s1 = (q, s2)" by fastforce
    show ?thesis
      using b p q Inr
      by (auto simp: PlanContextE_def with_work_def assms act_simps Let_def touched_def planned_def
          parsePlanChanges_def split: sum.splits)
  qed
qed

text \<open>On the real handle, where a plan that fails stops the test.\<close>

lemma change_count_total: "change_count pr = change_total (pr_changes pr)"
  by (simp add: change_count_def change_total_def)

definition stopped :: "'a outcome \<times> 'm lt \<Rightarrow> bool" where
  "stopped res \<longleftrightarrow> fst res = Goexit \<and> t_failed (w_tb (snd res))"

lemma T_simps:
  "m_context T w = TestCtx"
  "m_errorf T f as w = (Ret (), w\<lparr>w_tb := (t_log f as (w_tb w))\<lparr>t_failed := True\<rparr>\<rparr>)"
  "m_fatalf T f as w = (Goexit, w\<lparr>w_tb := (t_log f as (w_tb w))\<lparr>t_failed := True\<rparr>\<rparr>)"
  by (simp_all add: real_tb_def real_errorf_def real_fatalf_def on_tb_def)

lemma stopped_bnd: "stopped (m w) \<Longrightarrow> stopped (bnd m k w)"
  by (cases "m w") (auto simp: stopped_def bnd_run)

lemma PlanContext_run:
  fixes w :: "'m lt"
  assumes "tc_work (the_case i w) = Some work"
  shows "stopped (PlanContext a T ctx i w) \<or>
     (\<exists>pr w' t rcs. PlanContext a T ctx i w = (Ret (Some pr), w') \<and> touched w t w' \<and>
        planned a (ctx_done w ctx) work (tc_vars (the_case i w)) (w_trace w) t rcs \<and>
        (0 < change_count pr \<longleftrightarrow> list_ex (changes (a_plan a)) rcs))"
proof -
  obtain r w' t where r: "PlanContextE a ctx i w = (Ret r, w')" "touched w t w'"
     "case r of Inl e \<Rightarrow> True
      | Inr pr \<Rightarrow> \<exists>rcs. planned a (ctx_done w ctx) work (tc_vars (the_case i w)) (w_trace w) t rcs \<and>
                   pr_changes pr = count_changes (a_plan a) rcs no_changes"
    using PlanContextE_run [OF assms, of a ctx] by (elim exE conjE)
  show ?thesis
  proof (cases r)
    case (Inl e)
    with r(1) show ?thesis
      by (simp add: PlanContext_def bnd_run andthen_run T_simps stopped_def)
  next
    case (Inr pr)
    with r(3) obtain rcs where rcs:
        "planned a (ctx_done w ctx) work (tc_vars (the_case i w)) (w_trace w) t rcs"
        "pr_changes pr = count_changes (a_plan a) rcs no_changes"
      by auto
    have "PlanContext a T ctx i w = (Ret (Some pr), w')"
      by (simp add: PlanContext_def bnd_run ret_run r(1) Inr)
    moreover have "0 < change_count pr \<longleftrightarrow> list_ex (changes (a_plan a)) rcs"
      by (simp add: change_count_total rcs(2) total_pos)
    ultimately show ?thesis using r(2) rcs(1) by blast
  qed
qed

lemma touched_trans: "touched w t w' \<Longrightarrow> touched w' t' w'' \<Longrightarrow> touched w (t @ t') w''"
  by (simp add: touched_def)

lemma touched_case: "touched w t w' \<Longrightarrow> the_case i w' = the_case i w"
  by (simp add: touched_def the_case_def)

lemma touched_ctx: "touched w t w' \<Longrightarrow> ctx_done w' ctx = ctx_done w ctx"
  by (cases ctx) (simp_all add: touched_def ctx_done_def)

lemma ApplyContext_run:
  fixes w :: "'m lt"
  assumes "tc_work (the_case i w) = Some work" and "\<And>e v. stopped (no_error e v)"
  shows "stopped (ApplyContext a no_error ctx i w) \<or>
     (\<exists>opts w'. ApplyContext a no_error ctx i w = (Ret opts, w') \<and>
        touched w [TfInitAndApply (ctx_done w ctx) opts] w' \<and>
        to_dir opts = ws_dir work \<and> to_vars opts = tc_vars (the_case i w))"
proof -
  obtain env s c where b: "BuildOptions (ws_dir work) (tc_vars (the_case i w)) w =
     (Ret \<lparr>to_dir = ws_dir work, to_vars = tc_vars (the_case i w), to_env = env, to_no_color = True, to_lock = True,
           to_lock_timeout = ''60s'', to_plan_file = []\<rparr>, w\<lparr>w_fs := s, o_cache := c\<rparr>)" (is "_ = (Ret ?o, _)")
    using BuildOptions_run by blast
  let ?over = "ctx_done w ctx"
  obtain p s1 where p: "tf_init_and_apply (a_tf a) ?over ?o (w_trace w) s = (p, s1)" by fastforce
  have e: "\<exists>w'. ApplyContextE a ctx i w = (Ret (?o, error_of p), w') \<and> touched w [TfInitAndApply ?over ?o] w'"
    using b p by (auto simp: ApplyContextE_def with_work_def assms(1) act_simps Let_def touched_def)
  show ?thesis
  proof (cases p)
    case (Inl err)
    from e obtain w' where "ApplyContextE a ctx i w = (Ret (?o, Some err), w')"
      by (auto simp: Inl error_of_def)
    then show ?thesis
      using assms(2) [of err w'] by (cases "no_error err w'") (auto simp: ApplyContext_def bnd_run andthen_run stopped_def)
  next
    case (Inr x)
    with e show ?thesis
      by (auto simp: ApplyContext_def act_simps error_of_def)
  qed
qed

lemmas again_defs = AssertIdempotentApply_def AssertIdempotentApplyContext_def T_simps

lemma stopped_after: "m w = (Ret x, w') \<Longrightarrow> stopped (k x w') \<Longrightarrow> stopped (bnd m k w)"
  by (simp add: bnd_run stopped_def)

section \<open>Properties\<close>

text \<open>
  The counts of a plan.  Of the resource changes of a plan, those with a change to make are
  counted by kind, a replacement as one addition and one destruction; so the counts do not
  depend on the order of the changes, and their sum is positive exactly when the plan
  changes something.
\<close>

theorem plan_counts:
  assumes "exclusive (a_plan a)" and "tj_parse (a_plan a) json = Inr rcs"
  shows "parsePlanChanges (a_plan a) json = Inr
     \<lparr>pc_add = of_kind (tj_create (a_plan a)) rcs + of_kind (tj_replace (a_plan a)) rcs,
      pc_change = of_kind (tj_update (a_plan a)) rcs,
      pc_destroy = of_kind (tj_delete (a_plan a)) rcs + of_kind (tj_replace (a_plan a)) rcs\<rparr> \<and>
     (0 < change_total (count_changes (a_plan a) rcs no_changes) \<longleftrightarrow> list_ex (changes (a_plan a)) rcs)"
proof
  show "0 < change_total (count_changes (a_plan a) rcs no_changes) \<longleftrightarrow> list_ex (changes (a_plan a)) rcs"
    by (rule total_pos)
qed (use assms(2) count_changes_sums [OF assms(1), of rcs no_changes] in
  \<open>simp add: parsePlanChanges_def, simp add: no_changes_def\<close>)

theorem plan_counts_witness:
  "parsePlanChanges (demo_plan\<lparr>tj_parse := (\<lambda>_. Inr [Some [''delete'', ''create''], None, Some [''no-op''], Some [''create'']])\<rparr>) ''{}'' =
     Inr \<lparr>pc_add = 2, pc_change = 0, pc_destroy = 1\<rparr>"
  using plan_counts
    [of "demo_lib\<lparr>a_plan := demo_plan\<lparr>tj_parse := (\<lambda>_. Inr [Some [''delete'', ''create''], None, Some [''no-op''], Some [''create'']])\<rparr>\<rparr>"
      "''{}''" "[Some [''delete'', ''create''], None, Some [''no-op''], Some [''create'']]"]
  by (auto simp: exclusive_def demo_plan_def)

definition planning_world :: "unit lt" where
  "planning_world = upd_case 0 (\<lambda>tc. tc\<lparr>tc_work := Some \<lparr>ws_dir = ''/w'', ws_src = ''/m''\<rparr>\<rparr>) (demo_w2 ''/m'')"

lemma planning_world_work: "tc_work (the_case 0 planning_world) = Some \<lparr>ws_dir = ''/w'', ws_src = ''/m''\<rparr>"
  by (simp add: the_case_def planning_world_def demo_w2_def)



text \<open>After a plan without changes: the apply, and the second plan.\<close>

definition applied_again :: "lib_api \<Rightarrow> nat \<Rightarrow> workspace \<Rightarrow> 'm lt \<Rightarrow> call list \<Rightarrow> 'm lt \<Rightarrow> bool" where
  "applied_again a i work w t w' \<longleftrightarrow>
     (\<exists>opts t2 rcs2. w_trace w' = w_trace w @ t @ [TfInitAndApply (ctx_done w TestCtx) opts] @ t2 \<and>
        to_dir opts = ws_dir work \<and> to_vars opts = tc_vars (the_case i w) \<and>
        planned a (ctx_done w TestCtx) work (tc_vars (the_case i w))
          (w_trace w @ t @ [TfInitAndApply (ctx_done w TestCtx) opts]) t2 rcs2 \<and>
        (t_failed (w_tb w') \<longleftrightarrow> t_failed (w_tb w) \<or> list_ex (changes (a_plan a)) rcs2))"

lemma touched_keeps:
  assumes "touched w t w'"
  shows "the_case i w' = the_case i w" and "ctx_done w' TestCtx = ctx_done w TestCtx"
    and "w_trace w' = w_trace w @ t" and "w_tb w' = w_tb w"
  using assms by (simp_all add: touched_case touched_ctx) (simp_all add: touched_def)

lemma plan_after_apply:
  fixes w :: "'m lt"
  assumes work: "tc_work (the_case i w) = Some work"
    and first: "PlanContext a T TestCtx i w = (Ret (Some pr), w1)" "touched w t w1" "\<not> 0 < change_count pr"
    and applied: "ApplyContext a no_error TestCtx i w1 = (Ret opts, w2)"
      "touched w1 [TfInitAndApply (ctx_done w TestCtx) opts] w2"
      "to_dir opts = ws_dir work" "to_vars opts = tc_vars (the_case i w)"
  shows "stopped (AssertIdempotentApply a no_error T i w) \<or>
     (\<exists>w'. AssertIdempotentApply a no_error T i w = (Ret (), w') \<and> applied_again a i work w t w')"
proof -
  note w2 = touched_keeps [OF touched_trans [OF first(2) applied(2)]]
  show ?thesis
    using PlanContext_run [where i = i and w = w2 and a = a and ctx = TestCtx, unfolded w2, OF work]
  proof (elim disjE exE conjE)
    assume "stopped (PlanContext a T TestCtx i w2)"
    then obtain w3 where "PlanContext a T TestCtx i w2 = (Goexit, w3)" "t_failed (w_tb w3)"
      by (cases "PlanContext a T TestCtx i w2") (auto simp: stopped_def)
    then have "stopped (AssertIdempotentApply a no_error T i w)"
      using first(3) by (simp add: again_defs bnd_run first(1) applied(1) stopped_def)
    then show ?thesis ..
  next
    fix pr2 w3 t2 rcs2
    assume second: "PlanContext a T TestCtx i w2 = (Ret (Some pr2), w3)" "touched w2 t2 w3"
      "planned a (ctx_done w TestCtx) work (tc_vars (the_case i w))
         (w_trace w @ t @ [TfInitAndApply (ctx_done w TestCtx) opts]) t2 rcs2"
      "0 < change_count pr2 \<longleftrightarrow> list_ex (changes (a_plan a)) rcs2"
    obtain w4 where w4: "AssertIdempotentApply a no_error T i w = (Ret (), w4)" "w_trace w4 = w_trace w3"
        "t_failed (w_tb w4) \<longleftrightarrow> t_failed (w_tb w3) \<or> list_ex (changes (a_plan a)) rcs2"
      using first(1,3) applied(1) second(1,4)
      by (cases "list_ex (changes (a_plan a)) rcs2") (auto simp: again_defs bnd_run skip_run)
    have "w_trace w3 = w_trace w @ t @ [TfInitAndApply (ctx_done w TestCtx) opts] @ t2" "w_tb w3 = w_tb w"
      using touched_keeps [OF second(2)] w2(3,4) by simp_all
    with w4 applied(3,4) second(3) have "applied_again a i work w t w4"
      unfolding applied_again_def by (intro exI [of _ opts] exI [of _ t2] exI [of _ rcs2]) simp
    with w4(1) show ?thesis by blast
  qed
qed

lemma after_empty_plan:
  fixes w :: "'m lt"
  assumes work: "tc_work (the_case i w) = Some work" and stops: "\<And>e v. stopped (no_error e v)"
    and first: "PlanContext a T TestCtx i w = (Ret (Some pr), w1)" "touched w t w1" "\<not> 0 < change_count pr"
  shows "stopped (AssertIdempotentApply a no_error T i w) \<or>
     (\<exists>w'. AssertIdempotentApply a no_error T i w = (Ret (), w') \<and> applied_again a i work w t w')"
  using ApplyContext_run [where i = i and w = w1 and a = a and ctx = TestCtx and no_error = no_error,
      unfolded touched_keeps [OF first(2)], OF work stops]
proof (elim disjE exE conjE)
  assume st: "stopped (ApplyContext a no_error TestCtx i w1)"
  have "stopped (AssertIdempotentApply a no_error T i w)"
    unfolding again_defs
    by (rule stopped_after, rule first(1)) (use first(3) st in \<open>simp add: stopped_bnd\<close>)
  then show ?thesis ..
qed (rule plan_after_apply [OF work first])



end
