(* ===== verification/Aws_Assert.thy ===== *)
theory Aws_Assert
  imports Aws Libtftest
begin

text \<open>
  Packages \<^verbatim>\<open>assert/s3\<close>, \<^verbatim>\<open>dynamodb\<close>, \<^verbatim>\<open>iam\<close>, \<^verbatim>\<open>ssm\<close> and \<^verbatim>\<open>lambda\<close>: each assertion makes one AWS
  call and reports what is wrong with its answer.  A message is its format and arguments.
  \<open>aws.ToString\<close> and \<open>aws.ToBool\<close> read a nil pointer as the zero value.
\<close>

section \<open>Assertions on existence\<close>

definition report_error ::
  "('w, 'c) tb_iface \<Rightarrow> string \<Rightarrow> arg list \<Rightarrow> go_error option \<Rightarrow> ('w, unit) act"
where
  "report_error I f as r = (case r of None \<Rightarrow> skip | Some err \<Rightarrow> m_errorf I f (as @ [AErr err]))"

definition BucketExistsContext ::
  "(('t, 'm) cworld, 'c) tb_iface \<Rightarrow> 'z aws_api_scheme \<Rightarrow> ctx \<Rightarrow> aws_config \<Rightarrow> string \<Rightarrow> (('t, 'm) cworld, unit) act"
where
  "BucketExistsContext I a ctx cfg name =
     bnd (aws_do a ctx (NewS3 cfg) ''HeadBucket'' [name]) (report_error I ''BucketExists(%q): %v'' [AStr name])"

definition BucketExists ::
  "(('t, 'm) cworld, 'c) tb_iface \<Rightarrow> 'z aws_api_scheme \<Rightarrow> aws_config \<Rightarrow> string \<Rightarrow> (('t, 'm) cworld, unit) act"
where
  "BucketExists I a cfg name w = BucketExistsContext I a (m_context I w) cfg name w"

definition TableExistsContext ::
  "(('t, 'm) cworld, 'c) tb_iface \<Rightarrow> 'z aws_api_scheme \<Rightarrow> ctx \<Rightarrow> aws_config \<Rightarrow> string \<Rightarrow> (('t, 'm) cworld, unit) act"
where
  "TableExistsContext I a ctx cfg name =
     bnd (aws_do a ctx (NewDynamoDB cfg) ''DescribeTable'' [name]) (report_error I ''TableExists(%q): %v'' [AStr name])"

definition TableExists ::
  "(('t, 'm) cworld, 'c) tb_iface \<Rightarrow> 'z aws_api_scheme \<Rightarrow> aws_config \<Rightarrow> string \<Rightarrow> (('t, 'm) cworld, unit) act"
where
  "TableExists I a cfg name w = TableExistsContext I a (m_context I w) cfg name w"

definition RoleExistsContext ::
  "(('t, 'm) cworld, 'c) tb_iface \<Rightarrow> 'z aws_api_scheme \<Rightarrow> ctx \<Rightarrow> aws_config \<Rightarrow> string \<Rightarrow> (('t, 'm) cworld, unit) act"
where
  "RoleExistsContext I a ctx cfg name =
     andthen (RequirePro I)
      (bnd (aws_do a ctx (NewIAM cfg) ''GetRole'' [name]) (report_error I ''RoleExists(%q): %v'' [AStr name]))"

definition RoleExists ::
  "(('t, 'm) cworld, 'c) tb_iface \<Rightarrow> 'z aws_api_scheme \<Rightarrow> aws_config \<Rightarrow> string \<Rightarrow> (('t, 'm) cworld, unit) act"
where
  "RoleExists I a cfg name w = RoleExistsContext I a (m_context I w) cfg name w"

definition RoleHasInlinePolicyContext ::
  "(('t, 'm) cworld, 'c) tb_iface \<Rightarrow> 'z aws_api_scheme \<Rightarrow> ctx \<Rightarrow> aws_config \<Rightarrow> string \<Rightarrow> string \<Rightarrow> (('t, 'm) cworld, unit) act"
where
  "RoleHasInlinePolicyContext I a ctx cfg role policy =
     andthen (RequirePro I)
      (bnd (aws_do a ctx (NewIAM cfg) ''GetRolePolicy'' [role, policy]) (report_error I ''RoleHasInlinePolicy(%q, %q): %v'' [AStr role, AStr policy]))"

definition RoleHasInlinePolicy ::
  "(('t, 'm) cworld, 'c) tb_iface \<Rightarrow> 'z aws_api_scheme \<Rightarrow> aws_config \<Rightarrow> string \<Rightarrow> string \<Rightarrow> (('t, 'm) cworld, unit) act"
where
  "RoleHasInlinePolicy I a cfg role policy w = RoleHasInlinePolicyContext I a (m_context I w) cfg role policy w"

definition ParameterExistsContext ::
  "(('t, 'm) cworld, 'c) tb_iface \<Rightarrow> 'z aws_api_scheme \<Rightarrow> ctx \<Rightarrow> aws_config \<Rightarrow> string \<Rightarrow> (('t, 'm) cworld, unit) act"
where
  "ParameterExistsContext I a ctx cfg name =
     bnd (aws_do a ctx (NewSSM cfg) ''GetParameter'' [name]) (report_error I ''ParameterExists(%q): %v'' [AStr name])"

definition ParameterExists ::
  "(('t, 'm) cworld, 'c) tb_iface \<Rightarrow> 'z aws_api_scheme \<Rightarrow> aws_config \<Rightarrow> string \<Rightarrow> (('t, 'm) cworld, unit) act"
where
  "ParameterExists I a cfg name w = ParameterExistsContext I a (m_context I w) cfg name w"

definition FunctionExistsContext ::
  "(('t, 'm) cworld, 'c) tb_iface \<Rightarrow> 'z aws_api_scheme \<Rightarrow> ctx \<Rightarrow> aws_config \<Rightarrow> string \<Rightarrow> (('t, 'm) cworld, unit) act"
where
  "FunctionExistsContext I a ctx cfg name =
     bnd (aws_do a ctx (NewLambda cfg) ''GetFunction'' [name]) (report_error I ''FunctionExists(%q): %v'' [AStr name])"

definition FunctionExists ::
  "(('t, 'm) cworld, 'c) tb_iface \<Rightarrow> 'z aws_api_scheme \<Rightarrow> aws_config \<Rightarrow> string \<Rightarrow> (('t, 'm) cworld, unit) act"
where
  "FunctionExists I a cfg name w = FunctionExistsContext I a (m_context I w) cfg name w"

section \<open>Assertions on contents\<close>

fun has_algorithm :: "string option list \<Rightarrow> string \<Rightarrow> bool" where
  "has_algorithm [] algo = False"
| "has_algorithm (None # rules) algo = has_algorithm rules algo"
| "has_algorithm (Some a # rules) algo = (a = algo \<or> has_algorithm rules algo)"

definition BucketHasEncryptionContext ::
  "(('t, 'm) cworld, 'c) tb_iface \<Rightarrow> 'z aws_api_scheme \<Rightarrow> ctx \<Rightarrow> aws_config \<Rightarrow> string \<Rightarrow> string \<Rightarrow> (('t, 'm) cworld, unit) act"
where
  "BucketHasEncryptionContext I a ctx cfg name algo =
     bnd (aws_call ctx (NewS3 cfg) ''GetBucketEncryption'' [name] (\<lambda>over. aw_encryption a over (NewS3 cfg) name)) (\<lambda>r.
       case r of
         Inl err \<Rightarrow> m_errorf I ''BucketHasEncryption(%q, %q): %v'' [AStr name, AStr algo, AErr err]
       | Inr None \<Rightarrow> m_errorf I ''BucketHasEncryption(%q): no encryption configuration'' [AStr name]
       | Inr (Some rules) \<Rightarrow>
           if has_algorithm rules algo then skip
           else m_errorf I ''BucketHasEncryption(%q, %q): algorithm not found'' [AStr name, AStr algo])"

definition BucketHasEncryption ::
  "(('t, 'm) cworld, 'c) tb_iface \<Rightarrow> 'z aws_api_scheme \<Rightarrow> aws_config \<Rightarrow> string \<Rightarrow> string \<Rightarrow> (('t, 'm) cworld, unit) act"
where
  "BucketHasEncryption I a cfg name algo w = BucketHasEncryptionContext I a (m_context I w) cfg name algo w"

definition BucketHasVersioningContext ::
  "(('t, 'm) cworld, 'c) tb_iface \<Rightarrow> 'z aws_api_scheme \<Rightarrow> ctx \<Rightarrow> aws_config \<Rightarrow> string \<Rightarrow> (('t, 'm) cworld, unit) act"
where
  "BucketHasVersioningContext I a ctx cfg name =
     bnd (aws_call ctx (NewS3 cfg) ''GetBucketVersioning'' [name] (\<lambda>over. aw_versioning a over (NewS3 cfg) name)) (\<lambda>r.
       case r of
         Inl err \<Rightarrow> m_errorf I ''BucketHasVersioning(%q): %v'' [AStr name, AErr err]
       | Inr status \<Rightarrow>
           if status \<noteq> ''Enabled''
           then m_errorf I ''BucketHasVersioning(%q): status = %q, want Enabled'' [AStr name, AStr status]
           else skip)"

definition BucketHasVersioning ::
  "(('t, 'm) cworld, 'c) tb_iface \<Rightarrow> 'z aws_api_scheme \<Rightarrow> aws_config \<Rightarrow> string \<Rightarrow> (('t, 'm) cworld, unit) act"
where
  "BucketHasVersioning I a cfg name w = BucketHasVersioningContext I a (m_context I w) cfg name w"

definition to_bool :: "bool option \<Rightarrow> bool" where
  "to_bool b = (case b of None \<Rightarrow> False | Some x \<Rightarrow> x)"

definition to_string :: "string option \<Rightarrow> string" where
  "to_string s = (case s of None \<Rightarrow> [] | Some x \<Rightarrow> x)"

definition report_unless :: "('w, 'c) tb_iface \<Rightarrow> bool option \<Rightarrow> string \<Rightarrow> string \<Rightarrow> ('w, unit) act" where
  "report_unless I flag f name = (if \<not> to_bool flag then m_errorf I f [AStr name] else skip)"

definition BucketBlocksPublicAccessContext ::
  "(('t, 'm) cworld, 'c) tb_iface \<Rightarrow> 'z aws_api_scheme \<Rightarrow> ctx \<Rightarrow> aws_config \<Rightarrow> string \<Rightarrow> (('t, 'm) cworld, unit) act"
where
  "BucketBlocksPublicAccessContext I a ctx cfg name =
     bnd (aws_call ctx (NewS3 cfg) ''GetPublicAccessBlock'' [name] (\<lambda>over. aw_public_access a over (NewS3 cfg) name)) (\<lambda>r.
       case r of
         Inl err \<Rightarrow> m_errorf I ''BucketBlocksPublicAccess(%q): %v'' [AStr name, AErr err]
       | Inr None \<Rightarrow> m_errorf I ''BucketBlocksPublicAccess(%q): no public access block config'' [AStr name]
       | Inr (Some pac) \<Rightarrow>
           andthen (report_unless I (pa_block_acls pac) ''BucketBlocksPublicAccess(%q): BlockPublicAcls = false'' name)
          (andthen (report_unless I (pa_block_policy pac) ''BucketBlocksPublicAccess(%q): BlockPublicPolicy = false'' name)
          (andthen (report_unless I (pa_ignore_acls pac) ''BucketBlocksPublicAccess(%q): IgnorePublicAcls = false'' name)
                   (report_unless I (pa_restrict_buckets pac) ''BucketBlocksPublicAccess(%q): RestrictPublicBuckets = false'' name))))"

definition BucketBlocksPublicAccess ::
  "(('t, 'm) cworld, 'c) tb_iface \<Rightarrow> 'z aws_api_scheme \<Rightarrow> aws_config \<Rightarrow> string \<Rightarrow> (('t, 'm) cworld, unit) act"
where
  "BucketBlocksPublicAccess I a cfg name w = BucketBlocksPublicAccessContext I a (m_context I w) cfg name w"

definition BucketHasTagContext ::
  "(('t, 'm) cworld, 'c) tb_iface \<Rightarrow> 'z aws_api_scheme \<Rightarrow> ctx \<Rightarrow> aws_config \<Rightarrow> string \<Rightarrow> string \<Rightarrow> string \<Rightarrow> (('t, 'm) cworld, unit) act"
where
  "BucketHasTagContext I a ctx cfg name key want =
     bnd (aws_call ctx (NewS3 cfg) ''GetBucketTagging'' [name] (\<lambda>over. aw_tagging a over (NewS3 cfg) name)) (\<lambda>r.
       case r of
         Inl err \<Rightarrow> m_errorf I ''BucketHasTag(%q, %q): %v'' [AStr name, AStr key, AErr err]
       | Inr tag_set \<Rightarrow>
           (case find (\<lambda>t. to_string (fst t) = key) tag_set of
              Some t \<Rightarrow>
                (let got = to_string (snd t) in
                 if got \<noteq> want
                 then m_errorf I ''BucketHasTag(%q, %q) = %q, want %q'' [AStr name, AStr key, AStr got, AStr want]
                 else skip)
            | None \<Rightarrow> m_errorf I ''BucketHasTag(%q, %q): tag not found'' [AStr name, AStr key]))"

definition BucketHasTag ::
  "(('t, 'm) cworld, 'c) tb_iface \<Rightarrow> 'z aws_api_scheme \<Rightarrow> aws_config \<Rightarrow> string \<Rightarrow> string \<Rightarrow> string \<Rightarrow> (('t, 'm) cworld, unit) act"
where
  "BucketHasTag I a cfg name key want w = BucketHasTagContext I a (m_context I w) cfg name key want w"

definition ParameterHasValueContext ::
  "(('t, 'm) cworld, 'c) tb_iface \<Rightarrow> 'z aws_api_scheme \<Rightarrow> ctx \<Rightarrow> aws_config \<Rightarrow> string \<Rightarrow> string \<Rightarrow> (('t, 'm) cworld, unit) act"
where
  "ParameterHasValueContext I a ctx cfg name want =
     bnd (aws_call ctx (NewSSM cfg) ''GetParameter'' [name, ''WithDecryption'']
            (\<lambda>over. aw_parameter a over (NewSSM cfg) name)) (\<lambda>r.
       case r of
         Inl err \<Rightarrow> m_errorf I ''ParameterHasValue(%q): %v'' [AStr name, AErr err]
       | Inr None \<Rightarrow> nil_deref
       | Inr (Some v) \<Rightarrow>
           if to_string v \<noteq> want
           then m_errorf I ''ParameterHasValue(%q) = %q, want %q'' [AStr name, AStr (to_string v), AStr want]
           else skip)"

definition ParameterHasValue ::
  "(('t, 'm) cworld, 'c) tb_iface \<Rightarrow> 'z aws_api_scheme \<Rightarrow> aws_config \<Rightarrow> string \<Rightarrow> string \<Rightarrow> (('t, 'm) cworld, unit) act"
where
  "ParameterHasValue I a cfg name want w = ParameterHasValueContext I a (m_context I w) cfg name want w"

section \<open>What the assertions promise\<close>

text \<open>The assertions as values, the call each makes, and what has to be wrong for it to fail.\<close>

datatype assertion =
    ExBucket string | ExTable string | ExRole string | ExPolicy string string
  | ExParameter string | ExFunction string
  | HasEncryption string string | HasVersioning string | HasPublicBlock string
  | HasTag string string string | HasValue string string

fun run_assertion ::
  "(('t, 'm) cworld, 'c) tb_iface \<Rightarrow> 'z aws_api_scheme \<Rightarrow> ctx \<Rightarrow> aws_config \<Rightarrow> assertion \<Rightarrow> (('t, 'm) cworld, unit) act"
where
  "run_assertion I a ctx cfg (ExBucket n) = BucketExistsContext I a ctx cfg n"
| "run_assertion I a ctx cfg (ExTable n) = TableExistsContext I a ctx cfg n"
| "run_assertion I a ctx cfg (ExRole n) = RoleExistsContext I a ctx cfg n"
| "run_assertion I a ctx cfg (ExPolicy n p) = RoleHasInlinePolicyContext I a ctx cfg n p"
| "run_assertion I a ctx cfg (ExParameter n) = ParameterExistsContext I a ctx cfg n"
| "run_assertion I a ctx cfg (ExFunction n) = FunctionExistsContext I a ctx cfg n"
| "run_assertion I a ctx cfg (HasEncryption n g) = BucketHasEncryptionContext I a ctx cfg n g"
| "run_assertion I a ctx cfg (HasVersioning n) = BucketHasVersioningContext I a ctx cfg n"
| "run_assertion I a ctx cfg (HasPublicBlock n) = BucketBlocksPublicAccessContext I a ctx cfg n"
| "run_assertion I a ctx cfg (HasTag n k v) = BucketHasTagContext I a ctx cfg n k v"
| "run_assertion I a ctx cfg (HasValue n v) = ParameterHasValueContext I a ctx cfg n v"

fun query :: "aws_config \<Rightarrow> assertion \<Rightarrow> aws_client \<times> string \<times> string list" where
  "query cfg (ExBucket n) = (NewS3 cfg, ''HeadBucket'', [n])"
| "query cfg (ExTable n) = (NewDynamoDB cfg, ''DescribeTable'', [n])"
| "query cfg (ExRole n) = (NewIAM cfg, ''GetRole'', [n])"
| "query cfg (ExPolicy n p) = (NewIAM cfg, ''GetRolePolicy'', [n, p])"
| "query cfg (ExParameter n) = (NewSSM cfg, ''GetParameter'', [n])"
| "query cfg (ExFunction n) = (NewLambda cfg, ''GetFunction'', [n])"
| "query cfg (HasEncryption n g) = (NewS3 cfg, ''GetBucketEncryption'', [n])"
| "query cfg (HasVersioning n) = (NewS3 cfg, ''GetBucketVersioning'', [n])"
| "query cfg (HasPublicBlock n) = (NewS3 cfg, ''GetPublicAccessBlock'', [n])"
| "query cfg (HasTag n k v) = (NewS3 cfg, ''GetBucketTagging'', [n])"
| "query cfg (HasValue n v) = (NewSSM cfg, ''GetParameter'', [n, ''WithDecryption''])"

text \<open>
  Whether the answer bears the assertion out: the encryption rules have the algorithm among
  their defaults, the four flags are all set to true, the first tag with the key has the value.
\<close>

fun holds :: "'z aws_api_scheme \<Rightarrow> bool \<Rightarrow> aws_config \<Rightarrow> call list \<Rightarrow> assertion \<Rightarrow> bool" where
  "holds a over cfg tr (HasEncryption n g) =
     (\<exists>rules. aw_encryption a over (NewS3 cfg) n tr = Inr (Some rules) \<and> Some g \<in> set rules)"
| "holds a over cfg tr (HasVersioning n) = (aw_versioning a over (NewS3 cfg) n tr = Inr ''Enabled'')"
| "holds a over cfg tr (HasPublicBlock n) =
     (aw_public_access a over (NewS3 cfg) n tr =
        Inr (Some \<lparr>pa_block_acls = Some True, pa_block_policy = Some True,
                   pa_ignore_acls = Some True, pa_restrict_buckets = Some True\<rparr>))"
| "holds a over cfg tr (HasTag n k v) =
     (\<exists>ts. aw_tagging a over (NewS3 cfg) n tr = Inr ts \<and>
           map_of (map (map_prod to_string to_string) ts) k = Some v)"
| "holds a over cfg tr (HasValue n v) =
     (\<exists>p. aw_parameter a over (NewSSM cfg) n tr = Inr (Some p) \<and> to_string p = v)"
| "holds a over cfg tr chk = (case query cfg chk of (cl, op, args) \<Rightarrow> aw_do a over cl op args tr = None)"

fun needs_pro :: "assertion \<Rightarrow> bool" where
  "needs_pro (ExRole n) = True"
| "needs_pro (ExPolicy n p) = True"
| "needs_pro chk = False"

lemma has_algorithm_iff: "has_algorithm rules g \<longleftrightarrow> Some g \<in> set rules"
  by (induction rules g rule: has_algorithm.induct) auto

lemma find_tag:
  "find (\<lambda>t. to_string (fst t) = k) ts = None \<longleftrightarrow> map_of (map (map_prod to_string to_string) ts) k = None"
  "find (\<lambda>t. to_string (fst t) = k) ts = Some t \<Longrightarrow> map_of (map (map_prod to_string to_string) ts) k = Some (to_string (snd t))"
  by (induction ts) (auto split: if_splits)

lemma pro_passes: "getenv w ''LOCALSTACK_AUTH_TOKEN'' \<noteq> [] \<Longrightarrow> andthen (RequirePro I) k w = k w"
  by (simp add: RequirePro_def andthen_run)

text \<open>The contract of a handle, for code that calls out; both handles keep it.\<close>

locale calling_handle = test_handle I cleanups_of
  for I :: "(('t, 'm) cworld, 'c) tb_iface" and cleanups_of :: "'t \<Rightarrow> 'c list"
begin

lemma reports_report_error: "reports I cleanups_of (r \<noteq> None) w (report_error I f as r w)"
  using reports_errorf [of w f] reports_skip [of w] by (cases r) (simp_all add: report_error_def skip_run)

lemma reports_asked:
  assumes "reports I cleanups_of bad (w\<lparr>w_trace := w_trace w @ [AwsCall (ctx_done w ctx) cl op args]\<rparr>)
      (k (answer (ctx_done w ctx) (w_trace w)) (w\<lparr>w_trace := w_trace w @ [AwsCall (ctx_done w ctx) cl op args]\<rparr>))"
  shows "reports I cleanups_of bad (w\<lparr>w_trace := w_trace w @ [AwsCall (ctx_done w ctx) cl op args]\<rparr>)
      (bnd (aws_call ctx cl op args answer) k w)"
  using assms by (simp add: act_simps)

lemma reports_unless: "reports I cleanups_of (flag \<noteq> Some True) w (report_unless I flag f name w)"
  using reports_errorf [of w f] reports_skip [of w]
  by (auto simp: report_unless_def to_bool_def skip_run split: option.splits)

lemma reports_if:
  "reports I cleanups_of (\<not> b) w ((if b then skip else m_errorf I f as) w)"
  "reports I cleanups_of b w ((if b then m_errorf I f as else skip) w)"
  using reports_errorf [of w f as] reports_skip [of w] by (simp_all add: skip_run)

lemma reports_no_op: "reports I cleanups_of False w (skip w)"
  using reports_skip by (simp add: skip_run)

lemma reports_four:
  assumes "\<And>w. reports I cleanups_of b1 w (m1 w)" "\<And>w. reports I cleanups_of b2 w (m2 w)"
    "\<And>w. reports I cleanups_of b3 w (m3 w)" "\<And>w. reports I cleanups_of b4 w (m4 w)"
  shows "reports I cleanups_of (b1 \<or> b2 \<or> b3 \<or> b4) w (andthen m1 (andthen m2 (andthen m3 m4)) w)"
  using assms by (intro reports_andthen)

lemma reports_flags:
  "reports I cleanups_of
     (pac \<noteq> \<lparr>pa_block_acls = Some True, pa_block_policy = Some True, pa_ignore_acls = Some True,
        pa_restrict_buckets = Some True\<rparr>) w
     (andthen (report_unless I (pa_block_acls pac) f1 n) (andthen (report_unless I (pa_block_policy pac) f2 n)
       (andthen (report_unless I (pa_ignore_acls pac) f3 n) (report_unless I (pa_restrict_buckets pac) f4 n))) w)"
proof -
  have "pac \<noteq> \<lparr>pa_block_acls = Some True, pa_block_policy = Some True, pa_ignore_acls = Some True,
        pa_restrict_buckets = Some True\<rparr> \<longleftrightarrow>
      pa_block_acls pac \<noteq> Some True \<or> pa_block_policy pac \<noteq> Some True \<or>
      pa_ignore_acls pac \<noteq> Some True \<or> pa_restrict_buckets pac \<noteq> Some True"
    by (cases pac) auto
  then show ?thesis
    by (simp only: reports_four reports_unless)
qed

lemmas asked_defs = BucketExistsContext_def TableExistsContext_def ParameterExistsContext_def
  FunctionExistsContext_def aws_do_def

lemma assertion_reports:
  assumes "needs_pro chk \<Longrightarrow> getenv w ''LOCALSTACK_AUTH_TOKEN'' \<noteq> []"
    and "\<And>n v. chk = HasValue n v \<Longrightarrow> aw_parameter a (ctx_done w ctx) (NewSSM cfg) n (w_trace w) \<noteq> Inr None"
    and "query cfg chk = (cl, op, args)"
  shows "reports I cleanups_of (\<not> holds a (ctx_done w ctx) cfg (w_trace w) chk)
     (w\<lparr>w_trace := w_trace w @ [AwsCall (ctx_done w ctx) cl op args]\<rparr>) (run_assertion I a ctx cfg chk w)"
proof (cases chk)
  case (HasEncryption n g)
  with assms(3) show ?thesis
    by (auto simp: BucketHasEncryptionContext_def has_algorithm_iff intro!: reports_asked reports_errorf
        reports_no_op split: sum.splits option.splits)
next
  case (HasVersioning n)
  with assms(3) show ?thesis
    by (auto simp: BucketHasVersioningContext_def intro!: reports_asked reports_errorf reports_no_op split: sum.splits)
next
  case (HasPublicBlock n)
  with assms(3) show ?thesis
    by (auto simp: BucketBlocksPublicAccessContext_def intro!: reports_asked reports_errorf reports_flags
        split: sum.splits option.splits)
next
  case (HasTag n k v)
  with assms(3) show ?thesis
    by (auto simp: BucketHasTagContext_def Let_def find_tag intro!: reports_asked reports_errorf reports_no_op
        split: sum.splits option.splits)
next
  case (HasValue n v)
  with assms(2,3) show ?thesis
    by (auto simp: ParameterHasValueContext_def intro!: reports_asked reports_errorf reports_no_op
        split: sum.splits option.splits)
qed (use assms in \<open>auto simp: asked_defs RoleExistsContext_def RoleHasInlinePolicyContext_def
       pro_passes simp del: not_None_eq intro!: reports_asked reports_report_error\<close>)

end

interpretation real_calls: calling_handle "real_tb rm" t_cleanups
  by unfold_locales

interpretation fake_calls: calling_handle fake_iface f_cleanups
  by unfold_locales

section \<open>Properties\<close>

text \<open>
  C16.  Every assertion on AWS makes exactly the one query that belongs to it, always returns, and
  fails the test exactly when the answer does not bear it out: on the real \<^verbatim>\<open>testing.T\<close> and on
  \<^verbatim>\<open>FakeTB\<close>; it registers nothing and changes nothing else.  The assertions on IAM need the
  LocalStack token to be set, and an answer without an error must hold the parameter asked for.
\<close>

theorem assertions_fail_iff_not_borne_out:
  fixes w :: "('c gotest, 'm) cworld" and v :: "('d fake_tb, 'n) cworld"
  assumes "query cfg chk = (cl, op, args)"
    and "\<And>n x over tr. chk = HasValue n x \<Longrightarrow> aw_parameter a over (NewSSM cfg) n tr \<noteq> Inr None"
    and "needs_pro chk \<Longrightarrow> getenv w ''LOCALSTACK_AUTH_TOKEN'' \<noteq> [] \<and> getenv v ''LOCALSTACK_AUTH_TOKEN'' \<noteq> []"
  shows "(\<exists>t. run_assertion (real_tb rm) a ctx cfg chk w =
              (Ret (), w\<lparr>w_trace := w_trace w @ [AwsCall (ctx_done w ctx) cl op args], w_tb := t\<rparr>) \<and>
            t_cleanups t = t_cleanups (w_tb w) \<and>
            t_failed t = (holds a (ctx_done w ctx) cfg (w_trace w) chk \<longrightarrow> t_failed (w_tb w))) \<and>
         (\<exists>t. run_assertion fake_iface a ctx cfg chk v =
              (Ret (), v\<lparr>w_trace := w_trace v @ [AwsCall (ctx_done v ctx) cl op args], w_tb := t\<rparr>) \<and>
            f_cleanups t = f_cleanups (w_tb v) \<and>
            Fake_Failed t = (holds a (ctx_done v ctx) cfg (w_trace v) chk \<longrightarrow> Fake_Failed (w_tb v)))"
  using real_calls.assertion_reports [of chk w a ctx cfg cl op args rm]
    fake_calls.assertion_reports [of chk v a ctx cfg cl op args] assms
  by (auto simp: reports_def real_tb_def fake_iface_def)

text \<open>A bucket encrypted with AES256 by default and blocking three of the four public accesses.\<close>

definition bucket_answers :: aws_api where
  "bucket_answers =
     \<lparr>aw_load = (\<lambda>_ _ _. Inl (ErrText ''unused'')), aw_do = (\<lambda>_ _ _ _ _. None),
      aw_encryption = (\<lambda>_ _ _ _. Inr (Some [None, Some ''AES256''])), aw_versioning = (\<lambda>_ _ _ _. Inr []),
      aw_public_access = (\<lambda>_ _ _ _. Inr (Some \<lparr>pa_block_acls = Some True, pa_block_policy = Some True,
        pa_ignore_acls = None, pa_restrict_buckets = Some True\<rparr>)),
      aw_tagging = (\<lambda>_ _ _ _. Inr [(Some ''env'', Some ''dev''), (Some ''env'', Some ''prod'')]),
      aw_parameter = (\<lambda>_ _ _ _. Inl (ErrText ''none'')), aw_resources = (\<lambda>_ _ _ _. Inr [])\<rparr>"

definition cfg0 :: aws_config where
  "cfg0 = \<lparr>ac_endpoint = ''http://localhost:4566'', ac_region = ''us-east-1'', ac_access_key = ''test'',
     ac_secret_key = ''test''\<rparr>"

definition fresh_T :: "unit gotest" where
  "fresh_T = \<lparr>t_name = ''TestB'', t_failed = False, t_skipped = False, t_cleanups = [], t_output = [],
     t_temp = [], t_seq = 0\<rparr>"

theorem assertions_fail_iff_not_borne_out_witness:
  "(\<exists>t. run_assertion (real_tb (\<lambda>_. ())) bucket_answers Background cfg0 (HasEncryption ''b'' ''AES256'') (demo_world fresh_T) =
          (Ret (), (demo_world fresh_T)\<lparr>w_trace := [AwsCall False (NewS3 cfg0) ''GetBucketEncryption'' [''b'']], w_tb := t\<rparr>) \<and>
        \<not> t_failed t)"
  using assertions_fail_iff_not_borne_out [of cfg0 "HasEncryption ''b'' ''AES256''" "NewS3 cfg0" "''GetBucketEncryption''"
      "[''b'']" bucket_answers "demo_world fresh_T" "demo_world NewFakeTB" "\<lambda>_. ()" Background]
  by (auto simp: bucket_answers_def demo_world_def fresh_T_def)

text \<open>
  Without a LocalStack token an assertion on IAM makes no call: on the real \<^verbatim>\<open>testing.T\<close> it
  skips the test and stops it there, and a test that had not failed has not failed.
\<close>

theorem pro_assertions_skip_without_token:
  assumes "needs_pro chk" and "getenv w ''LOCALSTACK_AUTH_TOKEN'' = []"
  shows "\<exists>t. run_assertion (real_tb rm) a ctx cfg chk w = (Goexit, w\<lparr>w_tb := t\<rparr>) \<and>
     t_skipped t \<and> t_failed t = t_failed (w_tb w) \<and> t_cleanups t = t_cleanups (w_tb w)"
  using assms
  by (cases chk) (auto simp: RoleExistsContext_def RoleHasInlinePolicyContext_def RequirePro_def andthen_run real_tb_defs)

theorem pro_assertions_skip_without_token_witness:
  "\<exists>t. run_assertion (real_tb (\<lambda>_. ())) bucket_answers Background cfg0 (ExRole ''r'') (demo_world fresh_T) =
     (Goexit, (demo_world fresh_T)\<lparr>w_tb := t\<rparr>) \<and> t_skipped t \<and> \<not> t_failed t"
  using pro_assertions_skip_without_token [of "ExRole ''r''" "demo_world fresh_T" "\<lambda>_. ()" bucket_answers Background cfg0]
  by (auto simp: getenv_def demo_world_def fresh_T_def)

end
