(* ===== verification/Tags.thy ===== *)
theory Tags
  imports Aws_Assert Json_Encode
begin

text \<open>
  Package \<^verbatim>\<open>assert/tags\<close>: the tags of a module's root must be on every resource.  The problems
  found are one text per resource or tag, sorted, so that the report does not depend on the
  order in which Go happens to range over the maps.
\<close>

section \<open>The verb %q\<close>

text \<open>
  \<^verbatim>\<open>strconv.Quote\<close>: printable runes stand for themselves, the others are escaped, a byte that
  belongs to no rune as \<^verbatim>\<open>\x\<close>.  Which runes from 128 on are printable is the argument
  \<open>printable\<close> (the Unicode tables of the standard library).
\<close>

definition hex_text :: "nat \<Rightarrow> nat \<Rightarrow> string" where
  "hex_text width n = map (\<lambda>i. hex_digit (n div 16 ^ i mod 16)) (rev [0..<width])"

definition quote_ascii :: "char \<Rightarrow> string" where
  "quote_ascii c =
     (if c = backslash \<or> c = CHR 0x22 then [backslash, c]
      else if 32 \<le> byte c \<and> byte c \<noteq> 127 then [c]
      else if byte c = 7 then [backslash, CHR ''a'']
      else if byte c = 8 then [backslash, CHR ''b'']
      else if byte c = 12 then [backslash, CHR ''f'']
      else if byte c = 10 then [backslash, CHR ''n'']
      else if byte c = 13 then [backslash, CHR ''r'']
      else if byte c = 9 then [backslash, CHR ''t'']
      else if byte c = 11 then [backslash, CHR ''v'']
      else backslash # CHR ''x'' # hex_text 2 (byte c))"

definition quote_rune :: "(nat \<Rightarrow> bool) \<Rightarrow> nat \<Rightarrow> string \<Rightarrow> string" where
  "quote_rune printable r text =
     (if printable r then text
      else if r < 65536 then backslash # CHR ''u'' # hex_text 4 r
      else backslash # CHR ''U'' # hex_text 8 r)"

function quote_body :: "(nat \<Rightarrow> bool) \<Rightarrow> string \<Rightarrow> string" where
  "quote_body printable s =
     (case s of
        [] \<Rightarrow> []
      | c # cs \<Rightarrow>
          if byte c < 128 then quote_ascii c @ quote_body printable cs
          else (case multi_rune s of
                  None \<Rightarrow> backslash # CHR ''x'' # hex_text 2 (byte c) @ quote_body printable cs
                | Some (r, n) \<Rightarrow> quote_rune printable r (take n s) @ quote_body printable (drop n s)))"
  by pat_completeness auto
termination
  by (relation "measure (length \<circ> snd)") (auto dest!: multi_rune_width)

declare quote_body.simps [simp del]

definition quote :: "(nat \<Rightarrow> bool) \<Rightarrow> string \<Rightarrow> string" where
  "quote printable s = [CHR 0x22] @ quote_body printable s @ [CHR 0x22]"

section \<open>The actual tags\<close>

type_synonym tag_map = "string \<rightharpoonup> string"

fun index_tags :: "sdk_tags \<Rightarrow> tag_map \<Rightarrow> tag_map" where
  "index_tags [] m = m"
| "index_tags ((None, v) # ts) m = index_tags ts m"
| "index_tags ((Some k, v) # ts) m = index_tags ts (m(k \<mapsto> (case v of None \<Rightarrow> [] | Some x \<Rightarrow> x)))"

fun index_mappings :: "(string option \<times> sdk_tags) list \<Rightarrow> (string \<rightharpoonup> tag_map) \<Rightarrow> (string \<rightharpoonup> tag_map)" where
  "index_mappings [] m = m"
| "index_mappings ((None, ts) # ms) m = index_mappings ms m"
| "index_mappings ((Some arn, ts) # ms) m = index_mappings ms (m(arn \<mapsto> index_tags ts Map.empty))"

definition indexByARN :: "(string option \<times> sdk_tags) list \<Rightarrow> (string \<rightharpoonup> tag_map)" where
  "indexByARN mappings = index_mappings mappings Map.empty"

section \<open>The comparison\<close>

definition tag_problem :: "(nat \<Rightarrow> bool) \<Rightarrow> string \<Rightarrow> tag_map \<Rightarrow> string \<times> string \<Rightarrow> string list" where
  "tag_problem printable arn tags kw =
     (case kw of (key, want) \<Rightarrow>
        (case tags key of
           None \<Rightarrow> [arn @ '': missing tag '' @ quote printable key @ '' (want '' @ quote printable want @ '')'']
         | Some gotVal \<Rightarrow>
             if gotVal \<noteq> want
             then [arn @ '': tag '' @ quote printable key @ '' = '' @ quote printable gotVal @
                   '', want '' @ quote printable want]
             else []))"

text \<open>
  Each of the nested \<^verbatim>\<open>range baseline\<close> loops visits the baseline in an order of its own: the
  i-th one in the order \<open>ranges i\<close>.
\<close>

fun problems_of ::
  "(nat \<Rightarrow> bool) \<Rightarrow> (nat \<Rightarrow> (string \<times> string) list) \<Rightarrow> string list \<Rightarrow> (string \<rightharpoonup> tag_map) \<Rightarrow> string list"
where
  "problems_of printable ranges [] got = []"
| "problems_of printable ranges (arn # arns) got =
     (case got arn of
        None \<Rightarrow> (arn @ '': not returned by GetResources'') # problems_of printable ranges arns got
      | Some tags \<Rightarrow>
          concat (map (tag_problem printable arn tags) (ranges 0)) @
          problems_of printable (\<lambda>i. ranges (Suc i)) arns got)"

definition diffTags ::
  "(nat \<Rightarrow> bool) \<Rightarrow> (nat \<Rightarrow> (string \<times> string) list) \<Rightarrow> string list \<Rightarrow> (string \<rightharpoonup> tag_map) \<Rightarrow> string list"
where
  "diffTags printable ranges arns got = sort (problems_of printable ranges arns got)"

fun join_lines :: "bool \<Rightarrow> string list \<Rightarrow> string \<Rightarrow> string" where
  "join_lines first [] out = out"
| "join_lines first (line # lines) out =
     join_lines False lines ((if first then out else out @ [CHR 0x0A] @ ''  - '') @ line)"

definition joinWithIndent :: "string list \<Rightarrow> string" where
  "joinWithIndent lines = join_lines True lines []"

section \<open>The assertion\<close>

definition PropagatesFromRootContext ::
  "(nat \<Rightarrow> bool) \<Rightarrow> (nat \<Rightarrow> (string \<times> string) list) \<Rightarrow> (('t, 'm) cworld, 'c) tb_iface \<Rightarrow> 'z aws_api_scheme \<Rightarrow>
   ctx \<Rightarrow> aws_config \<Rightarrow> (string \<times> string) list \<Rightarrow> string list \<Rightarrow> (('t, 'm) cworld, unit) act"
where
  "PropagatesFromRootContext printable ranges I a ctx cfg baseline arns =
     (if baseline = [] then skip
      else if arns = [] then m_errorf I ''PropagatesFromRoot: no ARNs supplied'' []
      else
        bnd (aws_call ctx (NewResourceGroupsTagging cfg) ''GetResources'' arns
               (\<lambda>over. aw_resources a over (NewResourceGroupsTagging cfg) arns)) (\<lambda>r.
          case r of
            Inl err \<Rightarrow> m_errorf I ''PropagatesFromRoot: GetResources(%v): %v'' (map AStr arns @ [AErr err])
          | Inr mappings \<Rightarrow>
              (let problems = diffTags printable ranges arns (indexByARN mappings) in
               if length problems > 0
               then m_errorf I (''PropagatesFromRoot: %d tag problem(s):'' @ [CHR 0x0A] @ ''  - %s'')
                      [AInt (int (length problems)), AStr (joinWithIndent problems)]
               else skip)))"

definition PropagatesFromRoot ::
  "(nat \<Rightarrow> bool) \<Rightarrow> (nat \<Rightarrow> (string \<times> string) list) \<Rightarrow> (('t, 'm) cworld, 'c) tb_iface \<Rightarrow> 'z aws_api_scheme \<Rightarrow>
   aws_config \<Rightarrow> (string \<times> string) list \<Rightarrow> string list \<Rightarrow> (('t, 'm) cworld, unit) act"
where
  "PropagatesFromRoot printable ranges I a cfg baseline arns w =
     PropagatesFromRootContext printable ranges I a (m_context I w) cfg baseline arns w"

section \<open>The report\<close>

text \<open>What the resource at \<open>arn\<close> contributes.\<close>

definition resource_problems ::
  "(nat \<Rightarrow> bool) \<Rightarrow> (string \<times> string) list \<Rightarrow> (string \<rightharpoonup> tag_map) \<Rightarrow> string \<Rightarrow> string list"
where
  "resource_problems printable baseline got arn =
     (case got arn of
        None \<Rightarrow> [arn @ '': not returned by GetResources'']
      | Some tags \<Rightarrow> concat (map (tag_problem printable arn tags) baseline))"

lemma problems_of_mset:
  assumes "\<And>i. mset (ranges i) = mset baseline"
  shows "mset (problems_of printable ranges arns got) =
     mset (concat (map (resource_problems printable baseline got) arns))"
  using assms
proof (induction printable ranges arns got rule: problems_of.induct)
  case (2 printable ranges arn arns got)
  then show ?case
    using concat_map_perm [OF 2(3) [of 0]] by (auto simp: resource_problems_def split: option.splits)
qed simp

lemma diffTags_sorted:
  assumes "\<And>i. mset (ranges i) = mset baseline"
  shows "diffTags printable ranges arns got = sort (concat (map (resource_problems printable baseline got) arns))"
  unfolding diffTags_def using problems_of_mset [OF assms] by (rule sort_perm)

lemma no_tag_problem: "tag_problem printable arn tags (k, v) = [] \<longleftrightarrow> tags k = Some v"
  by (auto simp: tag_problem_def split: option.splits)

lemma no_resource_problem:
  assumes "keys_distinct baseline"
  shows "resource_problems printable baseline got arn = [] \<longleftrightarrow>
     (\<exists>tags. got arn = Some tags \<and> map_of baseline \<subseteq>\<^sub>m tags)"
proof (cases "got arn")
  case (Some tags)
  have "(\<forall>kv\<in>set baseline. tag_problem printable arn tags kv = []) \<longleftrightarrow> map_of baseline \<subseteq>\<^sub>m tags"
    using assms unfolding keys_distinct_def map_le_def
    by (auto simp: no_tag_problem dom_map_of_conv_image_fst)
  with Some show ?thesis by (simp add: resource_problems_def)
qed (simp add: resource_problems_def)

lemma no_problems:
  assumes "keys_distinct baseline" and "\<And>i. mset (ranges i) = mset baseline"
  shows "diffTags printable ranges arns got = [] \<longleftrightarrow>
     (\<forall>arn\<in>set arns. \<exists>tags. got arn = Some tags \<and> map_of baseline \<subseteq>\<^sub>m tags)"
  using no_resource_problem [OF assms(1)] by (simp add: diffTags_sorted [OF assms(2)])

text \<open>In the index the last mapping of an ARN counts, and in it the last tag of a key.\<close>

lemma index_tags_eq:
  "index_tags ts m = m ++ map_of (rev (map (\<lambda>(k, v). (the k, to_string v)) (filter (\<lambda>(k, v). k \<noteq> None) ts)))"
proof (induction ts arbitrary: m)
  case (Cons t ts)
  obtain k v where "t = (k, v)" by fastforce
  then show ?case by (cases k) (simp_all add: Cons.IH to_string_def map_add_def fun_eq_iff split: option.splits)
qed simp

lemma index_mappings_eq:
  "index_mappings ms m =
     m ++ map_of (rev (map (\<lambda>(r, ts). (the r, index_tags ts Map.empty)) (filter (\<lambda>(r, ts). r \<noteq> None) ms)))"
proof (induction ms arbitrary: m)
  case (Cons r ms)
  obtain k ts where "r = (k, ts)" by fastforce
  then show ?case by (cases k) (simp_all add: Cons.IH map_add_def fun_eq_iff split: option.splits)
qed simp

text \<open>The texts of the report, in one piece.\<close>

lemma join_lines_join: "join_lines False ls out = concat (out # map (\<lambda>l. [CHR 0x0A] @ ''  - '' @ l) ls)"
  by (induction ls arbitrary: out) simp_all

lemma joinWithIndent_join: "joinWithIndent ls = join ([CHR 0x0A] @ ''  - '') ls"
proof -
  have "concat (l # map (\<lambda>l. [CHR 0x0A] @ ''  - '' @ l) ls) = join ([CHR 0x0A] @ ''  - '') (l # ls)" for l ls
  proof (induction ls arbitrary: l)
    case (Cons a ls)
    then show ?case by (cases ls) simp_all
  qed simp
  then show ?thesis
    by (cases ls) (simp_all add: joinWithIndent_def join_lines_join)
qed

text \<open>Whether the tags of the answer are as they should be.\<close>

definition tags_propagated :: "(string \<times> string) list \<Rightarrow> string list \<Rightarrow> go_error + (string option \<times> sdk_tags) list \<Rightarrow> bool" where
  "tags_propagated baseline arns answer \<longleftrightarrow>
     (\<exists>ms. answer = Inr ms \<and>
        (\<forall>arn\<in>set arns. \<exists>tags. indexByARN ms arn = Some tags \<and> map_of baseline \<subseteq>\<^sub>m tags))"

context calling_handle
begin

lemma propagation_reports:
  assumes "keys_distinct baseline" and "\<And>i. mset (ranges i) = mset baseline"
    and "baseline \<noteq> []" and "arns \<noteq> []"
  shows "reports I cleanups_of
     (\<not> tags_propagated baseline arns
          (aw_resources a (ctx_done w ctx) (NewResourceGroupsTagging cfg) arns (w_trace w)))
     (w\<lparr>w_trace := w_trace w @ [AwsCall (ctx_done w ctx) (NewResourceGroupsTagging cfg) ''GetResources'' arns]\<rparr>)
     (PropagatesFromRootContext printable ranges I a ctx cfg baseline arns w)"
  using assms(3,4) no_problems [where printable = printable and arns = arns, OF assms(1,2)]
  by (auto simp: PropagatesFromRootContext_def tags_propagated_def Let_def intro!: reports_asked reports_errorf
      reports_no_op simp del: bex_simps ball_simps split: sum.splits)

end

section \<open>Properties\<close>

text \<open>
  C29.  The report on tags does not depend on the order in which Go ranges over the baseline,
  however it differs from resource to resource: the problems are those of each resource in
  turn, in byte order.  There are none exactly when every resource was returned and bears
  every tag of the baseline with its value; other tags do not matter.
\<close>

theorem tag_report_is_deterministic:
  assumes "keys_distinct baseline" and "\<And>i. mset (ranges i) = mset baseline"
  shows "diffTags printable ranges arns got = sort (concat (map (resource_problems printable baseline got) arns)) \<and>
     (diffTags printable ranges arns got = [] \<longleftrightarrow>
       (\<forall>arn\<in>set arns. \<exists>tags. got arn = Some tags \<and> map_of baseline \<subseteq>\<^sub>m tags))"
  using diffTags_sorted [OF assms(2)] no_problems [OF assms] by simp

definition demo_baseline :: "(string \<times> string) list" where
  "demo_baseline = [(''env'', ''prod''), (''team'', ''core'')]"

lemma demo_baseline_keys: "keys_distinct demo_baseline"
  by (simp add: demo_baseline_def keys_distinct_def)

theorem tag_report_is_deterministic_witness:
  "diffTags (\<lambda>_. True) (\<lambda>i. if even i then demo_baseline else rev demo_baseline) [''a'', ''b''] [''a'' \<mapsto> [''env'' \<mapsto> ''dev'']] =
     sort (concat (map (resource_problems (\<lambda>_. True) demo_baseline [''a'' \<mapsto> [''env'' \<mapsto> ''dev'']]) [''a'', ''b'']))"
  by (rule tag_report_is_deterministic [THEN conjunct1, OF demo_baseline_keys]) simp

text \<open>
  C17.  \<^verbatim>\<open>PropagatesFromRoot\<close> makes one query for all the ARNs and fails the test exactly when it
  fails or its answer does not show every tag of the baseline on every resource; with no
  ARNs it fails the test and asks nothing, and with an empty baseline it does nothing.
\<close>

theorem propagation_fails_iff_a_tag_is_missing:
  fixes w :: "('c gotest, 'm) cworld"
  assumes "keys_distinct baseline" and "\<And>i. mset (ranges i) = mset baseline"
  shows "\<exists>t. PropagatesFromRoot printable ranges (real_tb rm) a cfg baseline arns w =
      (Ret (), w\<lparr>w_trace := w_trace w @ (if baseline = [] then [] else if arns = [] then [] else
          [AwsCall (ctx_done w TestCtx) (NewResourceGroupsTagging cfg) ''GetResources'' arns]), w_tb := t\<rparr>) \<and>
     t_cleanups t = t_cleanups (w_tb w) \<and>
     (t_failed t \<longleftrightarrow> t_failed (w_tb w) \<or> baseline \<noteq> [] \<and>
        (if arns = [] then True else \<not> tags_propagated baseline arns
          (aw_resources a (ctx_done w TestCtx) (NewResourceGroupsTagging cfg) arns (w_trace w))))"
proof (cases "baseline = [] \<or> arns = []")
  case True
  then show ?thesis
    by (auto simp: PropagatesFromRoot_def PropagatesFromRootContext_def real_tb_defs skip_run intro: exI [of _ "w_tb w"])
next
  case False
  then show ?thesis
    using real_calls.propagation_reports [OF assms, of arns rm a w TestCtx cfg printable]
    by (auto simp: reports_def PropagatesFromRoot_def real_tb_def)
qed

theorem propagation_fails_iff_a_tag_is_missing_witness:
  "\<exists>t. PropagatesFromRoot (\<lambda>_. True) (\<lambda>_. demo_baseline) (real_tb (\<lambda>_. ())) bucket_answers cfg0 demo_baseline [''arn:aws:s3:::b'']
      (demo_world fresh_T) =
      (Ret (), (demo_world fresh_T)\<lparr>w_trace :=
          [AwsCall False (NewResourceGroupsTagging cfg0) ''GetResources'' [''arn:aws:s3:::b'']], w_tb := t\<rparr>) \<and> t_failed t"
  using propagation_fails_iff_a_tag_is_missing [OF demo_baseline_keys refl, of "\<lambda>_. True" "\<lambda>_. ()" bucket_answers cfg0
      "[''arn:aws:s3:::b'']" "demo_world fresh_T"]
  by (auto simp: tags_propagated_def bucket_answers_def demo_world_def indexByARN_def ctx_done_def demo_baseline_def)

end
