(* ===== verification/Snapshot.thy ===== *)
theory Snapshot
  imports Json_Struct Testing Fake_TB
begin

text \<open>
  \<^verbatim>\<open>assert/snapshot/snapshot.go\<close>: a payload is compared with a file, byte for byte or after
  both are brought into a normal form, and with \<^verbatim>\<open>LIBTFTEST_UPDATE_SNAPSHOTS=1\<close> the file is
  written instead of failing the test.
\<close>

section \<open>The normal form\<close>

type_synonym any_json = "float64 json"

text \<open>
  \<^verbatim>\<open>marshalSorted\<close>: the loops over the members in the order of their keys and over the
  elements; what is neither an object nor an array goes to \<^verbatim>\<open>json.Marshal\<close>, as do the keys.
\<close>

fun write_members :: "(string \<times> string) list \<Rightarrow> nat \<Rightarrow> string" where
  "write_members [] i = []"
| "write_members ((k, vb) # kvs) i =
     (if 0 < i then '','' else []) @ marshal format_float (JStr k :: any_json) @ '':'' @ vb @ write_members kvs (Suc i)"

fun write_elements :: "string list \<Rightarrow> nat \<Rightarrow> string" where
  "write_elements [] i = []"
| "write_elements (eb # es) i = (if 0 < i then '','' else []) @ eb @ write_elements es (Suc i)"

fun marshalSorted :: "any_json \<Rightarrow> string" where
  "marshalSorted (JObj x) =
     ''{'' @ write_members (sort_key fst (map (\<lambda>(k, v). (k, marshalSorted v)) x)) 0 @ ''}''"
| "marshalSorted (JArr x) = ''['' @ write_elements (map marshalSorted x) 0 @ '']''"
| "marshalSorted v = marshal format_float v"

definition NormalizeJSON :: "string \<Rightarrow> go_error + string" where
  "NormalizeJSON raw =
     (case unmarshal parse_float raw of
        Inl err \<Rightarrow> Inl (ErrWrap ''unmarshal'' err)
      | Inr v \<Rightarrow> Inr (marshalSorted v))"

section \<open>Comparing\<close>

definition updateEnv :: string where
  "updateEnv = ''LIBTFTEST_UPDATE_SNAPSHOTS''"

text \<open>\<^verbatim>\<open>shortDiffHint\<close>: the first difference and up to twenty bytes on each side of it.\<close>

fun first_diff :: "string \<Rightarrow> string \<Rightarrow> nat \<Rightarrow> nat option" where
  "first_diff (a # want) (b # got) i = (if a \<noteq> b then Some i else first_diff want got (Suc i))"
| "first_diff _ _ i = None"

datatype diff_hint = DiffAt nat string string | LengthDiffers nat nat | NoDiff

definition slice :: "string \<Rightarrow> nat \<Rightarrow> nat \<Rightarrow> string" where
  "slice s a b = take (b - a) (drop a s)"

definition shortDiffHint :: "string \<Rightarrow> string \<Rightarrow> diff_hint" where
  "shortDiffHint want got =
     (case first_diff want got 0 of
        Some i \<Rightarrow>
          DiffAt i (slice want (i - 20) (min (i + 20) (length want)))
                   (slice got (i - 20) (min (i + 20) (length got)))
      | None \<Rightarrow> if length want \<noteq> length got then LengthDiffers (length want) (length got) else NoDiff)"

definition hint_args :: "diff_hint \<Rightarrow> arg list" where
  "hint_args h =
     (case h of
        DiffAt i w g \<Rightarrow> [ALit ''first diff at byte'', AInt (int i), AStr w, AStr g]
      | LengthDiffers w g \<Rightarrow> [ALit ''length differs'', AInt (int w), AInt (int g)]
      | NoDiff \<Rightarrow> [ALit ''<no byte-level diff but bytes.Equal returned false>''])"

definition writeSnapshot ::
  "(('t, 'x, 'm) world_scheme, 'c) tb_iface \<Rightarrow> string \<Rightarrow> string \<Rightarrow> (('t, 'x, 'm) world_scheme, unit) act"
where
  "writeSnapshot I path content w =
     (case os_mkdir_all (path_dir path) (w_fs w) of
        (Inl err, s) \<Rightarrow> m_errorf I ''snapshot: mkdir %s: %v'' [AStr (path_dir path), AErr err] (w\<lparr>w_fs := s\<rparr>)
      | (Inr _, s) \<Rightarrow>
          (case os_write_file path content 384 s of
             (Inl err, s') \<Rightarrow> m_errorf I ''snapshot: write %s: %v'' [AStr path, AErr err] (w\<lparr>w_fs := s'\<rparr>)
           | (Inr _, s') \<Rightarrow> (Ret (), w\<lparr>w_fs := s'\<rparr>)))"

definition line_end :: string where
  "line_end = [CHR 0x0A]"

text \<open>The part of \<^verbatim>\<open>compareSnapshot\<close> after the stored snapshot has been read.\<close>

definition compare_stored ::
  "(('t, 'x, 'm) world_scheme, 'c) tb_iface \<Rightarrow> bool \<Rightarrow> bool \<Rightarrow> string \<Rightarrow> string \<Rightarrow> string \<Rightarrow>
   (('t, 'x, 'm) world_scheme, unit) act"
where
  "compare_stored I update structural normalizedActual path want =
     (case (if structural then NormalizeJSON want else Inr want) of
        Inl err \<Rightarrow> m_errorf I ''snapshot: normalize stored snapshot %s: %v'' [AStr path, AErr err]
      | Inr wantForCompare \<Rightarrow>
          if normalizedActual = wantForCompare then skip
          else if update then
            andthen (writeSnapshot I path normalizedActual)
              (m_logf I ''snapshot: rewrote %s (%d bytes)'' [AStr path, AInt (int (length normalizedActual))])
          else
            m_errorf I (''snapshot: %s mismatch'' @ line_end @ ''--- want (%d bytes)'' @ line_end @ ''+++ got (%d bytes)'' @ line_end @ ''%s'')
              ([AStr path, AInt (int (length wantForCompare)), AInt (int (length normalizedActual))] @
               hint_args (shortDiffHint wantForCompare normalizedActual)))"

definition compareSnapshot ::
  "(('t, 'x, 'm) world_scheme, 'c) tb_iface \<Rightarrow> string \<Rightarrow> string \<Rightarrow> bool \<Rightarrow> (('t, 'x, 'm) world_scheme, unit) act"
where
  "compareSnapshot I actual path structural w =
     (let update = getenv w updateEnv = ''1'' in
      case (if structural then NormalizeJSON actual else Inr actual) of
        Inl err \<Rightarrow> m_errorf I ''snapshot: normalize actual: %v'' [AErr err] w
      | Inr normalizedActual \<Rightarrow>
          (case os_read_file (w_fs w) path of
             Inl err \<Rightarrow>
               if errors_is err ErrNotExist then
                 if \<not> update then
                   m_errorf I ''snapshot: %s missing; rerun with %s=1 to create it'' [AStr path, AStr updateEnv] w
                 else
                   andthen (writeSnapshot I path normalizedActual)
                     (m_logf I ''snapshot: wrote new %s (%d bytes)''
                        [AStr path, AInt (int (length normalizedActual))]) w
               else m_errorf I ''snapshot: read %s: %v'' [AStr path, AErr err] w
           | Inr want \<Rightarrow> compare_stored I update structural normalizedActual path want w))"

definition JSONStrict ::
  "(('t, 'x, 'm) world_scheme, 'c) tb_iface \<Rightarrow> string \<Rightarrow> string \<Rightarrow> (('t, 'x, 'm) world_scheme, unit) act"
where
  "JSONStrict I actual path = compareSnapshot I actual path False"

definition JSONStructural ::
  "(('t, 'x, 'm) world_scheme, 'c) tb_iface \<Rightarrow> string \<Rightarrow> string \<Rightarrow> (('t, 'x, 'm) world_scheme, unit) act"
where
  "JSONStructural I actual path = compareSnapshot I actual path True"

section \<open>The normal form is normal\<close>

lemma write_members_from:
  "write_members kvs (Suc i) = (if kvs = [] then [] else '','' @ write_members kvs 0)"
  by (induction kvs arbitrary: i) auto

lemma write_elements_from:
  "write_elements es (Suc i) = (if es = [] then [] else '','' @ write_elements es 0)"
  by (induction es arbitrary: i) auto

lemma write_members_join:
  "write_members kvs 0 = join '','' (map (\<lambda>(k, vb). json_string k @ '':'' @ vb) kvs)"
  by (induction kvs rule: induct_list012) (auto simp: write_members_from)

lemma write_elements_join: "write_elements es 0 = join '','' es"
  by (induction es rule: induct_list012) (auto simp: write_elements_from)

lemma marshalSorted_marshal: "marshalSorted v = marshal format_float v"
proof (induction v rule: marshalSorted.induct)
  case (1 x)
  then have m: "map (\<lambda>(k, v). (k, marshalSorted v)) x = map (\<lambda>(k, v). (k, marshal format_float v)) x"
    by auto
  show ?case
    by (simp only: marshalSorted.simps marshal.simps m write_members_join members_def commas_def)
next
  case (2 x)
  then have m: "map marshalSorted x = map (marshal format_float) x" by simp
  show ?case by (simp only: marshalSorted.simps marshal.simps m write_elements_join commas_def)
qed simp_all

text \<open>
  C31.  Sorting is what \<^verbatim>\<open>encoding/json\<close> does anyway: the hand-written \<^verbatim>\<open>marshalSorted\<close> writes
  the same bytes as \<^verbatim>\<open>json.Marshal\<close> for every value.
\<close>

theorem marshalSorted_is_marshal: "marshalSorted v = marshal format_float v"
  by (rule marshalSorted_marshal)

lemma NormalizeJSON_fixed:
  assumes "NormalizeJSON raw = Inr t"
  shows "NormalizeJSON t = Inr t"
proof -
  obtain v where v: "unmarshal parse_float raw = Inr v" "t = marshal format_float v"
    using assms by (auto simp: NormalizeJSON_def marshalSorted_marshal split: sum.splits)
  then have "unmarshal parse_float t = Inr (sort_json v)"
    using json64.marshal_unmarshal_marshal by blast
  then show ?thesis
    by (simp add: NormalizeJSON_def marshalSorted_marshal marshal_sort_json v(2))
qed

text \<open>
  The normal form is stable: normalizing what \<^verbatim>\<open>NormalizeJSON\<close> returned gives it back
  unchanged, for every input it accepts.  A snapshot written in normal form is therefore
  compared with itself, whatever its numbers, escapes and repeated keys were.
\<close>

theorem normalize_twice: "NormalizeJSON raw = Inr t \<Longrightarrow> NormalizeJSON t = Inr t"
  by (rule NormalizeJSON_fixed)

lemma sample_value:
  "unmarshal parse_float ''{ true : 1}'' = Inl syntax_error"
  "unmarshal parse_float ''[true, {}]'' = Inr (JArr [JBool True, JObj []])"
  by code_simp+

theorem normalize_twice_witness:
  "NormalizeJSON ''[true, {}]'' = Inr ''[true,{}]'' \<and> NormalizeJSON ''[true,{}]'' = Inr ''[true,{}]''"
proof -
  have n: "NormalizeJSON ''[true, {}]'' = Inr ''[true,{}]''"
    by (simp add: NormalizeJSON_def sample_value)
  with normalize_twice [OF n] show ?thesis by simp
qed

text \<open>
  C22.  Two payloads have the same normal form exactly when they are the same JSON value up to
  the order of the members of objects, white space, escapes and the spelling of numbers.
\<close>

theorem normal_forms_agree:
  assumes "unmarshal parse_float s = Inr v" and "unmarshal parse_float t = Inr w"
  shows "NormalizeJSON s = NormalizeJSON t \<longleftrightarrow> sort_json v = sort_json w"
  using json64.marshal_eq_iff [OF assms] assms
  by (simp add: NormalizeJSON_def marshalSorted_marshal)

lemma sample_members:
  "unmarshal parse_float ''{\"a\":null, \"b\":[]}'' = Inr (JObj [(''a'', JNull), (''b'', JArr [])])"
  "unmarshal parse_float ''{\"b\":[],\"a\":null}'' = Inr (JObj [(''b'', JArr []), (''a'', JNull)])"
  by code_simp+

theorem normal_forms_agree_witness:
  "NormalizeJSON ''{\"a\":null, \"b\":[]}'' = NormalizeJSON ''{\"b\":[],\"a\":null}''"
  unfolding normal_forms_agree [OF sample_members] by simp

section \<open>The verdict\<close>

definition canonical :: "bool \<Rightarrow> string \<Rightarrow> go_error + string" where
  "canonical structural s = (if structural then NormalizeJSON s else Inr s)"

text \<open>A stored snapshot accepts a payload: both have a form to compare, and it is the same.\<close>

definition accepts :: "bool \<Rightarrow> string \<Rightarrow> string \<Rightarrow> bool" where
  "accepts structural stored actual \<longleftrightarrow>
     (\<exists>t. canonical structural stored = Inr t \<and> canonical structural actual = Inr t)"

lemma accepts_simps:
  "accepts False stored actual \<longleftrightarrow> stored = actual"
  "accepts True stored actual \<longleftrightarrow> (\<exists>t. NormalizeJSON stored = Inr t \<and> NormalizeJSON actual = Inr t)"
  by (auto simp: accepts_def canonical_def)

lemma failed_real: "m_failed (real_tb rm) w = t_failed (w_tb w)"
  by (simp add: real_tb_def)

context test_handle
begin

lemma compareSnapshot_verdict:
  assumes "getenv w updateEnv \<noteq> ''1''"
  shows "reports I cleanups_of
     (case os_read_file (w_fs w) path of Inl _ \<Rightarrow> True | Inr stored \<Rightarrow> \<not> accepts structural stored actual)
     w (compareSnapshot I actual path structural w)"
proof -
  have u: "\<not> getenv w updateEnv = ''1''" using assms by simp
  show ?thesis
    using u reports_errorf reports_skip
    by (auto simp: compareSnapshot_def compare_stored_def canonical_def [symmetric] accepts_def Let_def
        skip_run split: sum.splits)
qed

end

lemma read_file_at:
  assumes "fs_wf s" and "node_at s q = Some (NFile c m)" and "fault s = (\<lambda>_ _. None)"
  shows "os_read_file s (abs_text q) = Inr c"
proof -
  have q: "q \<noteq> []" using assms(2) by auto
  then have "locate s True False (abs_text q) = Inr q"
    using fs_wf_node [OF assms(1,2)] dir_chain_wf [OF assms(1)] assms(2) by (intro locate_node) auto
  then show ?thesis using assms(2,3) by (simp add: os_read_file_def stat_with_def)
qed

text \<open>A place for a snapshot: its directory exists or can be made, and it is free or a regular file.\<close>

definition snapshot_place :: "fsys \<Rightarrow> string list \<Rightarrow> string \<Rightarrow> bool" where
  "snapshot_place s d n \<longleftrightarrow>
     fs_wf s \<and> fault s = (\<lambda>_ _. None) \<and> list_all plain (d @ [n]) \<and>
     (node_at s d = Some NDir \<and> (\<forall>nd. node_at s (d @ [n]) = Some nd \<longrightarrow> (\<exists>c m. nd = NFile c m)) \<or>
      d \<noteq> [] \<and> node_at s d = None \<and> node_at s (butlast d) = Some NDir)"

lemma snapshot_place_cases:
  assumes "snapshot_place s d n"
  obtains (present) "node_at s d = Some NDir"
      "\<forall>t. node_at s (d @ [n]) \<noteq> Some (NLink t)" "node_at s (d @ [n]) \<noteq> Some NDir"
  | (absent) e x where "d = e @ [x]" "node_at s e = Some NDir" "node_at s d = None" "node_at s (d @ [n]) = None"
proof (cases "node_at s d")
  case None
  then have "node_at s (d @ [n]) = None"
    using wf_parent(1) [of s d "[n]"] assms by (cases "node_at s (d @ [n])") (auto simp: snapshot_place_def)
  then show thesis
    using None assms absent [of "butlast d" "last d"] by (auto simp: snapshot_place_def)
next
  case (Some nd)
  then show thesis using assms by (intro present) (auto simp: snapshot_place_def)
qed

lemma read_missing:
  assumes "snapshot_place s d n" and "node_at s (d @ [n]) = None"
  shows "os_read_file s (abs_text (d @ [n])) = Inl ErrNotExist"
proof -
  have wf: "fs_wf s" "list_all plain (d @ [n])" "fault s = (\<lambda>_ _. None)"
    using assms(1) by (simp_all add: snapshot_place_def)
  have "locate s True False (abs_text (d @ [n])) = Inl ErrNotExist"
    using assms(1)
  proof (cases rule: snapshot_place_cases)
    case present
    then show ?thesis
      using locate_missing [OF wf(2) dir_chain_wf [OF wf(1)] assms(2)] by simp
  next
    case (absent e x)
    have "walk_links s True False 40 True [] (e @ [x, n]) = walk_links s True False 40 True e [x, n]"
      using walk_links_dirs [of "[]" e s True False 40 "[x, n]"] wf(2) dir_chain_wf [OF wf(1) absent(2)] absent(1)
      by simp
    moreover have "x \<noteq> ''..''" "place s True (e @ [x]) = e @ [x]"
      using wf(2) absent(1) by auto
    ultimately show ?thesis
      using wf(2) absent by (simp add: locate_def)
  qed
  then show ?thesis by (simp add: os_read_file_def stat_with_def wf(3))
qed

lemma write_file_at_place:
  assumes "snapshot_place s d n"
  shows "\<exists>s1 s2 m. os_mkdir_all (abs_text d) s = (Inr (), s1) \<and>
     os_write_file (abs_text (d @ [n])) c 384 s1 = (Inr (), s2) \<and>
     fs_wf s2 \<and> fault s2 = fault s \<and> node_at s2 (d @ [n]) = Some (NFile c m) \<and>
     (\<forall>p. p \<noteq> d @ [n] \<and> p \<noteq> d \<longrightarrow> node_at s2 p = node_at s p)"
proof -
  have wf: "fs_wf s" "list_all plain (d @ [n])" "fault s = (\<lambda>_ _. None)"
    using assms by (simp_all add: snapshot_place_def)
  show ?thesis
    using assms
  proof (cases rule: snapshot_place_cases)
    case present
    then have "os_mkdir_all (abs_text d) s = (Inr (), s)"
      using wf dir_chain_wf [OF wf(1)] by (intro mkdir_all_existing) auto
    then show ?thesis
      using write_file_in_dir [OF wf(1,2) present(1) wf(3) present(2,3), of c 384] by fastforce
  next
    case (absent e x)
    let ?s = "set_node d NDir s"
    have m: "os_mkdir_all (abs_text d) s = (Inr (), ?s)"
      using mkdir_all_new [of e x s] wf absent dir_chain_wf [OF wf(1)] by simp
    have "fs_wf ?s" using wf absent by (intro fs_wf_set_node) auto
    moreover have "node_at ?s d = Some NDir" "node_at ?s (d @ [n]) = None"
      using absent by (simp_all add: node_at_set_node)
    ultimately obtain s' m' where "os_write_file (abs_text (d @ [n])) c 384 ?s = (Inr (), s')" "fs_wf s'"
        "fault s' = fault ?s" "\<forall>p. node_at s' p = (if p = d @ [n] then Some (NFile c m') else node_at ?s p)"
      using write_file_in_dir [of ?s d n c 384] wf by auto
    with m absent show ?thesis
      by (intro exI [of _ ?s] exI [of _ s'] exI [of _ m']) (simp add: node_at_set_node)
  qed
qed

context test_handle
begin

lemma writeSnapshot_at_place:
  assumes "snapshot_place (w_fs w) d n"
  shows "\<exists>s m. writeSnapshot I (abs_text (d @ [n])) c w = (Ret (), w\<lparr>w_fs := s\<rparr>) \<and> fs_wf s \<and>
     fault s = (\<lambda>_ _. None) \<and> node_at s (d @ [n]) = Some (NFile c m) \<and>
     (\<forall>p. p \<noteq> d @ [n] \<and> p \<noteq> d \<longrightarrow> node_at s p = node_at (w_fs w) p)"
proof -
  have pl: "list_all plain d" "plain n" "fault (w_fs w) = (\<lambda>_ _. None)"
    using assms by (simp_all add: snapshot_place_def)
  with write_file_at_place [OF assms, of c] show ?thesis
    by (auto simp: writeSnapshot_def)
qed

lemma compareSnapshot_accepted:
  "os_read_file (w_fs w) path = Inr stored \<Longrightarrow> accepts structural stored actual \<Longrightarrow>
   compareSnapshot I actual path structural w = (Ret (), w)"
  by (auto simp: compareSnapshot_def compare_stored_def canonical_def [symmetric] accepts_def Let_def skip_run)

lemma compareSnapshot_writes:
  assumes "getenv w updateEnv = ''1''" and "canonical structural actual = Inr t"
    and "case os_read_file (w_fs w) path of
           Inl err \<Rightarrow> errors_is err ErrNotExist
         | Inr stored \<Rightarrow> (\<exists>u. canonical structural stored = Inr u \<and> u \<noteq> t)"
  shows "\<exists>msg. compareSnapshot I actual path structural w =
           andthen (writeSnapshot I path t) (m_logf I msg [AStr path, AInt (int (length t))]) w"
  using assms
  by (auto simp: compareSnapshot_def compare_stored_def canonical_def [symmetric] Let_def split: sum.splits)

lemma update_then_compare:
  assumes place: "snapshot_place (w_fs w) d n" and up: "getenv w updateEnv = ''1''"
    and actual: "canonical structural actual = Inr t"
    and stored: "\<And>c m. node_at (w_fs w) (d @ [n]) = Some (NFile c m) \<Longrightarrow> \<exists>u. canonical structural c = Inr u"
  shows "\<exists>w'. compareSnapshot I actual (abs_text (d @ [n])) structural w = (Ret (), w') \<and>
     m_failed I w' = m_failed I w \<and>
     (\<forall>p. p \<noteq> d @ [n] \<and> p \<noteq> d \<longrightarrow> node_at (w_fs w') p = node_at (w_fs w) p) \<and>
     (\<forall>v. w_fs v = w_fs w' \<longrightarrow> compareSnapshot I actual (abs_text (d @ [n])) structural v = (Ret (), v))"
proof -
  let ?path = "abs_text (d @ [n])"
  have t: "canonical structural t = Inr t"
    using actual NormalizeJSON_fixed by (cases structural) (auto simp: canonical_def)
  have wf: "fs_wf (w_fs w)" "fault (w_fs w) = (\<lambda>_ _. None)"
    using place by (simp_all add: snapshot_place_def)
  show ?thesis
  proof (cases "\<exists>c m. node_at (w_fs w) (d @ [n]) = Some (NFile c m) \<and> accepts structural c actual")
    case True
    then obtain c where c: "os_read_file (w_fs w) ?path = Inr c" "accepts structural c actual"
      using read_file_at [OF wf(1) _ wf(2)] by blast
    then show ?thesis
      by (intro exI [of _ w]) (simp add: compareSnapshot_accepted)
  next
    case False
    have "case os_read_file (w_fs w) ?path of
           Inl err \<Rightarrow> errors_is err ErrNotExist
         | Inr stored \<Rightarrow> (\<exists>u. canonical structural stored = Inr u \<and> u \<noteq> t)"
    proof (cases "node_at (w_fs w) (d @ [n])")
      case None
      with read_missing [OF place] show ?thesis by simp
    next
      case (Some nd)
      then obtain c m where c: "node_at (w_fs w) (d @ [n]) = Some (NFile c m)"
        using place wf_parent(1) [OF wf(1), of d "[n]"] by (auto simp: snapshot_place_def)
      with read_file_at [OF wf(1) c wf(2)] stored [OF c] False actual show ?thesis
        by (auto simp: accepts_def)
    qed
    then obtain msg where e: "compareSnapshot I actual ?path structural w =
        andthen (writeSnapshot I ?path t) (m_logf I msg [AStr ?path, AInt (int (length t))]) w"
      using compareSnapshot_writes [OF up actual] by blast
    obtain s m where s: "writeSnapshot I ?path t w = (Ret (), w\<lparr>w_fs := s\<rparr>)" "fs_wf s"
        "fault s = (\<lambda>_ _. None)" "node_at s (d @ [n]) = Some (NFile t m)"
        "\<forall>p. p \<noteq> d @ [n] \<and> p \<noteq> d \<longrightarrow> node_at s p = node_at (w_fs w) p"
      using writeSnapshot_at_place [OF place] by blast
    obtain tb where tb: "m_logf I msg [AStr ?path, AInt (int (length t))] (w\<lparr>w_fs := s\<rparr>) =
        (Ret (), w\<lparr>w_fs := s, w_tb := tb\<rparr>)" "m_failed I (w\<lparr>w_fs := s, w_tb := tb\<rparr>) = m_failed I (w\<lparr>w_fs := s\<rparr>)"
      using logf_law [of msg "[AStr ?path, AInt (int (length t))]" "w\<lparr>w_fs := s\<rparr>"] by auto
    have "m_failed I (w\<lparr>w_fs := s\<rparr>) = m_failed I w" by (rule failed_law) simp
    moreover have "accepts structural t actual" using t actual by (simp add: accepts_def)
    ultimately show ?thesis
      using s tb read_file_at [OF s(2,4,3)]
      by (intro exI [of _ "w\<lparr>w_fs := s, w_tb := tb\<rparr>"])
         (simp add: e andthen_run compareSnapshot_accepted)
  qed
qed

end

text \<open>
  C9.  A run that updates the snapshots makes the next one pass: with
  \<^verbatim>\<open>LIBTFTEST_UPDATE_SNAPSHOTS=1\<close>, a payload that has a form to compare and a snapshot that
  is missing, equal, or stored in a form that can be compared, the test does not fail, no
  other file than the snapshot and its directory is touched, and from then on the same
  comparison passes without doing anything, with or without the variable.
\<close>

theorem updated_snapshot_passes:
  fixes w :: "('c, 'x, 'm) tworld"
  assumes "snapshot_place (w_fs w) d n" and "getenv w updateEnv = ''1''"
    and "canonical structural actual = Inr t"
    and "\<And>c m. node_at (w_fs w) (d @ [n]) = Some (NFile c m) \<Longrightarrow> \<exists>u. canonical structural c = Inr u"
  shows "\<exists>w'. compareSnapshot (real_tb rm) actual (abs_text (d @ [n])) structural w = (Ret (), w') \<and>
     t_failed (w_tb w') = t_failed (w_tb w) \<and>
     (\<forall>p. p \<noteq> d @ [n] \<and> p \<noteq> d \<longrightarrow> node_at (w_fs w') p = node_at (w_fs w) p) \<and>
     (\<forall>v :: ('c, 'x, 'm) tworld. w_fs v = w_fs w' \<longrightarrow>
        compareSnapshot (real_tb rm) actual (abs_text (d @ [n])) structural v = (Ret (), v))"
  unfolding failed_real [of rm, symmetric] by (rule real.update_then_compare [OF assms(1-3)]) (rule assms(4))


definition demo_snapshots :: fsys where
  "demo_snapshots = \<lparr>nodes = [([''r''], NDir)], cwd = [], umask = 18, fault = (\<lambda>_ _. None)\<rparr>"

definition demo_updating :: "string \<Rightarrow> 't \<Rightarrow> ('t, unit) world" where
  "demo_updating mode t =
     \<lparr>w_tb = t, w_env = (\<lambda>k. if k = updateEnv then Some mode else None), w_goos = ''linux'',
      w_fs = demo_snapshots, w_rand = [], w_cancelled = [], w_trace = []\<rparr>"

definition fresh_test :: "unit gotest" where
  "fresh_test =
     \<lparr>t_name = ''TestX'', t_failed = False, t_skipped = False, t_cleanups = [], t_output = [],
      t_temp = [], t_seq = 0\<rparr>"

lemma demo_snapshots_place:
  "snapshot_place demo_snapshots [''r'', ''testdata''] ''a.json''" "snapshot_place demo_snapshots [''r''] ''a.json''"
  by (auto simp: snapshot_place_def demo_snapshots_def fs_wf_def keys_distinct_def plain_def node_at_def)

lemma demo_updating_reads:
  "w_fs (demo_updating m t) = demo_snapshots" "getenv (demo_updating m t) updateEnv = m"
  by (simp_all add: demo_updating_def getenv_def)

theorem updated_snapshot_passes_witness:
  "\<exists>w'. compareSnapshot (real_tb (\<lambda>_. ())) ''[true, {}]'' (abs_text [''r'', ''testdata'', ''a.json'']) True
       (demo_updating ''1'' fresh_test) = (Ret (), w') \<and>
     \<not> t_failed (w_tb w') \<and>
     compareSnapshot (real_tb (\<lambda>_. ())) ''[true, {}]'' (abs_text [''r'', ''testdata'', ''a.json'']) True
       (w'\<lparr>w_env := (\<lambda>_. None)\<rparr>) = (Ret (), w'\<lparr>w_env := (\<lambda>_. None)\<rparr>)"
proof -
  let ?w = "demo_updating ''1'' fresh_test"
  have "NormalizeJSON ''[true, {}]'' = Inr ''[true,{}]''"
    by (simp add: NormalizeJSON_def sample_value)
  then have "canonical True ''[true, {}]'' = Inr ''[true,{}]''" by (simp add: canonical_def)
  moreover have "node_at demo_snapshots [''r'', ''testdata'', ''a.json''] = None"
    by (simp add: demo_snapshots_def node_at_def)
  ultimately show ?thesis
    using updated_snapshot_passes [of ?w "[''r'', ''testdata'']" "''a.json''" True "''[true, {}]''" "''[true,{}]''" "\<lambda>_. ()"]
      demo_snapshots_place(1)
    by (auto simp: demo_updating_def getenv_def fresh_test_def)
qed


end
