(* ===== verification/Extract.thy ===== *)
theory Extract
  imports Snapshot
begin

text \<open>
  \<^verbatim>\<open>assert/snapshot/extract.go\<close>: policy documents and attributes out of the JSON of a
  Terraform plan, in the normal form in which snapshots are compared.
\<close>

section \<open>The plan\<close>

record planResource =
  pr_address :: string
  pr_type :: string
  pr_values :: "(string \<times> any_json) list option"

definition zero_resource :: planResource where
  "zero_resource = \<lparr>pr_address = [], pr_type = [], pr_values = None\<rparr>"

definition resource_fields :: "planResource field list" where
  "resource_fields =
     [(''address'', \<lambda>r x. map_option (\<lambda>s. x\<lparr>pr_address := s\<rparr>) (into_string r (pr_address x))),
      (''type'', \<lambda>r x. map_option (\<lambda>s. x\<lparr>pr_type := s\<rparr>) (into_string r (pr_type x))),
      (''values'', \<lambda>r x. map_option (\<lambda>m. x\<lparr>pr_values := m\<rparr>) (into_map (decode parse_float) r (pr_values x)))]"

text \<open>
  \<^verbatim>\<open>planFile\<close> holds nothing but the resources of the root module, two structs down.
\<close>

type_synonym planFile = "planResource slice"

definition plan_fields :: "planFile field list" where
  "plan_fields =
     [(''planned_values'', into_struct
        [(''root_module'', into_struct
           [(''resources'', into_slice (into_struct resource_fields) zero_resource)])])]"

definition unmarshal_plan :: "string \<Rightarrow> go_error + planFile" where
  "unmarshal_plan = unmarshal_into (into_struct plan_fields) ([], [])"

section \<open>Policies\<close>

text \<open>\<^verbatim>\<open>r.Values[field].(string)\<close>: \<open>None\<close> when the field is missing or not a string.\<close>

definition string_value :: "planResource \<Rightarrow> string \<Rightarrow> string option" where
  "string_value r field =
     (case pr_values r of
        None \<Rightarrow> None
      | Some m \<Rightarrow> (case map_of m field of Some (JStr s) \<Rightarrow> Some s | _ \<Rightarrow> None))"

type_synonym extracted = "(string \<times> string) list"

definition extractStringPolicy ::
  "planResource \<Rightarrow> extracted \<Rightarrow> string \<Rightarrow> string \<Rightarrow> go_error + extracted"
where
  "extractStringPolicy r m field suffix =
     (case string_value r field of
        None \<Rightarrow> Inr m
      | Some doc \<Rightarrow>
          (case NormalizeJSON doc of
             Inl err \<Rightarrow> Inl (ErrWrap (pr_address r @ suffix) err)
           | Inr normalized \<Rightarrow> Inr (put (pr_address r @ suffix) normalized m)))"

definition extractFromResource :: "planResource \<Rightarrow> extracted \<Rightarrow> go_error + extracted" where
  "extractFromResource r m =
     (if pr_type r = ''aws_iam_role'' then
        extractStringPolicy r m ''assume_role_policy'' ''.assume_role''
      else if pr_type r = ''aws_iam_role_policy'' then
        (case string_value r ''name'' of
           None \<Rightarrow> Inr m
         | Some name \<Rightarrow>
             if name = [] then Inr m
             else extractStringPolicy r m ''policy'' (''.inline:'' @ name))
      else if pr_type r = ''aws_iam_role_policy_attachment'' then
        (case string_value r ''policy_arn'' of
           None \<Rightarrow> Inr m
         | Some arn \<Rightarrow> if arn \<noteq> [] then Inr (put (pr_address r @ ''.managed:'' @ arn) arn m) else Inr m)
      else if pr_type r = ''aws_iam_policy'' then
        extractStringPolicy r m ''policy'' ''.policy''
      else Inr m)"

fun extract_each :: "planResource list \<Rightarrow> extracted \<Rightarrow> go_error + extracted" where
  "extract_each [] m = Inr m"
| "extract_each (r # rs) m =
     (case extractFromResource r m of Inl err \<Rightarrow> Inl err | Inr m' \<Rightarrow> extract_each rs m')"

definition ExtractIAMPolicies :: "string \<Rightarrow> go_error + extracted" where
  "ExtractIAMPolicies planJSON =
     (case unmarshal_plan planJSON of
        Inl err \<Rightarrow> Inl (ErrWrap ''unmarshal plan'' err)
      | Inr plan \<Rightarrow> extract_each (fst plan) [])"

section \<open>One attribute\<close>

definition looksLikeJSON :: "string \<Rightarrow> bool" where
  "looksLikeJSON s =
     (case trim_space s of [] \<Rightarrow> False | first # _ \<Rightarrow> first = CHR ''{'' \<or> first = CHR ''['')"

fun walk_path :: "string \<Rightarrow> string \<Rightarrow> string list \<Rightarrow> any_json \<Rightarrow> go_error + any_json" where
  "walk_path addr path [] cur = Inr cur"
| "walk_path addr path (segment # rest) cur =
     (case cur of
        JObj m \<Rightarrow>
          (case map_of m segment of
             None \<Rightarrow> Inl (ErrText (addr @ '': attribute not present: '' @ path))
           | Some v \<Rightarrow> walk_path addr path rest v)
      | _ \<Rightarrow> Inl (ErrText (addr @ '': segment applied to non-object: '' @ segment)))"

definition attribute_text :: "any_json \<Rightarrow> go_error + string" where
  "attribute_text cur =
     (case cur of
        JStr s \<Rightarrow> if looksLikeJSON s then NormalizeJSON s else Inr (marshalSorted cur)
      | _ \<Rightarrow> Inr (marshalSorted cur))"

definition ExtractResourceAttribute :: "string \<Rightarrow> string \<Rightarrow> string \<Rightarrow> go_error + string" where
  "ExtractResourceAttribute planJSON resourceAddress attributePath =
     (if resourceAddress = [] then Inl (ErrText ''resourceAddress is empty'')
      else if attributePath = [] then Inl (ErrText ''attributePath is empty'')
      else
        (case unmarshal_plan planJSON of
           Inl err \<Rightarrow> Inl (ErrWrap ''unmarshal plan'' err)
         | Inr plan \<Rightarrow>
             (case find (\<lambda>r. pr_address r = resourceAddress) (fst plan) of
                None \<Rightarrow> Inl (ErrText (''resource not found in planned_values: '' @ resourceAddress))
              | Some r \<Rightarrow>
                  (case pr_values r of
                     None \<Rightarrow> Inl (ErrText (''resource not found in planned_values: '' @ resourceAddress))
                   | Some target \<Rightarrow>
                       (case walk_path resourceAddress attributePath (split_on CHR ''.'' attributePath) (JObj target) of
                          Inl err \<Rightarrow> Inl err
                        | Inr cur \<Rightarrow> attribute_text cur)))))"

section \<open>Where the documents come from\<close>

text \<open>The slots of a resource that hold a policy document: the field and the suffix of the key.\<close>

definition document_slot :: "planResource \<Rightarrow> string \<Rightarrow> string \<Rightarrow> bool" where
  "document_slot r field suffix \<longleftrightarrow>
     pr_type r = ''aws_iam_role'' \<and> field = ''assume_role_policy'' \<and> suffix = ''.assume_role'' \<or>
     pr_type r = ''aws_iam_policy'' \<and> field = ''policy'' \<and> suffix = ''.policy'' \<or>
     pr_type r = ''aws_iam_role_policy'' \<and> field = ''policy'' \<and>
       (\<exists>name. string_value r ''name'' = Some name \<and> name \<noteq> [] \<and> suffix = ''.inline:'' @ name)"

definition from_resource :: "planResource \<Rightarrow> string \<Rightarrow> string \<Rightarrow> bool" where
  "from_resource r k d \<longleftrightarrow>
     (\<exists>field suffix doc. document_slot r field suffix \<and> string_value r field = Some doc \<and>
        NormalizeJSON doc = Inr d \<and> k = pr_address r @ suffix) \<or>
     pr_type r = ''aws_iam_role_policy_attachment'' \<and> string_value r ''policy_arn'' = Some d \<and> d \<noteq> [] \<and>
       k = pr_address r @ ''.managed:'' @ d"

lemma from_resource_unique: "from_resource r k d \<Longrightarrow> from_resource r k' d' \<Longrightarrow> k' = k \<and> d' = d"
  by (auto simp: from_resource_def document_slot_def)

text \<open>One resource: nothing to extract, one entry, or a document that is not JSON.\<close>

lemma extractFromResource_cases:
  "extractFromResource r m = Inr m' \<Longrightarrow>
   (\<exists>k d. from_resource r k d \<and> m' = put k d m) \<or> (\<nexists>k d. from_resource r k d) \<and> m' = m"
  by (auto simp: extractFromResource_def extractStringPolicy_def from_resource_def document_slot_def
      split: if_splits option.splits sum.splits)

definition bad_document :: "planResource \<Rightarrow> bool" where
  "bad_document r \<longleftrightarrow>
     (\<exists>field suffix doc e. document_slot r field suffix \<and> string_value r field = Some doc \<and>
        NormalizeJSON doc = Inl e)"

lemma extractFromResource_error: "(\<exists>err. extractFromResource r m = Inl err) \<longleftrightarrow> bad_document r"
  by (auto simp: extractFromResource_def extractStringPolicy_def document_slot_def bad_document_def
      split: if_splits option.splits sum.splits)

lemma extract_each_entries:
  assumes "extract_each rs m = Inr m'"
  shows "map_of m' k = Some d \<Longrightarrow> map_of m k = Some d \<or> (\<exists>r\<in>set rs. from_resource r k d)"
    and "map_of m' k \<noteq> None \<longleftrightarrow> map_of m k \<noteq> None \<or> (\<exists>r\<in>set rs. \<exists>d. from_resource r k d)"
proof (atomize (full), use assms in \<open>induction rs arbitrary: m\<close>)
  case (Cons r rs)
  then obtain m1 where m1: "extractFromResource r m = Inr m1" "extract_each rs m1 = Inr m'"
    by (auto split: sum.splits)
  have IH: "map_of m' k = Some d \<Longrightarrow> map_of m1 k = Some d \<or> (\<exists>r\<in>set rs. from_resource r k d)"
      "map_of m' k \<noteq> None \<longleftrightarrow> map_of m1 k \<noteq> None \<or> (\<exists>r\<in>set rs. \<exists>d. from_resource r k d)"
    using Cons.IH [OF m1(2)] by blast+
  from extractFromResource_cases [OF m1(1)] show ?case
  proof (elim disjE exE conjE)
    fix k' d' assume f: "from_resource r k' d'" "m1 = put k' d' m"
    then have "from_resource r k d2 \<longleftrightarrow> k' = k \<and> d' = d2" for d2
      using from_resource_unique [OF f(1)] by blast
    with IH f(2) show ?thesis by (auto split: if_splits)
  next
    assume "\<nexists>k d. from_resource r k d" "m1 = m"
    with IH show ?thesis by auto
  qed
qed simp

lemma extract_each_error: "(\<exists>err. extract_each rs m = Inl err) \<longleftrightarrow> (\<exists>r\<in>set rs. bad_document r)"
proof (induction rs arbitrary: m)
  case (Cons r rs)
  show ?case
  proof (cases "extractFromResource r m")
    case (Inl err)
    then show ?thesis using extractFromResource_error [of r m] by auto
  next
    case (Inr m')
    then have "\<not> bad_document r" using extractFromResource_error [of r m] by auto
    with Inr Cons [of m'] show ?thesis by simp
  qed
qed simp


section \<open>The text of a plan\<close>

text \<open>
  The part of \<^verbatim>\<open>terraform show -json\<close> that is read: resources with an address, a type, values,
  and members of their own that are not read.
\<close>

definition resource_raw :: "planResource \<times> (string \<times> raw) list \<Rightarrow> raw" where
  "resource_raw p =
     JObj (snd p @
       [(''address'', JStr (pr_address (fst p))), (''type'', JStr (pr_type (fst p))),
        (''values'', (case pr_values (fst p) of
                        None \<Rightarrow> JNull
                      | Some m \<Rightarrow> JObj (map (\<lambda>(k, v). (k, map_json format_float v)) m)))])"

definition plan_text :: "(planResource \<times> (string \<times> raw) list) list \<Rightarrow> string" where
  "plan_text ps =
     emit (JObj [(''planned_values'', JObj [(''root_module'', JObj
       [(''resources'', JArr (map resource_raw ps))])])])"

definition good_resource :: "planResource \<times> (string \<times> raw) list \<Rightarrow> bool" where
  "good_resource p \<longleftrightarrow>
     utf8 (pr_address (fst p)) \<and> utf8 (pr_type (fst p)) \<and>
     names_none resource_fields (snd p) \<and> well_written (max_depth - 5) (snd p) \<and>
     (case pr_values (fst p) of
        None \<Rightarrow> True
      | Some m \<Rightarrow> sound_map is_float (JObj m) \<and> fits (max_depth - 5) (JObj m))"

lemma plan_names:
  "fold_name ''address'' = ''address''" "fold_name ''type'' = ''type''" "fold_name ''values'' = ''values''"
  "fold_name ''planned_values'' = ''planned_values''" "fold_name ''root_module'' = ''root_module''"
  "fold_name ''resources'' = ''resources''"
  by code_simp+

lemma plan_ascii:
  "utf8 ''address''" "utf8 ''type''" "utf8 ''values''" "utf8 ''planned_values''" "utf8 ''root_module''"
  "utf8 ''resources''"
  by (auto intro!: utf8_ascii simp: byte_def)

lemma resource_read:
  assumes "good_resource p"
  shows "into_struct resource_fields (resource_raw p) zero_resource = Some (fst p)"
proof -
  obtain r xs where p: "p = (r, xs)" by fastforce
  have v: "into_map (decode parse_float) (case pr_values r of None \<Rightarrow> JNull
      | Some m \<Rightarrow> JObj (map (\<lambda>(k, v). (k, map_json format_float v)) m)) None = Some (pr_values r)"
  proof (cases "pr_values r")
    case (Some m)
    then have "keys_distinct m" "\<forall>v \<in> snd ` set m. decode parse_float (map_json format_float v) = Some v"
      using assms json64.decode_map by (auto simp: good_resource_def p)
    then show ?thesis
      using store_entries_new [of m "decode parse_float" "map_json format_float" "[]"] Some
      by (simp add: into_map_def)
  qed (simp add: into_map_def)
  have "names_none resource_fields xs" using assms by (simp add: good_resource_def p)
  then show ?thesis
    by (simp add: p resource_raw_def into_struct_def store_members_none)
       (simp add: store_member_def resource_fields_def plan_names into_string_def v zero_resource_def)
qed

lemma resource_written:
  assumes "good_resource p"
  shows "sound_raw (resource_raw p)" and "fits (max_depth - 4) (resource_raw p)"
  using assms json64.map_sound json64.map_fits plan_ascii
  by (fastforce simp: good_resource_def resource_raw_def well_written_def max_depth_def
      split: option.splits)+

lemma plan_read:
  assumes "\<And>p. p \<in> set ps \<Longrightarrow> good_resource p"
  shows "unmarshal_plan (plan_text ps) = Inr (map fst ps, [])"
proof -
  let ?v = "JObj [(''planned_values'', JObj [(''root_module'', JObj [(''resources'', JArr (map resource_raw ps))])])]"
  have "sound_raw ?v" using assms resource_written(1) plan_ascii by auto
  moreover have "fits max_depth ?v"
    using assms resource_written(2) by (auto simp: max_depth_def)
  moreover have "into_slice (into_struct resource_fields) zero_resource (JArr (map resource_raw ps)) ([], []) = Some (map fst ps, [])"
    using assms resource_read by (intro into_slice_new) auto
  ultimately show ?thesis
    unfolding unmarshal_plan_def plan_text_def
    by (simp add: unmarshal_into_emit del: emit.simps)
       (simp add: into_struct_def store_member_def plan_fields_def plan_names)
qed

section \<open>The attribute that is extracted\<close>

fun at_path :: "string list \<Rightarrow> any_json \<Rightarrow> any_json option" where
  "at_path [] v = Some v"
| "at_path (seg # segs) (JObj m) = (case map_of m seg of None \<Rightarrow> None | Some v \<Rightarrow> at_path segs v)"
| "at_path _ _ = None"

lemma walk_path_at:
  "walk_path addr path segs v = Inr u \<longleftrightarrow> at_path segs v = Some u"
  by (induction segs v rule: at_path.induct) (auto split: option.splits)

lemma at_path_good:
  "at_path segs v = Some u \<Longrightarrow> sound_map is_float v \<Longrightarrow> fits n v \<Longrightarrow> sound_map is_float u \<and> fits n u"
proof (induction segs v arbitrary: n rule: at_path.induct)
  case (2 seg segs m)
  then obtain v where v: "map_of m seg = Some v" "at_path segs v = Some u" by (auto split: option.splits)
  then have "(seg, v) \<in> set m" by (simp add: map_of_SomeD)
  with 2(3,4) have "sound_map is_float v" "fits (n - 1) v" by auto
  with 2(1) v have u: "sound_map is_float u" "fits (n - 1) u" by blast+
  then show ?case using fits_mono [of "n - 1" n u] by simp
qed auto

lemma attribute_text_read:
  assumes "sound_map is_float v" and "fits max_depth v"
  shows "unmarshal parse_float (marshalSorted v) = Inr (sort_json v)"
  unfolding marshalSorted_marshal by (rule json64.unmarshal_marshal [OF assms])

text \<open>
  C28.  An attribute of a plan: from the text of a plan, with whatever other members its
  resources have, the attribute at a dotted path of the first resource with the address is
  found exactly when the values of the resource hold it.  A string that looks like JSON is
  given back as the document it holds, in normal form, and anything else as text that
  decodes to the attribute.
\<close>

theorem attribute_of_plan:
  assumes good: "\<And>p. p \<in> set ps \<Longrightarrow> good_resource p" and "addr \<noteq> []" and "path \<noteq> []"
    and first: "find (\<lambda>r. pr_address r = addr) (map fst ps) = Some r" and m: "pr_values r = Some m"
  shows "case at_path (split_on CHR ''.'' path) (JObj m) of
      None \<Rightarrow> \<exists>err. ExtractResourceAttribute (plan_text ps) addr path = Inl err
    | Some v \<Rightarrow>
        if \<exists>s. v = JStr s \<and> looksLikeJSON s
        then ExtractResourceAttribute (plan_text ps) addr path = NormalizeJSON (case v of JStr s \<Rightarrow> s | _ \<Rightarrow> [])
        else \<exists>t. ExtractResourceAttribute (plan_text ps) addr path = Inr t \<and>
               unmarshal parse_float t = Inr (sort_json v)"
proof -
  have e: "ExtractResourceAttribute (plan_text ps) addr path =
      (case walk_path addr path (split_on CHR ''.'' path) (JObj m) of Inl err \<Rightarrow> Inl err | Inr cur \<Rightarrow> attribute_text cur)"
    using assms by (simp add: ExtractResourceAttribute_def plan_read)
  show ?thesis
  proof (cases "at_path (split_on CHR ''.'' path) (JObj m)")
    case None
    then have "\<nexists>u. walk_path addr path (split_on CHR ''.'' path) (JObj m) = Inr u"
      by (simp add: walk_path_at)
    with None show ?thesis
      by (cases "walk_path addr path (split_on CHR ''.'' path) (JObj m)") (simp_all add: e)
  next
    case (Some v)
    then have w: "walk_path addr path (split_on CHR ''.'' path) (JObj m) = Inr v"
      by (simp add: walk_path_at)
    obtain p where "p \<in> set ps" "fst p = r" using find_SomeD [OF first] by auto
    with good m have "sound_map is_float (JObj m)" "fits (max_depth - 5) (JObj m)"
      by (fastforce simp: good_resource_def)+
    then have "sound_map is_float v \<and> fits (max_depth - 5) v"
      by (rule at_path_good [OF Some])
    then have "sound_map is_float v" "fits max_depth v"
      using fits_mono [of "max_depth - 5" max_depth v] by simp_all
    then show ?thesis
      using attribute_text_read [of v] Some by (auto simp: e w attribute_text_def split: json.splits)
  qed
qed

section \<open>A plan with a role\<close>

definition demo_role :: planResource where
  "demo_role =
     \<lparr>pr_address = ''aws_iam_role.r'', pr_type = ''aws_iam_role'',
      pr_values = Some [(''assume_role_policy'', JStr ''[true, {}]''), (''tags'', JObj [(''Owner'', JStr ''x'')])]\<rparr>"

definition demo_plan :: string where
  "demo_plan = plan_text [(demo_role, [(''mode'', JStr ''managed'')])]"

lemma demo_ascii:
  "utf8 ''aws_iam_role.r''" "utf8 ''aws_iam_role''" "utf8 ''assume_role_policy''" "utf8 ''[true, {}]''"
  "utf8 ''tags''" "utf8 ''Owner''" "utf8 ''x''" "utf8 ''mode''" "utf8 ''managed''"
  by (auto intro!: utf8_ascii simp: byte_def)

lemma demo_good: "good_resource (demo_role, [(''mode'', JStr ''managed'')])"
proof -
  have "fold_name ''mode'' = ''mode''" by code_simp
  then show ?thesis
    by (auto simp: good_resource_def demo_role_def names_none_def well_written_def resource_fields_def
        plan_names demo_ascii keys_distinct_def max_depth_def)
qed

lemma demo_plan_read: "unmarshal_plan demo_plan = Inr ([demo_role], [])"
  using plan_read [of "[(demo_role, [(''mode'', JStr ''managed'')])]"] demo_good by (simp add: demo_plan_def)


theorem attribute_of_plan_witness:
  "(\<exists>t. ExtractResourceAttribute demo_plan ''aws_iam_role.r'' ''tags.Owner'' = Inr t \<and>
      unmarshal parse_float t = Inr (JStr ''x'')) \<and>
   ExtractResourceAttribute demo_plan ''aws_iam_role.r'' ''assume_role_policy'' = Inr ''[true,{}]''"
proof -
  have n: "NormalizeJSON ''[true, {}]'' = Inr ''[true,{}]''"
    by (simp add: NormalizeJSON_def sample_value)
  have p: "split_on CHR ''.'' ''tags.Owner'' = [''tags'', ''Owner'']"
      "split_on CHR ''.'' ''assume_role_policy'' = [''assume_role_policy'']"
      "looksLikeJSON ''[true, {}]''" "\<not> looksLikeJSON ''x''"
    by code_simp+
  have g: "\<And>p. p \<in> set [(demo_role, [(''mode'', JStr ''managed'')])] \<Longrightarrow> good_resource p"
    using demo_good by simp
  have r: "find (\<lambda>r. pr_address r = ''aws_iam_role.r'') (map fst [(demo_role, [(''mode'', JStr ''managed'')])]) = Some demo_role"
      "pr_values demo_role = Some [(''assume_role_policy'', JStr ''[true, {}]''), (''tags'', JObj [(''Owner'', JStr ''x'')])]"
    by (simp_all add: demo_role_def)
  show ?thesis
    using attribute_of_plan [OF g _ _ r, of "''tags.Owner''"] attribute_of_plan [OF g _ _ r, of "''assume_role_policy''"]
    by (simp add: p n demo_plan_def)
qed

end
