(* ===== verification/Docgen_Marker.thy ===== *)
theory Docgen_Marker
  imports Go_Strings
begin

text \<open>
  \<^verbatim>\<open>tools/docgen/scan.go\<close>, the grammar of markers: the regular expression \<^verbatim>\<open>markerRE\<close>, read with
  the leftmost-first semantics of Go's \<^verbatim>\<open>regexp\<close>, and \<^verbatim>\<open>parseMarker\<close>.
\<close>

section \<open>The operators of regexp\<close>

text \<open>
  Each operator takes what is left of the text and a continuation, and is the first success in
  the order of preference of the operator: \<open>greedy\<close> (\<^verbatim>\<open>x*\<close>) tries the longest repetition
  first, \<open>lazy\<close> (\<^verbatim>\<open>x*?\<close>) the shortest.  The continuation also gets the text repeated over.
\<close>

definition lit :: "string \<Rightarrow> (string \<Rightarrow> 'r option) \<Rightarrow> string \<Rightarrow> 'r option" where
  "lit p k s = (if has_prefix s p then k (drop (length p) s) else None)"

definition one :: "(char \<Rightarrow> bool) \<Rightarrow> (char \<Rightarrow> string \<Rightarrow> 'r option) \<Rightarrow> string \<Rightarrow> 'r option" where
  "one P k s = (case s of [] \<Rightarrow> None | c # cs \<Rightarrow> if P c then k c cs else None)"

fun greedy :: "(char \<Rightarrow> bool) \<Rightarrow> string \<Rightarrow> (string \<Rightarrow> string \<Rightarrow> 'r option) \<Rightarrow> string \<Rightarrow> 'r option" where
  "greedy P taken k [] = k taken []"
| "greedy P taken k (c # cs) =
     (if P c then (case greedy P (taken @ [c]) k cs of Some r \<Rightarrow> Some r | None \<Rightarrow> k taken (c # cs))
      else k taken (c # cs))"

fun lazy :: "(char \<Rightarrow> bool) \<Rightarrow> string \<Rightarrow> (string \<Rightarrow> string \<Rightarrow> 'r option) \<Rightarrow> string \<Rightarrow> 'r option" where
  "lazy P taken k [] = k taken []"
| "lazy P taken k (c # cs) =
     (case k taken (c # cs) of
        Some r \<Rightarrow> Some r
      | None \<Rightarrow> if P c then lazy P (taken @ [c]) k cs else None)"

section \<open>The marker\<close>

definition white :: "char \<Rightarrow> bool" where
  "white c \<longleftrightarrow> c \<in> {CHR 0x09, CHR 0x0A, CHR 0x0C, CHR 0x0D, CHR 0x20}"

definition lower :: "char \<Rightarrow> bool" where
  "lower c \<longleftrightarrow> CHR ''a'' \<le> c \<and> c \<le> CHR ''z''"

definition tag_char :: "char \<Rightarrow> bool" where
  "tag_char c \<longleftrightarrow> lower c \<or> CHR ''0'' \<le> c \<and> c \<le> CHR ''9'' \<or> c \<in> {CHR ''_'', CHR '','', CHR ''-''}"

definition not_newline :: "char \<Rightarrow> bool" where
  "not_newline c \<longleftrightarrow> c \<noteq> CHR 0x0A"

text \<open>\<^verbatim>\<open>^//\s*libtftest:requires\s+([a-z][a-z0-9_,-]*)\s+(.+?)\s*$\<close>, cut before each \<^verbatim>\<open>\s+\<close>.\<close>

definition reason_part :: "string \<Rightarrow> string \<Rightarrow> (string \<times> string) option" where
  "reason_part tags =
     one white (\<lambda>_. greedy white [] (\<lambda>_.
     one not_newline (\<lambda>c. lazy not_newline [c] (\<lambda>reason.
     greedy white [] (\<lambda>_ rest. if rest = [] then Some (tags, reason) else None)))))"

definition tags_part :: "string \<Rightarrow> (string \<times> string) option" where
  "tags_part = one white (\<lambda>_. greedy white [] (\<lambda>_. one lower (\<lambda>c. greedy tag_char [c] reason_part)))"

definition markerRE :: "string \<Rightarrow> (string \<times> string) option" where
  "markerRE = lit ''//'' (greedy white [] (\<lambda>_. lit ''libtftest:requires'' tags_part))"

definition parseMarker :: "string \<Rightarrow> (string list \<times> string) option" where
  "parseMarker line =
     (case markerRE line of
        None \<Rightarrow> None
      | Some (tags, reason) \<Rightarrow> Some (map trim_space (split_on CHR '','' tags), trim_space reason))"

section \<open>How the operators match\<close>

lemma greedy_None: "greedy P t k s = None \<Longrightarrow> s = u @ v \<Longrightarrow> list_all P u \<Longrightarrow> k (t @ u) v = None"
proof (induction s arbitrary: t u)
  case (Cons c s)
  show ?case
  proof (cases u)
    case u: (Cons d u')
    then show ?thesis
      using Cons.prems Cons.IH [of "t @ [c]" u'] by (auto split: if_splits option.splits)
  qed (use Cons.prems in \<open>auto split: if_splits option.splits\<close>)
qed simp

lemma greedy_Some: "greedy P t k s = Some r \<Longrightarrow> \<exists>u v. s = u @ v \<and> list_all P u \<and> k (t @ u) v = Some r"
proof (induction s arbitrary: t)
  case (Cons c s)
  show ?case
  proof (cases "P c \<and> greedy P (t @ [c]) k s \<noteq> None")
    case True
    then have "greedy P (t @ [c]) k s = Some r" using Cons.prems by (auto split: option.splits)
    from Cons.IH [OF this] obtain u v where "s = u @ v" "list_all P u" "k (t @ [c] @ u) v = Some r" by auto
    with True show ?thesis by (intro exI [of _ "c # u"] exI [of _ v]) simp
  next
    case False
    then have "k t (c # s) = Some r" using Cons.prems by (auto split: if_splits)
    then show ?thesis by (intro exI [of _ "[]"] exI [of _ "c # s"]) simp
  qed
qed simp

lemma greedy_max:
  "list_all P u \<Longrightarrow> (v = [] \<or> \<not> P (hd v)) \<Longrightarrow> k (t @ u) v = Some r \<Longrightarrow> greedy P t k (u @ v) = Some r"
proof (induction u arbitrary: t)
  case Nil
  then show ?case by (cases v) auto
qed simp

lemma lazy_None: "lazy P t k s = None \<Longrightarrow> s = u @ v \<Longrightarrow> list_all P u \<Longrightarrow> k (t @ u) v = None"
proof (induction s arbitrary: t u)
  case (Cons c s)
  show ?case
  proof (cases u)
    case u: (Cons d u')
    then show ?thesis
      using Cons.prems Cons.IH [of "t @ [c]" u'] by (auto split: if_splits option.splits)
  qed (use Cons.prems in \<open>auto split: if_splits option.splits\<close>)
qed simp

lemma lazy_Some: "lazy P t k s = Some r \<Longrightarrow> \<exists>u v. s = u @ v \<and> list_all P u \<and> k (t @ u) v = Some r"
proof (induction s arbitrary: t)
  case (Cons c s)
  show ?case
  proof (cases "k t (c # s)")
    case None
    with Cons.prems have "P c" "lazy P (t @ [c]) k s = Some r" by (auto split: if_splits)
    from Cons.IH [OF this(2)] obtain u v where "s = u @ v" "list_all P u" "k (t @ [c] @ u) v = Some r" by auto
    with \<open>P c\<close> show ?thesis by (intro exI [of _ "c # u"] exI [of _ v]) simp
  next
    case (Some x)
    with Cons.prems show ?thesis by (intro exI [of _ "[]"] exI [of _ "c # s"]) simp
  qed
qed simp

lemma lazy_until:
  "list_all P u \<Longrightarrow> (\<And>u1 u2. u = u1 @ u2 \<Longrightarrow> u2 \<noteq> [] \<Longrightarrow> k (t @ u1) (u2 @ v) = None) \<Longrightarrow>
   k (t @ u) v = Some r \<Longrightarrow> lazy P t k (u @ v) = Some r"
proof (induction u arbitrary: t)
  case Nil
  then show ?case by (cases v) auto
next
  case (Cons c u)
  have "k t (c # u @ v) = None" using Cons.prems(2) [of "[]" "c # u"] by simp
  moreover have "lazy P (t @ [c]) k (u @ v) = Some r"
    using Cons.prems Cons.prems(2) [of "c # _"] by (intro Cons.IH) auto
  ultimately show ?case using Cons.prems(1) by simp
qed

lemma greedy_to_end: "greedy white t (\<lambda>_ rest. if rest = [] then Some r else None) s = (if list_all white s then Some r else None)"
  by (induction s arbitrary: t) auto

section \<open>The language of markers\<close>

definition marker_text :: "string \<Rightarrow> string \<Rightarrow> string \<Rightarrow> string \<Rightarrow> string \<Rightarrow> string \<Rightarrow> string \<Rightarrow> bool" where
  "marker_text s w0 w1 tags w2 reason w3 \<longleftrightarrow>
     s = ''//'' @ w0 @ ''libtftest:requires'' @ w1 @ tags @ w2 @ reason @ w3 \<and>
     list_all white (w0 @ w1 @ w2 @ w3) \<and> w1 \<noteq> [] \<and> w2 \<noteq> [] \<and>
     tags \<noteq> [] \<and> lower (hd tags) \<and> list_all tag_char (tl tags) \<and>
     reason \<noteq> [] \<and> list_all not_newline reason"

lemma lit_iff: "lit p k s = Some r \<longleftrightarrow> (\<exists>v. s = p @ v \<and> k v = Some r)"
  by (auto simp: lit_def has_prefix_iff)

lemma one_iff: "one P k s = Some r \<longleftrightarrow> (\<exists>c v. s = c # v \<and> P c \<and> k c v = Some r)"
  by (auto simp: one_def split: list.splits)

lemma reason_part_sound:
  assumes "reason_part tags s = Some (tags', reason)"
  shows "tags' = tags \<and> (\<exists>w2 w3. s = w2 @ reason @ w3 \<and> w2 \<noteq> [] \<and> list_all white (w2 @ w3) \<and>
     reason \<noteq> [] \<and> list_all not_newline reason)"
proof -
  let ?stop = "\<lambda>reason. greedy white [] (\<lambda>_ rest. if rest = [] then Some (tags, reason) else None)"
  obtain d s1 where d: "s = d # s1" "white d"
      "greedy white [] (\<lambda>_. one not_newline (\<lambda>c. lazy not_newline [c] ?stop)) s1 = Some (tags', reason)"
    using assms by (auto simp: reason_part_def one_iff)
  obtain u c v where u: "s1 = u @ c # v" "list_all white u" "not_newline c"
      "lazy not_newline [c] ?stop v = Some (tags', reason)"
    using greedy_Some [OF d(3)] by (auto simp: one_iff)
  obtain x y where "v = x @ y" "list_all not_newline x" "?stop ([c] @ x) y = Some (tags', reason)"
    using lazy_Some [OF u(4)] by blast
  with d(1,2) u(1-3) show ?thesis
    by (intro conjI exI [of _ "d # u"] exI [of _ y]) (auto simp: greedy_to_end split: if_splits)
qed

lemma reason_part_complete:
  assumes "list_all white (w2 @ w3)" "w2 \<noteq> []" "reason \<noteq> []" "list_all not_newline reason"
  shows "reason_part tags (w2 @ reason @ w3) \<noteq> None"
proof -
  let ?stop = "\<lambda>reason. greedy white [] (\<lambda>_ rest. if rest = [] then Some (tags, reason) else None)"
  obtain d u where w2: "w2 = d # u" using assms(2) by (cases w2) auto
  obtain c x where r: "reason = c # x" using assms(3) by (cases reason) auto
  have "?stop ([c] @ x) w3 \<noteq> None" using assms(1) by (simp add: greedy_to_end)
  then have "lazy not_newline [c] ?stop (x @ w3) \<noteq> None"
    using lazy_None [where u = x and v = w3 and P = not_newline and t = "[c]" and k = ?stop] assms(4) r by force
  then have "one not_newline (\<lambda>c. lazy not_newline [c] ?stop) (reason @ w3) \<noteq> None"
    using r assms(4) by (simp add: one_def)
  then have "greedy white [] (\<lambda>_. one not_newline (\<lambda>c. lazy not_newline [c] ?stop)) (u @ reason @ w3) \<noteq> None"
    using greedy_None [where u = u and v = "reason @ w3" and P = white and t = "[]"
        and k = "\<lambda>_. one not_newline (\<lambda>c. lazy not_newline [c] ?stop)"] assms(1) w2 by force
  then show ?thesis
    using w2 assms(1) by (simp add: reason_part_def one_def)
qed

lemma white_not_newline_last: "reason \<noteq> [] \<Longrightarrow> \<not> white (last reason) \<Longrightarrow> u2 \<noteq> [] \<Longrightarrow> reason = u1 @ u2 \<Longrightarrow> \<not> list_all white (u2 @ w)"
  by (auto simp: list_all_iff)

text \<open>A reason that neither starts nor ends with white space is found as it is.\<close>

lemma reason_part_exact:
  assumes "list_all white (w2 @ w3)" "w2 \<noteq> []" "reason \<noteq> []" "list_all not_newline reason"
    and "\<not> white (hd reason)" "\<not> white (last reason)"
  shows "reason_part tags (w2 @ reason @ w3) = Some (tags, reason)"
proof -
  let ?stop = "\<lambda>reason. greedy white [] (\<lambda>_ rest. if rest = [] then Some (tags, reason) else None)"
  obtain d u where w2: "w2 = d # u" using assms(2) by (cases w2) auto
  obtain c x where r: "reason = c # x" using assms(3) by (cases reason) auto
  have "lazy not_newline [c] ?stop (x @ w3) = Some (tags, reason)"
  proof (rule lazy_until)
    show "?stop ([c] @ u1) (u2 @ w3) = None" if "x = u1 @ u2" "u2 \<noteq> []" for u1 u2
      using white_not_newline_last [OF assms(3,6) that(2), of "c # u1"] that r by (simp add: greedy_to_end)
  qed (use assms(1,4) r in \<open>simp_all add: greedy_to_end\<close>)
  then have "one not_newline (\<lambda>c. lazy not_newline [c] ?stop) (reason @ w3) = Some (tags, reason)"
    using r assms(4) by (simp add: one_def)
  then have "greedy white [] (\<lambda>_. one not_newline (\<lambda>c. lazy not_newline [c] ?stop)) (u @ reason @ w3) = Some (tags, reason)"
    using assms(1,5) r w2 by (intro greedy_max) simp_all
  then show ?thesis
    using w2 assms(1) by (simp add: reason_part_def one_def)
qed

lemma tags_part_sound:
  assumes "tags_part s = Some (tags, reason)"
  shows "\<exists>w1 w2 w3. s = w1 @ tags @ w2 @ reason @ w3 \<and> w1 \<noteq> [] \<and> w2 \<noteq> [] \<and> list_all white (w1 @ w2 @ w3) \<and>
     tags \<noteq> [] \<and> lower (hd tags) \<and> list_all tag_char (tl tags) \<and> reason \<noteq> [] \<and> list_all not_newline reason"
proof -
  obtain d s1 where d: "s = d # s1" "white d"
      "greedy white [] (\<lambda>_. one lower (\<lambda>c. greedy tag_char [c] reason_part)) s1 = Some (tags, reason)"
    using assms by (auto simp: tags_part_def one_iff)
  obtain u c v where u: "s1 = u @ c # v" "list_all white u" "lower c"
      "greedy tag_char [c] reason_part v = Some (tags, reason)"
    using greedy_Some [OF d(3)] by (auto simp: one_iff)
  obtain x y where x: "v = x @ y" "list_all tag_char x" "reason_part ([c] @ x) y = Some (tags, reason)"
    using greedy_Some [OF u(4)] by blast
  from reason_part_sound [OF x(3)] obtain w2 w3 where "tags = c # x" "y = w2 @ reason @ w3" "w2 \<noteq> []"
      "list_all white (w2 @ w3)" "reason \<noteq> []" "list_all not_newline reason"
    by auto
  with d(1,2) u(1-3) x(1,2) show ?thesis
    by (intro exI [of _ "d # u"] exI [of _ w2] exI [of _ w3]) auto
qed

lemma tags_part_step:
  assumes "list_all white w1" "w1 \<noteq> []" "tags \<noteq> []" "lower (hd tags)" "list_all tag_char (tl tags)"
  shows "reason_part tags v \<noteq> None \<Longrightarrow> tags_part (w1 @ tags @ v) \<noteq> None"
    and "reason_part tags v = Some r \<Longrightarrow> v = [] \<or> \<not> tag_char (hd v) \<Longrightarrow> tags_part (w1 @ tags @ v) = Some r"
proof -
  let ?k = "one lower (\<lambda>c. greedy tag_char [c] reason_part)"
  obtain d u where w1: "w1 = d # u" using assms(2) by (cases w1) auto
  obtain c x where t: "tags = c # x" using assms(3) by (cases tags) auto
  have outer: "tags_part (w1 @ tags @ v) = greedy white [] (\<lambda>_. ?k) (u @ tags @ v)"
    using w1 assms(1) by (simp add: tags_part_def one_def)
  have inner: "?k (tags @ v) = greedy tag_char [c] reason_part (x @ v)"
    using t assms(4) by (simp add: one_def)
  {
    assume "reason_part tags v \<noteq> None"
    then have "greedy tag_char [c] reason_part (x @ v) \<noteq> None"
      using greedy_None [where u = x and v = v and P = tag_char and t = "[c]" and k = reason_part] assms(5) t by force
    then show "tags_part (w1 @ tags @ v) \<noteq> None"
      using greedy_None [where u = u and v = "tags @ v" and P = white and t = "[]" and k = "\<lambda>_. ?k"] assms(1) w1
      unfolding outer by (force simp: inner)
  }
  {
    assume "reason_part tags v = Some r" "v = [] \<or> \<not> tag_char (hd v)"
    then have "greedy tag_char [c] reason_part (x @ v) = Some r"
      using assms(5) t by (intro greedy_max) simp_all
    then have "?k (tags @ v) = Some r" by (simp add: inner)
    moreover have "\<not> white (hd tags)" using assms(4) by (auto simp: white_def lower_def)
    ultimately show "tags_part (w1 @ tags @ v) = Some r"
      unfolding outer using assms(1,3) w1 by (intro greedy_max) simp_all
  }
qed

lemma markerRE_step:
  assumes "list_all white w0"
  shows "tags_part v \<noteq> None \<Longrightarrow> markerRE (''//'' @ w0 @ ''libtftest:requires'' @ v) \<noteq> None"
    and "tags_part v = Some r \<Longrightarrow> markerRE (''//'' @ w0 @ ''libtftest:requires'' @ v) = Some r"
proof -
  let ?k = "lit ''libtftest:requires'' tags_part"
  have e: "markerRE (''//'' @ w0 @ ''libtftest:requires'' @ v) = greedy white [] (\<lambda>_. ?k) (w0 @ ''libtftest:requires'' @ v)"
    by (simp add: markerRE_def lit_def)
  have k: "?k (''libtftest:requires'' @ v) = tags_part v"
    by (simp add: lit_def)
  {
    assume "tags_part v \<noteq> None"
    then show "markerRE (''//'' @ w0 @ ''libtftest:requires'' @ v) \<noteq> None"
      unfolding e
      using greedy_None [where u = w0 and v = "''libtftest:requires'' @ v" and P = white and t = "[]" and k = "\<lambda>_. ?k"]
        assms k by metis
  }
  {
    assume "tags_part v = Some r"
    then show "markerRE (''//'' @ w0 @ ''libtftest:requires'' @ v) = Some r"
      unfolding e using assms k by (intro greedy_max) (simp_all add: white_def)
  }
qed

lemma marker_sound:
  assumes "markerRE s = Some (tags, reason)"
  shows "\<exists>w0 w1 w2 w3. marker_text s w0 w1 tags w2 reason w3"
proof -
  obtain s1 where s1: "s = ''//'' @ s1" "greedy white [] (\<lambda>_. lit ''libtftest:requires'' tags_part) s1 = Some (tags, reason)"
    using assms unfolding markerRE_def lit_iff by blast
  obtain w0 v where v: "s1 = w0 @ ''libtftest:requires'' @ v" "list_all white w0" "tags_part v = Some (tags, reason)"
    using greedy_Some [OF s1(2)] unfolding lit_iff by blast
  from tags_part_sound [OF v(3)] v(1,2) s1(1) show ?thesis
    unfolding marker_text_def by (elim exE, intro exI) auto
qed

lemma marker_complete: "marker_text s w0 w1 tags w2 reason w3 \<Longrightarrow> markerRE s \<noteq> None"
  unfolding marker_text_def
  using markerRE_step(1) [of w0 "w1 @ tags @ w2 @ reason @ w3"] tags_part_step(1) [of w1 tags "w2 @ reason @ w3"]
    reason_part_complete [of w2 w3 reason tags]
  by simp

lemma marker_exact:
  assumes "marker_text s w0 w1 tags w2 reason w3" "\<not> white (hd reason)" "\<not> white (last reason)"
  shows "markerRE s = Some (tags, reason)"
proof -
  have m: "list_all white w0" "list_all white w1" "list_all white (w2 @ w3)" "w1 \<noteq> []" "w2 \<noteq> []" "tags \<noteq> []"
      "lower (hd tags)" "list_all tag_char (tl tags)" "reason \<noteq> []" "list_all not_newline reason"
      "s = ''//'' @ w0 @ ''libtftest:requires'' @ w1 @ tags @ w2 @ reason @ w3"
    using assms(1) by (simp_all add: marker_text_def)
  have "white (hd w2)" using m(3,5) by (cases w2) auto
  then have "\<not> tag_char (hd (w2 @ reason @ w3))"
    using m(5) by (auto simp: tag_char_def lower_def white_def)
  then have "tags_part (w1 @ tags @ w2 @ reason @ w3) = Some (tags, reason)"
    using reason_part_exact [OF m(3,5,9,10) assms(2,3)] m by (intro tags_part_step(2)) simp_all
  with m(1,11) show ?thesis by (simp only: markerRE_step(2))
qed

section \<open>Properties\<close>

text \<open>
  C23.  The grammar of markers.  A comment line is taken for a marker exactly when it is \<^verbatim>\<open>//\<close>,
  optional white space, \<^verbatim>\<open>libtftest:requires\<close>, white space, a tag list that starts with a lower-case
  letter, white space, a reason on one line, and optional white space.  When the reason starts
  and ends with something else than white space, what is read is the tags between the commas
  and that reason.
\<close>

theorem marker_grammar:
  "(parseMarker s = None) = (\<not> (\<exists>w0 w1 tags w2 reason w3. marker_text s w0 w1 tags w2 reason w3)) \<and>
   (\<forall>w0 w1 tags w2 reason w3.
      marker_text s w0 w1 tags w2 reason w3 \<and> \<not> white (hd reason) \<and> \<not> white (last reason) \<longrightarrow>
      parseMarker s = Some (map trim_space (split_on CHR '','' tags), trim_space reason))"
proof
  show "(parseMarker s = None) = (\<not> (\<exists>w0 w1 tags w2 reason w3. marker_text s w0 w1 tags w2 reason w3))"
    using marker_sound [of s] marker_complete [of s]
    by (cases "markerRE s") (auto simp: parseMarker_def split: option.splits)
qed (use marker_exact [of s] in \<open>auto simp: parseMarker_def\<close>)

theorem marker_grammar_witness:
  "parseMarker ''// libtftest:requires pro,mockta  IAM GetRole | only '' = Some ([''pro'', ''mockta''], ''IAM GetRole | only'')"
proof -
  have "marker_text ''// libtftest:requires pro,mockta  IAM GetRole | only '' '' '' '' '' ''pro,mockta'' ''  ''
      ''IAM GetRole | only'' '' ''"
    by (simp add: marker_text_def white_def lower_def tag_char_def not_newline_def less_eq_char_def)
  moreover have "map trim_space (split_on CHR '','' ''pro,mockta'') = [''pro'', ''mockta'']"
      "trim_space ''IAM GetRole | only'' = ''IAM GetRole | only''"
    by code_simp+
  ultimately show ?thesis
    using marker_grammar [THEN conjunct2, rule_format, of "''// libtftest:requires pro,mockta  IAM GetRole | only ''"
        "'' ''" "'' ''" "''pro,mockta''" "''  ''" "''IAM GetRole | only''" "'' ''"]
    by (simp add: white_def)
qed

text \<open>The reason may be missing all the same, behind two blanks, and so may a tag between commas.\<close>

lemma marker_without_reason:
  "parseMarker ''// libtftest:requires pro  '' = Some ([''pro''], [])"
  "parseMarker ''// libtftest:requires pro '' = None"
  "parseMarker ''// libtftest:requires pro,,x y'' = Some ([''pro'', [], ''x''], ''y'')"
  by code_simp+

end
