(* ===== verification/Docgen_Scan.thy ===== *)
theory Docgen_Scan
  imports Docgen_Marker File_System
begin

text \<open>
  \<^verbatim>\<open>tools/docgen/scan.go\<close> and \<^verbatim>\<open>check.go\<close>: harvest the markers of a source tree, and find the
  callers of \<^verbatim>\<open>RequirePro\<close> without one.  The parser of the standard library (\<^verbatim>\<open>go/parser\<close>) is the
  argument \<open>parse\<close>, from the text of a file to its declarations or a syntax error.
\<close>

section \<open>Syntax trees\<close>

text \<open>
  The nodes of \<^verbatim>\<open>go/ast\<close> as far as the code tells them apart: identifiers, selector expressions
  \<^verbatim>\<open>x.sel\<close>, calls, and everything else with its children in source order.
\<close>

datatype ast = Ident string | Selector ast string | Call ast "ast list" | Node "ast list"

datatype type_expr = TIdent string | TStar type_expr | TOther

record comment =
  cm_text :: string
  cm_line :: nat

record func_decl =
  fd_name :: string
  fd_recv :: "type_expr list option"
  fd_doc :: "comment list option"
  fd_body :: "ast option"
  fd_line :: nat

datatype decl = FuncDecl func_decl | OtherDecl

record go_file =
  gf_package :: string
  gf_decls :: "decl list"

type_synonym go_parser = "string \<Rightarrow> go_error + go_file"

section \<open>Markers of a file\<close>

record Marker =
  mk_function :: string
  mk_receiver :: string
  mk_package :: string
  mk_tags :: "string list"
  mk_reason :: string
  mk_file :: string
  mk_line :: int

definition receiverType :: "func_decl \<Rightarrow> string" where
  "receiverType fn =
     (case fd_recv fn of
        Some (t # _) \<Rightarrow>
          (case t of
             TIdent name \<Rightarrow> name
           | TStar x \<Rightarrow> (case x of TIdent name \<Rightarrow> name | _ \<Rightarrow> [])
           | TOther \<Rightarrow> [])
      | _ \<Rightarrow> [])"

fun comment_markers :: "string \<Rightarrow> string \<Rightarrow> func_decl \<Rightarrow> comment list \<Rightarrow> Marker list" where
  "comment_markers path pkg fn [] = []"
| "comment_markers path pkg fn (c # cs) =
     (case parseMarker (cm_text c) of
        None \<Rightarrow> comment_markers path pkg fn cs
      | Some (tags, reason) \<Rightarrow>
          \<lparr>mk_function = fd_name fn, mk_receiver = receiverType fn, mk_package = pkg, mk_tags = tags,
           mk_reason = reason, mk_file = path, mk_line = int (cm_line c)\<rparr> # comment_markers path pkg fn cs)"

fun decl_markers :: "string \<Rightarrow> string \<Rightarrow> decl list \<Rightarrow> Marker list" where
  "decl_markers path pkg [] = []"
| "decl_markers path pkg (FuncDecl fn # ds) =
     (case fd_doc fn of
        None \<Rightarrow> decl_markers path pkg ds
      | Some doc \<Rightarrow> comment_markers path pkg fn doc @ decl_markers path pkg ds)"
| "decl_markers path pkg (OtherDecl # ds) = decl_markers path pkg ds"

definition parse_file :: "go_parser \<Rightarrow> fsys \<Rightarrow> string \<Rightarrow> go_error + go_file" where
  "parse_file parse s path = (case os_read_file s path of Inl e \<Rightarrow> Inl e | Inr src \<Rightarrow> parse src)"

definition scanFile :: "go_parser \<Rightarrow> fsys \<Rightarrow> string \<Rightarrow> go_error + Marker list" where
  "scanFile parse s path =
     (case parse_file parse s path of
        Inl e \<Rightarrow> Inl e
      | Inr file \<Rightarrow> Inr (decl_markers path (gf_package file) (gf_decls file)))"

section \<open>Callers of RequirePro\<close>

record Violation =
  vi_function :: string
  vi_receiver :: string
  vi_package :: string
  vi_file :: string
  vi_line :: nat

fun is_require_pro :: "ast \<Rightarrow> bool" where
  "is_require_pro (Selector (Ident pkg) sel) = (pkg = ''libtftest'' \<and> sel = ''RequirePro'')"
| "is_require_pro (Ident name) = (name = ''RequirePro'')"
| "is_require_pro _ = False"

text \<open>\<^verbatim>\<open>ast.Inspect\<close> with the callback of \<^verbatim>\<open>callsRequirePro\<close>: the variable \<open>found\<close> is threaded through.\<close>

fun inspect :: "ast \<Rightarrow> bool \<Rightarrow> bool" and inspect_all :: "ast list \<Rightarrow> bool \<Rightarrow> bool" where
  "inspect (Ident name) found = found"
| "inspect (Selector x sel) found = (if found then True else inspect x found)"
| "inspect (Call f args) found =
     (if found then True
      else if is_require_pro f then True
      else inspect_all args (inspect f found))"
| "inspect (Node cs) found = (if found then True else inspect_all cs found)"
| "inspect_all [] found = found"
| "inspect_all (n # ns) found = inspect_all ns (inspect n found)"

definition callsRequirePro :: "func_decl \<Rightarrow> bool" where
  "callsRequirePro fn = (case fd_body fn of None \<Rightarrow> False | Some body \<Rightarrow> inspect body False)"

definition hasMarker :: "func_decl \<Rightarrow> bool" where
  "hasMarker fn =
     (case fd_doc fn of
        None \<Rightarrow> False
      | Some doc \<Rightarrow> list_ex (\<lambda>c. parseMarker (cm_text c) \<noteq> None) doc)"

fun decl_violations :: "string \<Rightarrow> string \<Rightarrow> decl list \<Rightarrow> Violation list" where
  "decl_violations path pkg [] = []"
| "decl_violations path pkg (FuncDecl fn # ds) =
     (if \<not> callsRequirePro fn then decl_violations path pkg ds
      else if hasMarker fn then decl_violations path pkg ds
      else \<lparr>vi_function = fd_name fn, vi_receiver = receiverType fn, vi_package = pkg, vi_file = path,
            vi_line = fd_line fn\<rparr> # decl_violations path pkg ds)"
| "decl_violations path pkg (OtherDecl # ds) = decl_violations path pkg ds"

definition checkFile :: "go_parser \<Rightarrow> fsys \<Rightarrow> string \<Rightarrow> go_error + Violation list" where
  "checkFile parse s path =
     (case parse_file parse s path of
        Inl e \<Rightarrow> Inl e
      | Inr file \<Rightarrow> Inr (decl_violations path (gf_package file) (gf_decls file)))"

section \<open>Walking the tree\<close>

definition shouldSkipDir :: "string \<Rightarrow> bool" where
  "shouldSkipDir path \<longleftrightarrow>
     path_base path \<in> {''.git'', ''node_modules'', ''vendor'', ''build'', ''.claude'', ''.docz''}"

text \<open>
  The callback of both walks: \<open>want\<close> says which files are of interest, \<open>items\<close> reads one.  The
  state is the file system, which the walk only reads, and what has been found.
\<close>

definition visit_source ::
  "(string \<Rightarrow> bool) \<Rightarrow> (fsys \<Rightarrow> string \<Rightarrow> go_error + 'a list) \<Rightarrow> (fsys \<times> 'a list) walk_fn"
where
  "visit_source want items st path d err =
     (case (st, err) of
        (_, Some e) \<Rightarrow> Some (WErr e, st)
      | ((s, found), None) \<Rightarrow>
          if d = Some NDir then Some (if shouldSkipDir path then WSkipDir else WOk, st)
          else if \<not> want path then Some (WOk, st)
          else (case items s path of
                  Inl e \<Rightarrow> Some (WErr (ErrWrap path e), st)
                | Inr xs \<Rightarrow> Some (WOk, s, found @ xs)))"

definition is_source :: "string \<Rightarrow> bool" where
  "is_source path \<longleftrightarrow> has_suffix path ''.go''"

definition is_checked :: "string \<Rightarrow> bool" where
  "is_checked path \<longleftrightarrow> \<not> (\<not> has_suffix path ''.go'' \<or> has_suffix path ''_test.go'')"

definition marker_key :: "Marker \<Rightarrow> string \<times> string \<times> int" where
  "marker_key m = (mk_package m, mk_file m, mk_line m)"

definition violation_key :: "Violation \<Rightarrow> string \<times> nat" where
  "violation_key v = (vi_file v, vi_line v)"

definition scan :: "go_parser \<Rightarrow> nat \<Rightarrow> fsys \<Rightarrow> string \<Rightarrow> (go_error + Marker list) option" where
  "scan parse fuel s root =
     (case walk fst fuel (visit_source is_source (scanFile parse)) root (s, []) of
        None \<Rightarrow> None
      | Some (Some e, _) \<Rightarrow> Some (Inl e)
      | Some (None, _, markers) \<Rightarrow> Some (Inr (sort_key marker_key markers)))"

definition check :: "go_parser \<Rightarrow> nat \<Rightarrow> fsys \<Rightarrow> string \<Rightarrow> (go_error + Violation list) option" where
  "check parse fuel s root =
     (case walk fst fuel (visit_source is_checked (checkFile parse)) root (s, []) of
        None \<Rightarrow> None
      | Some (Some e, _) \<Rightarrow> Some (Inl e)
      | Some (None, _, violations) \<Rightarrow> Some (Inr (sort_key violation_key violations)))"

section \<open>What the walks find\<close>

subsection \<open>Calls\<close>

text \<open>Everything that is called anywhere in a piece of syntax.\<close>

fun callees :: "ast \<Rightarrow> ast list" where
  "callees (Ident name) = []"
| "callees (Selector x sel) = callees x"
| "callees (Call f args) = f # callees f @ concat (map callees args)"
| "callees (Node cs) = concat (map callees cs)"

lemma inspect_found:
  "inspect n found = (found \<or> list_ex is_require_pro (callees n))"
  "inspect_all ns found = (found \<or> list_ex (\<lambda>n. list_ex is_require_pro (callees n)) ns)"
proof (induction n found and ns found rule: inspect_inspect_all.induct)
  case (3 f args found)
  then show ?case by (auto simp: list_ex_iff)
next
  case (4 cs found)
  then show ?case by (auto simp: list_ex_iff)
qed auto

definition calls_pro :: "func_decl \<Rightarrow> bool" where
  "calls_pro fn \<longleftrightarrow> (\<exists>body. fd_body fn = Some body \<and> list_ex is_require_pro (callees body))"

lemma callsRequirePro_iff: "callsRequirePro fn \<longleftrightarrow> calls_pro fn"
  by (auto simp: callsRequirePro_def calls_pro_def inspect_found split: option.splits)

definition marked :: "func_decl \<Rightarrow> bool" where
  "marked fn \<longleftrightarrow> (\<exists>doc c. fd_doc fn = Some doc \<and> c \<in> set doc \<and> parseMarker (cm_text c) \<noteq> None)"

lemma hasMarker_iff: "hasMarker fn \<longleftrightarrow> marked fn"
  by (auto simp: hasMarker_def marked_def list_ex_iff split: option.splits)

definition violation_of :: "string \<Rightarrow> string \<Rightarrow> func_decl \<Rightarrow> Violation" where
  "violation_of path pkg fn =
     \<lparr>vi_function = fd_name fn, vi_receiver = receiverType fn, vi_package = pkg, vi_file = path,
      vi_line = fd_line fn\<rparr>"

lemma set_decl_violations:
  "set (decl_violations path pkg ds) =
     {violation_of path pkg fn |fn. FuncDecl fn \<in> set ds \<and> calls_pro fn \<and> \<not> marked fn}"
  by (induction path pkg ds rule: decl_violations.induct)
     (auto simp: callsRequirePro_iff hasMarker_iff violation_of_def)

definition marker_of :: "string \<Rightarrow> string \<Rightarrow> func_decl \<Rightarrow> comment \<Rightarrow> string list \<times> string \<Rightarrow> Marker" where
  "marker_of path pkg fn c tr =
     \<lparr>mk_function = fd_name fn, mk_receiver = receiverType fn, mk_package = pkg, mk_tags = fst tr,
      mk_reason = snd tr, mk_file = path, mk_line = int (cm_line c)\<rparr>"

lemma set_comment_markers:
  "set (comment_markers path pkg fn cs) = {marker_of path pkg fn c tr |c tr. c \<in> set cs \<and> parseMarker (cm_text c) = Some tr}"
proof (induction cs)
  case (Cons c cs)
  then show ?case by (cases "parseMarker (cm_text c)") (auto simp: marker_of_def)
qed simp

lemma set_decl_markers:
  "set (decl_markers path pkg ds) =
     {marker_of path pkg fn c tr |fn doc c tr.
        FuncDecl fn \<in> set ds \<and> fd_doc fn = Some doc \<and> c \<in> set doc \<and> parseMarker (cm_text c) = Some tr}"
proof (induction path pkg ds rule: decl_markers.induct)
  case (2 path pkg fn ds)
  then show ?case by (cases "fd_doc fn") (fastforce simp: set_comment_markers)+
qed auto

subsection \<open>Files\<close>

text \<open>The files of interest below \<open>q\<close>, in the order of the walk, and reading them one by one.\<close>

fun tree_files :: "nat \<Rightarrow> fsys \<Rightarrow> (string \<Rightarrow> bool) \<Rightarrow> string list \<Rightarrow> string list list" where
  "tree_files 0 s want q = []"
| "tree_files (Suc fuel) s want q =
     (case node_at s q of
        None \<Rightarrow> []
      | Some d \<Rightarrow>
          if d = NDir
          then (if shouldSkipDir (abs_text q) then []
                else concat (map (\<lambda>c. tree_files fuel s want (q @ [c])) (child_names s q)))
          else if want (abs_text q) then [q] else [])"

fun gather :: "(string \<Rightarrow> go_error + 'a list) \<Rightarrow> string list list \<Rightarrow> 'a list \<Rightarrow> go_error + 'a list" where
  "gather read [] found = Inr found"
| "gather read (p # ps) found =
     (case read (abs_text p) of
        Inl e \<Rightarrow> Inl (ErrWrap (abs_text p) e)
      | Inr xs \<Rightarrow> gather read ps (found @ xs))"

lemma gather_append:
  "gather read (ps @ qs) found = (case gather read ps found of Inl e \<Rightarrow> Inl e | Inr xs \<Rightarrow> gather read qs xs)"
  by (induction read ps found rule: gather.induct) (simp_all split: sum.splits)

lemma gather_all:
  "(\<And>p. p \<in> set ps \<Longrightarrow> read (abs_text p) = Inr (f p)) \<Longrightarrow> gather read ps found = Inr (found @ concat (map f ps))"
  by (induction ps arbitrary: found) simp_all

lemma gather_error: "p \<in> set ps \<Longrightarrow> read (abs_text p) = Inl e \<Longrightarrow> \<exists>e'. gather read ps found = Inl e'"
  by (induction ps arbitrary: found) (auto split: sum.splits)

text \<open>A well-formed, undisturbed tree at \<open>q\<close>, less deep than \<open>fuel\<close>.\<close>

definition readable :: "fsys \<Rightarrow> string list \<Rightarrow> nat \<Rightarrow> bool" where
  "readable s q fuel \<longleftrightarrow> fs_wf s \<and> fault s = (\<lambda>_ _. None) \<and> node_at s q \<noteq> None \<and>
     (\<forall>y. node_at s (q @ y) \<noteq> None \<longrightarrow> length y < fuel)"

definition walked ::
  "fsys \<Rightarrow> (go_error + 'a list) \<Rightarrow> (walk_ret \<times> fsys \<times> 'a list) option \<Rightarrow> bool"
where
  "walked s r res \<longleftrightarrow>
     (case r of Inr xs \<Rightarrow> res = Some (WOk, s, xs) | Inl e \<Rightarrow> \<exists>xs. res = Some (WErr e, s, xs))"

lemma visit_dir:
  "visit_source want items (s, found) path (Some NDir) None =
     Some (if shouldSkipDir path then WSkipDir else WOk, s, found)"
  by (simp add: visit_source_def)

lemma walk_collects:
  "readable s q fuel \<Longrightarrow> node_at s q = Some d \<Longrightarrow>
   walked s (gather (items s) (tree_files fuel s want q) found)
     (walk_dir fst fuel (visit_source want items) (abs_text q) d (s, found))"
proof (induction fuel arbitrary: q d found)
  case 0
  then show ?case by (auto simp: readable_def dest: spec [of _ "[]"])
next
  case (Suc fuel)
  have wf: "fs_wf s" "fault s = (\<lambda>_ _. None)" and depth: "node_at s (q @ y) \<noteq> None \<Longrightarrow> length y < Suc fuel" for y
    using Suc.prems(1) by (auto simp: readable_def)
  show ?case
  proof (cases "d = NDir")
    case False
    then show ?thesis
      using Suc.prems(2) by (auto simp: visit_source_def walked_def split: sum.splits)
  next
    case True
    have entries: "walked s (gather (items s) (concat (map (\<lambda>c. tree_files fuel s want (q @ [c])) cs)) found)
        (walk_entries fst fuel (visit_source want items) (abs_text q)
          (List.map_filter (\<lambda>c. map_option (Pair c) (node_at s (q @ [c]))) cs) (s, found))" for cs found
    proof (induction cs arbitrary: found)
      case Nil
      then show ?case by (simp add: walked_def map_filter_simps)
    next
      case (Cons c cs)
      show ?case
      proof (cases "node_at s (q @ [c])")
        case None
        then have "tree_files fuel s want (q @ [c]) = []" by (cases fuel) simp_all
        with None Cons show ?thesis by (simp add: map_filter_simps)
      next
        case (Some d')
        have "readable s (q @ [c]) fuel"
          using wf Some depth [of "c # _"] by (auto simp: readable_def)
        then have step: "walked s (gather (items s) (tree_files fuel s want (q @ [c])) found)
            (walk_dir fst fuel (visit_source want items) (abs_text (q @ [c])) d' (s, found))"
          using Suc.IH Some by blast
        have "list_all plain (q @ [c])" using fs_wf_node(1) [OF wf(1) Some] by simp
        then have "path_join [abs_text q, c] = abs_text (q @ [c])" by simp
        show ?thesis
        proof (cases "gather (items s) (tree_files fuel s want (q @ [c])) found")
          case (Inl e)
          with Some step \<open>path_join _ = _\<close> show ?thesis
            by (auto simp: map_filter_simps gather_append walked_def)
        next
          case (Inr xs)
          with Some step \<open>path_join _ = _\<close> Cons.IH [of xs] show ?thesis
            by (simp add: map_filter_simps gather_append walked_def)
        qed
      qed
    qed
    show ?thesis
      using entries [of "child_names s q" found] read_dir_entries [OF wf, of q] Suc.prems(2) True
      by (auto simp: visit_dir walked_def split: sum.splits)
  qed
qed

lemma tree_files_below: "p \<in> set (tree_files fuel s want q) \<Longrightarrow> \<exists>y. p = q @ y"
proof (induction fuel arbitrary: q)
  case (Suc fuel)
  then show ?case by (fastforce split: option.splits if_splits)
qed simp

lemma distinct_tree_files: "distinct (tree_files fuel s want q)"
proof (induction fuel arbitrary: q)
  case (Suc fuel)
  have "distinct (concat (map (\<lambda>c. tree_files fuel s want (q @ [c])) cs))" if "distinct cs" for cs
    using that
  proof (induction cs)
    case (Cons c cs)
    have "set (tree_files fuel s want (q @ [c])) \<inter> set (tree_files fuel s want (q @ [c'])) = {}" if "c' \<in> set cs" for c'
      using Cons.prems that by (auto dest!: tree_files_below)
    with Cons Suc.IH show ?case by auto
  qed simp
  then show ?case by (auto split: option.splits)
qed simp

lemma set_tree_files:
  "readable s q fuel \<Longrightarrow>
   p \<in> set (tree_files fuel s want q) \<longleftrightarrow>
     (\<exists>y n. p = q @ y \<and> node_at s p = Some n \<and> n \<noteq> NDir \<and> want (abs_text p) \<and>
        (\<forall>k<length y. \<not> shouldSkipDir (abs_text (q @ take k y))))"
proof (induction fuel arbitrary: q)
  case 0
  then show ?case by (auto simp: readable_def dest: spec [of _ "[]"])
next
  case (Suc fuel)
  have wf: "fs_wf s" "fault s = (\<lambda>_ _. None)" and depth: "node_at s (q @ y) \<noteq> None \<Longrightarrow> length y < Suc fuel" for y
    using Suc.prems by (auto simp: readable_def)
  obtain d where d: "node_at s q = Some d" using Suc.prems by (auto simp: readable_def)
  show ?case
  proof (cases "d = NDir")
    case False
    then have "y = []" if "node_at s (q @ y) = Some n" for y n
      using wf_parent(1) [OF wf(1), of q y] d that by auto
    with False d show ?thesis by fastforce
  next
    case True
    have sub: "p \<in> set (tree_files fuel s want (q @ [c])) \<longleftrightarrow>
        (\<exists>y n. p = q @ c # y \<and> node_at s p = Some n \<and> n \<noteq> NDir \<and> want (abs_text p) \<and>
           (\<forall>k<length y. \<not> shouldSkipDir (abs_text (q @ c # take k y))))"
      if "node_at s (q @ [c]) \<noteq> None" for c
    proof -
      have "readable s (q @ [c]) fuel"
        using wf that depth [of "c # _"] by (auto simp: readable_def)
      from Suc.IH [OF this] show ?thesis by simp
    qed
    have shift: "(\<forall>k<length (c # y). \<not> shouldSkipDir (abs_text (q @ take k (c # y)))) \<longleftrightarrow>
        \<not> shouldSkipDir (abs_text q) \<and> (\<forall>k<length y. \<not> shouldSkipDir (abs_text (q @ c # take k y)))" for c y
      by (simp add: All_less_Suc2)
    have "(\<exists>y n. p = q @ y \<and> node_at s p = Some n \<and> n \<noteq> NDir \<and> want (abs_text p) \<and>
          (\<forall>k<length y. \<not> shouldSkipDir (abs_text (q @ take k y)))) \<longleftrightarrow>
        \<not> shouldSkipDir (abs_text q) \<and>
        (\<exists>c y n. node_at s (q @ [c]) \<noteq> None \<and> p = q @ c # y \<and> node_at s p = Some n \<and> n \<noteq> NDir \<and>
          want (abs_text p) \<and> (\<forall>k<length y. \<not> shouldSkipDir (abs_text (q @ c # take k y))))" (is "?l \<longleftrightarrow> ?r")
    proof
      assume ?l
      then obtain y n where y: "p = q @ y" "node_at s p = Some n" "n \<noteq> NDir" "want (abs_text p)"
          "\<forall>k<length y. \<not> shouldSkipDir (abs_text (q @ take k y))" by blast
      then obtain c y' where c: "y = c # y'" using d True by (cases y) auto
      have "node_at s (q @ [c]) \<noteq> None"
        using wf_parent(2) [OF wf(1), of q y] y(1,2) c by simp
      with y c shift [of c y'] show ?r by blast
    next
      assume ?r
      with shift show ?l by (metis (no_types, lifting))
    qed
    then show ?thesis
      using d True sub by (auto simp: set_child_names [OF wf(1)])
  qed
qed

subsection \<open>Both walks\<close>

text \<open>\<open>p\<close> is a file of interest below \<open>q\<close>, and neither \<open>q\<close> nor a directory on the way is skipped.\<close>

definition source :: "fsys \<Rightarrow> string list \<Rightarrow> (string \<Rightarrow> bool) \<Rightarrow> string list \<Rightarrow> bool" where
  "source s q want p \<longleftrightarrow>
     (\<exists>y n. p = q @ y \<and> node_at s p = Some n \<and> n \<noteq> NDir \<and> want (abs_text p) \<and>
        (\<forall>k<length y. \<not> shouldSkipDir (abs_text (q @ take k y))))"

lemma walk_gathers:
  assumes "readable s q fuel"
  shows "case gather (items s) (tree_files fuel s want q) [] of
     Inr xs \<Rightarrow> walk fst fuel (visit_source want items) (abs_text q) (s, []) = Some (None, s, xs)
   | Inl e \<Rightarrow> \<exists>xs. walk fst fuel (visit_source want items) (abs_text q) (s, []) = Some (Some e, s, xs)"
proof -
  have wf: "fs_wf s" "fault s = (\<lambda>_ _. None)" using assms by (simp_all add: readable_def)
  obtain d where d: "node_at s q = Some d" using assms by (auto simp: readable_def)
  have "list_all plain q" "q \<noteq> [] \<longrightarrow> dir_chain s (butlast q)"
    using fs_wf_node [OF wf(1) d] dir_chain_wf [OF wf(1)] by (cases "q = []"; simp)+
  then have "os_lstat s (abs_text q) = Inr d"
    using locate_node [of q s d False False] d wf(2) by (simp add: os_lstat_def stat_with_def)
  then show ?thesis
    using walk_collects [OF assms d, where items = items and want = want and found = "[]"]
    by (auto simp: walk_def walked_def split: sum.splits)
qed

lemma walk_reads_all:
  assumes "readable s q fuel" and "\<And>p. source s q want p \<Longrightarrow> items s (abs_text p) = Inr (f p)"
  shows "\<exists>ps. distinct ps \<and> set ps = {p. source s q want p} \<and>
     walk fst fuel (visit_source want items) (abs_text q) (s, []) = Some (None, s, concat (map f ps))"
proof -
  let ?ps = "tree_files fuel s want q"
  have ps: "set ?ps = {p. source s q want p}"
    using set_tree_files [OF assms(1)] by (auto simp: source_def)
  then have "gather (items s) ?ps [] = Inr (concat (map f ?ps))"
    using assms(2) by (subst gather_all) auto
  then show ?thesis
    using walk_gathers [OF assms(1), where items = items and want = want] ps distinct_tree_files
    by (intro exI [of _ ?ps]) auto
qed

lemma walk_fails:
  assumes "readable s q fuel" and "source s q want p" and "items s (abs_text p) = Inl e"
  shows "\<exists>e xs. walk fst fuel (visit_source want items) (abs_text q) (s, []) = Some (Some e, s, xs)"
proof -
  have "p \<in> set (tree_files fuel s want q)"
    using set_tree_files [OF assms(1)] assms(2) by (auto simp: source_def)
  from gather_error [where read = "items s", OF this assms(3)] obtain e' where "gather (items s) (tree_files fuel s want q) [] = Inl e'"
    by blast
  then show ?thesis
    using walk_gathers [OF assms(1), where items = items and want = want] by auto
qed

lemma scan_reports:
  assumes "readable s q fuel"
    and "\<And>p. source s q is_source p \<Longrightarrow> parse_file parse s (abs_text p) = Inr (file p)"
  shows "\<exists>ps ms. scan parse fuel s (abs_text q) = Some (Inr ms) \<and>
     distinct ps \<and> set ps = {p. source s q is_source p} \<and>
     ms = sort_key marker_key (concat (map (\<lambda>p. decl_markers (abs_text p) (gf_package (file p)) (gf_decls (file p))) ps)) \<and>
     set ms = {marker_of (abs_text p) (gf_package (file p)) fn c tr |p fn doc c tr.
        source s q is_source p \<and> FuncDecl fn \<in> set (gf_decls (file p)) \<and> fd_doc fn = Some doc \<and> c \<in> set doc \<and>
        parseMarker (cm_text c) = Some tr}"
proof -
  have "scanFile parse s (abs_text p) = Inr (decl_markers (abs_text p) (gf_package (file p)) (gf_decls (file p)))"
    if "source s q is_source p" for p
    using assms(2) [OF that] by (simp add: scanFile_def)
  from walk_reads_all [where items = "scanFile parse", OF assms(1) this] obtain ps where ps:
    "distinct ps" "set ps = {p. source s q is_source p}"
    "walk fst fuel (visit_source is_source (scanFile parse)) (abs_text q) (s, []) = Some (None, s,
       concat (map (\<lambda>p. decl_markers (abs_text p) (gf_package (file p)) (gf_decls (file p))) ps))"
    by blast
  have "set (concat (map (\<lambda>p. decl_markers (abs_text p) (gf_package (file p)) (gf_decls (file p))) ps)) =
      {marker_of (abs_text p) (gf_package (file p)) fn c tr |p fn doc c tr.
        source s q is_source p \<and> FuncDecl fn \<in> set (gf_decls (file p)) \<and> fd_doc fn = Some doc \<and> c \<in> set doc \<and>
        parseMarker (cm_text c) = Some tr}"
    by (simp add: ps(2) set_decl_markers) blast
  then show ?thesis
    by (intro exI [of _ ps] exI [of _ "sort_key marker_key (concat (map (\<lambda>p. decl_markers (abs_text p)
          (gf_package (file p)) (gf_decls (file p))) ps))"]) (simp add: scan_def ps)
qed

lemma check_reports:
  assumes "readable s q fuel"
    and "\<And>p. source s q is_checked p \<Longrightarrow> parse_file parse s (abs_text p) = Inr (file p)"
  shows "\<exists>vs. check parse fuel s (abs_text q) = Some (Inr vs) \<and> sorted (map violation_key vs) \<and>
     set vs = {violation_of (abs_text p) (gf_package (file p)) fn |p fn.
        source s q is_checked p \<and> FuncDecl fn \<in> set (gf_decls (file p)) \<and> calls_pro fn \<and> \<not> marked fn}"
proof -
  have "checkFile parse s (abs_text p) = Inr (decl_violations (abs_text p) (gf_package (file p)) (gf_decls (file p)))"
    if "source s q is_checked p" for p
    using assms(2) [OF that] by (simp add: checkFile_def)
  from walk_reads_all [where items = "checkFile parse", OF assms(1) this] obtain ps where ps:
    "set ps = {p. source s q is_checked p}"
    "walk fst fuel (visit_source is_checked (checkFile parse)) (abs_text q) (s, []) = Some (None, s,
       concat (map (\<lambda>p. decl_violations (abs_text p) (gf_package (file p)) (gf_decls (file p))) ps))"
    by blast
  have "set (concat (map (\<lambda>p. decl_violations (abs_text p) (gf_package (file p)) (gf_decls (file p))) ps)) =
      {violation_of (abs_text p) (gf_package (file p)) fn |p fn.
        source s q is_checked p \<and> FuncDecl fn \<in> set (gf_decls (file p)) \<and> calls_pro fn \<and> \<not> marked fn}"
    by (simp add: ps(1) set_decl_violations) blast
  then show ?thesis
    by (intro exI [of _ "sort_key violation_key (concat (map (\<lambda>p. decl_violations (abs_text p)
          (gf_package (file p)) (gf_decls (file p))) ps))"]) (simp add: check_def ps)
qed

section \<open>Properties\<close>

text \<open>
  C14.  The scan is complete.  On a well-formed tree of which every \<^verbatim>\<open>.go\<close> file outside the skipped
  directories parses, the scan reports, each file once, a marker for every line of a doc
  comment of a function that is a marker, and nothing else; the markers are in the order of
  package, file and line, and the order of the tree decides only between equal ones.
\<close>

theorem scan_is_complete:
  assumes "readable s q fuel"
    and "\<And>p. source s q is_source p \<Longrightarrow> parse_file parse s (abs_text p) = Inr (file p)"
  shows "\<exists>ps ms. scan parse fuel s (abs_text q) = Some (Inr ms) \<and>
     distinct ps \<and> set ps = {p. source s q is_source p} \<and>
     ms = sort_key marker_key (concat (map (\<lambda>p. decl_markers (abs_text p) (gf_package (file p)) (gf_decls (file p))) ps)) \<and>
     set ms = {marker_of (abs_text p) (gf_package (file p)) fn c tr |p fn doc c tr.
        source s q is_source p \<and> FuncDecl fn \<in> set (gf_decls (file p)) \<and> fd_doc fn = Some doc \<and> c \<in> set doc \<and>
        parseMarker (cm_text c) = Some tr}"
  by (rule scan_reports [OF assms])

text \<open>
  A file that cannot be read or parsed stops both: they return an error and no report.
\<close>

theorem unparsable_source_is_an_error:
  assumes "readable s q fuel" and "source s q is_checked p" and "parse_file parse s (abs_text p) = Inl e"
  shows "(\<exists>e'. check parse fuel s (abs_text q) = Some (Inl e')) \<and> (\<exists>e'. scan parse fuel s (abs_text q) = Some (Inl e'))"
proof -
  have "source s q is_source p"
    using assms(2) by (auto simp: source_def is_checked_def is_source_def)
  then show ?thesis
    using walk_fails [OF assms(1,2), of "checkFile parse" e] walk_fails [OF assms(1), of is_source p "scanFile parse" e] assms(3)
    by (auto simp: check_def scan_def checkFile_def scanFile_def)
qed

end
