(* ===== verification/Docgen_IR.thy ===== *)
theory Docgen_IR
  imports Docgen_Scan Json_Struct
begin

text \<open>
  The intermediate JSON between \<^verbatim>\<open>docgen scan\<close> and \<^verbatim>\<open>docgen render\<close>: how the markers are
  written and how \<^verbatim>\<open>parseIR\<close> reads them.
\<close>

section \<open>Writing\<close>

text \<open>
  \<^verbatim>\<open>json.MarshalIndent\<close> of the structs: the fields in the order of their declaration, an empty
  receiver left out, and no markers (a nil slice) as \<^verbatim>\<open>null\<close>.
\<close>

definition object_text :: "nat \<Rightarrow> (string \<times> string) list \<Rightarrow> string" where
  "object_text d kvs =
     ''{'' @ new_line (Suc d) @
     commas ('','' @ new_line (Suc d)) (map (\<lambda>(k, v). json_string k @ '': '' @ v) kvs) @ new_line d @ ''}''"

definition array_text :: "nat \<Rightarrow> string list \<Rightarrow> string" where
  "array_text d vs =
     (if vs = [] then ''[]''
      else ''['' @ new_line (Suc d) @ commas ('','' @ new_line (Suc d)) vs @ new_line d @ '']'')"

definition marker_json :: "nat \<Rightarrow> Marker \<Rightarrow> string" where
  "marker_json d m =
     object_text d
       ([(''function'', json_string (mk_function m))] @
        (if mk_receiver m = [] then [] else [(''receiver'', json_string (mk_receiver m))]) @
        [(''package'', json_string (mk_package m)),
         (''tags'', array_text (Suc d) (map json_string (mk_tags m))),
         (''reason'', json_string (mk_reason m)),
         (''file'', json_string (mk_file m)),
         (''line'', itoa (mk_line m))])"

definition ir_json :: "Marker list \<Rightarrow> string" where
  "ir_json ms =
     object_text 0 [(''markers'', if ms = [] then ''null'' else array_text 1 (map (marker_json 2) ms))]"

section \<open>Reading\<close>

text \<open>
  A marker under construction carries the rest of the array of its tags (see \<open>into_slice\<close>).
\<close>

type_synonym marker_cell = "Marker \<times> string list"

definition zero_marker :: marker_cell where
  "zero_marker =
     (\<lparr>mk_function = [], mk_receiver = [], mk_package = [], mk_tags = [], mk_reason = [],
       mk_file = [], mk_line = 0\<rparr>, [])"

definition text_field ::
  "string \<Rightarrow> (Marker \<Rightarrow> string) \<Rightarrow> (string \<Rightarrow> Marker \<Rightarrow> Marker) \<Rightarrow> marker_cell field"
where
  "text_field name get assign =
     (name, \<lambda>r x. map_option (\<lambda>s. (assign s (fst x), snd x)) (into_string r (get (fst x))))"

definition marker_fields :: "marker_cell field list" where
  "marker_fields =
     [text_field ''function'' mk_function (\<lambda>s m. m\<lparr>mk_function := s\<rparr>),
      text_field ''receiver'' mk_receiver (\<lambda>s m. m\<lparr>mk_receiver := s\<rparr>),
      text_field ''package'' mk_package (\<lambda>s m. m\<lparr>mk_package := s\<rparr>),
      (''tags'', \<lambda>r x. map_option (\<lambda>sl. ((fst x)\<lparr>mk_tags := fst sl\<rparr>, snd sl))
                    (into_slice into_string [] r (mk_tags (fst x), snd x))),
      text_field ''reason'' mk_reason (\<lambda>s m. m\<lparr>mk_reason := s\<rparr>),
      text_field ''file'' mk_file (\<lambda>s m. m\<lparr>mk_file := s\<rparr>),
      (''line'', \<lambda>r x. map_option (\<lambda>n. ((fst x)\<lparr>mk_line := n\<rparr>, snd x)) (into_int r (mk_line (fst x))))]"

definition ir_fields :: "marker_cell slice field list" where
  "ir_fields = [(''markers'', into_slice (into_struct marker_fields) zero_marker)]"

definition parseIR :: "string \<Rightarrow> go_error + Marker list" where
  "parseIR data =
     (case unmarshal_into (into_struct ir_fields) ([], []) data of
        Inl err \<Rightarrow> Inl err
      | Inr ir \<Rightarrow> Inr (map fst (fst ir)))"

section \<open>What scan writes, render reads\<close>

text \<open>The values that are written, and that the indented text is the text of these values.\<close>

definition marker_raw :: "Marker \<Rightarrow> raw" where
  "marker_raw m =
     JObj ([(''function'', JStr (mk_function m))] @
       (if mk_receiver m = [] then [] else [(''receiver'', JStr (mk_receiver m))]) @
       [(''package'', JStr (mk_package m)), (''tags'', JArr (map JStr (mk_tags m))),
        (''reason'', JStr (mk_reason m)), (''file'', JStr (mk_file m)), (''line'', JNum (itoa (mk_line m)))])"

definition ir_raw :: "Marker list \<Rightarrow> raw" where
  "ir_raw ms = JObj [(''markers'', if ms = [] then JNull else JArr (map marker_raw ms))]"

lemma scan_new_line: "scan_bytes (new_line d) (Scanning ts Ground) = Scanning ts Ground"
proof -
  have s: "ground (CHR 0x20) ts = Scanning ts Ground" by (simp add: ground_def white_space_def)
  have "scan_bytes (replicate n (CHR 0x20)) (Scanning ts Ground) = Scanning ts Ground" for n
    by (induction n) (simp_all add: s)
  then show ?thesis by (simp add: new_line_def ground_tokens)
qed

lemma scans_indented:
  "(\<And>x. x \<in> set xs \<Longrightarrow> scans (f x) (g x)) \<Longrightarrow>
   scans (join ('','' @ new_line d) (map f xs)) (glue Comma (map g xs))"
  by (induction xs rule: induct_list012) (auto simp: scans_def ground_tokens scan_new_line)

text \<open>An enclosed text needs no byte after it.\<close>

lemma scans_enclosed:
  assumes "scans body u"
    and "a = CHR ''{'' \<and> l = LBrace \<and> b = CHR ''}'' \<and> r = RBrace \<or> a = CHR ''['' \<and> l = LBracket \<and> b = CHR '']'' \<and> r = RBracket"
  shows "scan_bytes ([a] @ new_line d @ body @ new_line e @ [b]) (Scanning ts Ground) = Scanning (ts @ l # u @ [r]) Ground"
proof -
  have n: "new_line e = CHR 0x0A # replicate (2 * e) CHR 0x20" by (simp add: new_line_def)
  have "scan_bytes (body @ new_line e) (Scanning ts' Ground) = Scanning (ts' @ u) Ground" for ts'
  proof -
    have "scan_byte (CHR 0x0A) (scan_bytes body (Scanning ts' Ground)) = Scanning (ts' @ u) Ground"
      using assms(1) by (simp add: scans_def ground_tokens)
    then have "scan_bytes (body @ new_line e) (Scanning ts' Ground) =
        scan_bytes (replicate (2 * e) CHR 0x20) (scan_bytes [CHR 0x0A] (Scanning (ts' @ u) Ground))"
      by (simp add: n ground_tokens)
    also have "\<dots> = Scanning (ts' @ u) Ground"
      using scan_new_line [of e "ts' @ u"] by (simp add: n)
    finally show ?thesis .
  qed
  then show ?thesis
    using assms(2) by (auto simp: scan_new_line ground_tokens)
qed

lemma scans_closed: "(\<And>ts. scan_bytes s (Scanning ts Ground) = Scanning (ts @ u) Ground) \<Longrightarrow> scans s u"
  by (simp add: scans_def)

lemma scan_object_text:
  assumes "\<And>k v u. (k, v, u) \<in> set kvus \<Longrightarrow> utf8 k \<and> scans v u"
  shows "scan_bytes (object_text d (map (\<lambda>(k, v, u). (k, v)) kvus)) (Scanning ts Ground) =
     Scanning (ts @ LBrace # glue Comma (map (\<lambda>(k, v, u). TStr k # Colon # u) kvus) @ [RBrace]) Ground"
proof -
  have "ground (CHR 0x20) ts = Scanning ts Ground" for ts by (simp add: ground_def white_space_def)
  then have "scans (json_string k @ '': '' @ v) (TStr k # Colon # u)" if "(k, v, u) \<in> set kvus" for k v u
    using assms [OF that] by (auto simp: scans_def scan_json_string ground_tokens)
  then have "scans (join ('','' @ new_line (Suc d)) (map (\<lambda>(k, v, u). json_string k @ '': '' @ v) kvus))
      (glue Comma (map (\<lambda>(k, v, u). TStr k # Colon # u) kvus))"
    by (intro scans_indented) auto
  from scans_enclosed [OF this, of "CHR ''{''" LBrace "CHR ''}''" RBrace "Suc d" d ts] show ?thesis
    by (simp add: object_text_def commas_def comp_def split_def)
qed

lemma scan_array_text:
  assumes "\<And>x. x \<in> set xs \<Longrightarrow> scans (f x) (g x)"
  shows "scan_bytes (array_text d (map f xs)) (Scanning ts Ground) =
     Scanning (ts @ LBracket # glue Comma (map g xs) @ [RBracket]) Ground"
proof (cases "xs = []")
  case True
  then show ?thesis by (simp add: array_text_def ground_tokens)
next
  case False
  have "scans (join ('','' @ new_line (Suc d)) (map f xs)) (glue Comma (map g xs))"
    using assms by (intro scans_indented)
  from scans_enclosed [OF this, of "CHR ''[''" LBracket "CHR '']''" RBracket "Suc d" d ts] False show ?thesis
    by (simp add: array_text_def commas_def)
qed

text \<open>What can be written: names and texts in UTF-8, lines as Go counts them.\<close>

definition good_marker :: "Marker \<Rightarrow> bool" where
  "good_marker m \<longleftrightarrow>
     utf8 (mk_function m) \<and> utf8 (mk_receiver m) \<and> utf8 (mk_package m) \<and> (\<forall>t\<in>set (mk_tags m). utf8 t) \<and>
     utf8 (mk_reason m) \<and> utf8 (mk_file m) \<and> 0 \<le> mk_line m \<and> mk_line m < 2 ^ 63"

lemma itoa_literal: "0 \<le> i \<Longrightarrow> is_literal (itoa i)"
proof -
  assume i: "0 \<le> i"
  let ?ds = "nat_digits (nat i)"
  obtain c t where ct: "?ds = c # t" "c = CHR ''0'' \<longrightarrow> nat i = 0 \<and> t = []"
    using nat_digits_head by blast
  have d: "list_all is_digit ?ds" by (rule nat_digits_is_digit)
  then have "split_sign ?ds = (False, ?ds)" by (auto simp: ct(1) split_sign_def is_digit_def)
  then have sgn: "split_sign ?ds = (False, ?ds)" .
  have sp: "takeWhile is_digit ?ds = ?ds" "dropWhile is_digit ?ds = []"
    using d by (simp_all add: list_all_iff takeWhile_eq_all_conv dropWhile_eq_Nil_conv)
  have "?ds \<noteq> []" "\<not> (hd ?ds = CHR ''0'' \<and> tl ?ds \<noteq> [])" using ct by auto
  moreover have "read_fraction [] = Some ([], [])" "read_exponent [] = Some 0" by code_simp+
  ultimately have "read_number ?ds = Some (False, ?ds, 0, 0)"
    by (simp add: read_number_def Let_def sp sgn)
  then show ?thesis using i by (simp add: is_literal_def itoa_def)
qed

lemma into_int_itoa: "0 \<le> i \<Longrightarrow> i < 2 ^ 63 \<Longrightarrow> into_int (JNum (itoa i)) x = Some i"
proof -
  assume i: "0 \<le> i" "i < 2 ^ 63"
  let ?ds = "nat_digits (nat i)"
  have d: "list_all is_digit ?ds" by (rule nat_digits_is_digit)
  obtain c t where ct: "?ds = c # t" using nat_digits_head by blast
  then have "split_sign ?ds = (False, ?ds)" using d by (auto simp: split_sign_def is_digit_def)
  moreover have "?ds \<noteq> []" by (simp add: ct)
  ultimately show ?thesis
    using i d nat_of_nat_digits [of "nat i"] by (simp add: into_int_def itoa_def)
qed

lemma ir_ascii:
  "utf8 ''function''" "utf8 ''receiver''" "utf8 ''package''" "utf8 ''tags''" "utf8 ''reason''"
  "utf8 ''file''" "utf8 ''line''" "utf8 ''markers''"
  by (auto intro!: utf8_ascii simp: byte_def)

lemma scans_string: "utf8 s \<Longrightarrow> scans (json_string s) [TStr s]"
  by (simp add: scans_def scan_json_string)

lemma scans_marker:
  assumes "good_marker m"
  shows "scans (marker_json d m) (toks (marker_raw m))"
proof (rule scans_closed)
  fix ts
  let ?members = "[(''function'', json_string (mk_function m), [TStr (mk_function m)])] @
     (if mk_receiver m = [] then [] else [(''receiver'', json_string (mk_receiver m), [TStr (mk_receiver m)])]) @
     [(''package'', json_string (mk_package m), [TStr (mk_package m)]),
      (''tags'', array_text (Suc d) (map json_string (mk_tags m)), toks (JArr (map JStr (mk_tags m)))),
      (''reason'', json_string (mk_reason m), [TStr (mk_reason m)]),
      (''file'', json_string (mk_file m), [TStr (mk_file m)]),
      (''line'', itoa (mk_line m), [TNum (itoa (mk_line m))])]"
  have "scans (array_text (Suc d) (map json_string (mk_tags m))) (toks (JArr (map JStr (mk_tags m))))"
    using scan_array_text [of "mk_tags m" json_string "\<lambda>s. [TStr s]"] assms
    by (intro scans_closed) (simp add: good_marker_def scans_string comp_def)
  moreover have "scans (itoa (mk_line m)) [TNum (itoa (mk_line m))]"
    using assms by (simp add: scans_def scan_number itoa_literal good_marker_def)
  ultimately have "utf8 k \<and> scans v u" if "(k, v, u) \<in> set ?members" for k v u
    using that assms ir_ascii scans_string by (auto simp: good_marker_def split: if_splits)
  then have "scan_bytes (object_text d (map (\<lambda>(k, v, u). (k, v)) ?members)) (Scanning ts Ground) =
     Scanning (ts @ LBrace # glue Comma (map (\<lambda>(k, v, u). TStr k # Colon # u) ?members) @ [RBrace]) Ground"
    by (rule scan_object_text)
  then show "scan_bytes (marker_json d m) (Scanning ts Ground) = Scanning (ts @ toks (marker_raw m)) Ground"
    by (cases "mk_receiver m = []") (simp_all add: marker_json_def marker_raw_def)
qed

lemma tokens_ir_json:
  assumes "\<And>m. m \<in> set ms \<Longrightarrow> good_marker m"
  shows "tokens (ir_json ms @ [CHR 0x0A]) = Some (toks (ir_raw ms))"
proof -
  let ?v = "if ms = [] then ''null'' else array_text 1 (map (marker_json 2) ms)"
  let ?u = "toks (if ms = [] then JNull else JArr (map marker_raw ms))"
  have n: "scans ''null'' [TNull]" using scans_emit [of JNull] by simp
  have a: "scans (array_text 1 (map (marker_json 2) ms)) (toks (JArr (map marker_raw ms)))"
    using scan_array_text [of ms "marker_json 2" "\<lambda>m. toks (marker_raw m)"] assms scans_marker
    by (intro scans_closed) (simp add: comp_def)
  have "scans ?v ?u" using n a by (cases "ms = []") simp_all
  then have "scan_bytes (object_text 0 (map (\<lambda>(k, v, u). (k, v)) [(''markers'', ?v, ?u)])) (Scanning [] Ground) =
      Scanning ([] @ LBrace # glue Comma (map (\<lambda>(k, v, u). TStr k # Colon # u) [(''markers'', ?v, ?u)]) @ [RBrace]) Ground"
    using ir_ascii by (intro scan_object_text) auto
  then have "scan_bytes (ir_json ms) (Scanning [] Ground) = Scanning (toks (ir_raw ms)) Ground"
    by (simp add: ir_json_def ir_raw_def)
  then show ?thesis by (simp add: tokens_def ground_tokens)
qed

lemma ir_raw_fits: "fits max_depth (ir_raw ms)"
  by (auto simp: ir_raw_def marker_raw_def max_depth_def)

lemma parse_ir_json:
  "(\<And>m. m \<in> set ms \<Longrightarrow> good_marker m) \<Longrightarrow> parse_json (ir_json ms @ [CHR 0x0A]) = Some (ir_raw ms)"
  using parses_toks [of "[]" "ir_raw ms"] ir_raw_fits [of ms]
  by (simp add: parse_json_def tokens_ir_json parses_def)

lemma marker_names:
  "fold_name ''function'' = ''function''" "fold_name ''receiver'' = ''receiver''"
  "fold_name ''package'' = ''package''" "fold_name ''tags'' = ''tags''" "fold_name ''reason'' = ''reason''"
  "fold_name ''file'' = ''file''" "fold_name ''line'' = ''line''" "fold_name ''markers'' = ''markers''"
  by code_simp+

lemma marker_read:
  assumes "good_marker m"
  shows "into_struct marker_fields (marker_raw m) zero_marker = Some (m, [])"
proof -
  have t: "into_slice into_string [] (JArr (map JStr (mk_tags m))) ([], []) = Some (mk_tags m, [])"
    using into_slice_new [of "mk_tags m" into_string JStr "[]" "\<lambda>t. t"] by (simp add: into_string_def)
  have l: "into_int (JNum (itoa (mk_line m))) 0 = Some (mk_line m)"
    using assms by (intro into_int_itoa) (simp_all add: good_marker_def)
  show ?thesis
    by (cases "mk_receiver m = []")
       (simp_all add: marker_raw_def into_struct_def zero_marker_def store_member_def marker_fields_def
          text_field_def marker_names into_string_def t l)
qed

text \<open>
  \<^verbatim>\<open>docgen render\<close> reads what \<^verbatim>\<open>docgen scan\<close> writes: the intermediate JSON of any markers,
  indented and with the receiver left out where there is none, is read back as the same
  markers, whatever characters the reasons hold.
\<close>

theorem ir_round_trip:
  assumes "\<And>m. m \<in> set ms \<Longrightarrow> good_marker m"
  shows "parseIR (ir_json ms @ [CHR 0x0A]) = Inr ms"
proof -
  have s: "into_slice (into_struct marker_fields) zero_marker (JArr (map marker_raw ms)) ([], []) =
      Some (map (\<lambda>m. (m, [])) ms, [])"
    using assms marker_read by (intro into_slice_new) auto
  have n: "into_slice (into_struct marker_fields) zero_marker JNull ([], []) = Some ([], [])"
    by (simp add: into_slice_def)
  have "store_members ir_fields [(''markers'', if ms = [] then JNull else JArr (map marker_raw ms))] ([], []) =
      Some (map (\<lambda>m. (m, [])) ms, [])"
    using s n by (simp add: store_member_def ir_fields_def marker_names)
  then show ?thesis
    using assms by (simp add: parseIR_def unmarshal_into_def parse_ir_json into_struct_def ir_raw_def comp_def)
qed

theorem ir_round_trip_witness:
  "parseIR (ir_json [\<lparr>mk_function = ''RoleExists'', mk_receiver = [], mk_package = ''iam'', mk_tags = [''pro''],
     mk_reason = ''IAM <GetRole> | \"only\"'', mk_file = ''/r/a.go'', mk_line = 3\<rparr>] @ [CHR 0x0A]) =
   Inr [\<lparr>mk_function = ''RoleExists'', mk_receiver = [], mk_package = ''iam'', mk_tags = [''pro''],
     mk_reason = ''IAM <GetRole> | \"only\"'', mk_file = ''/r/a.go'', mk_line = 3\<rparr>]"
proof (rule ir_round_trip)
  have "utf8 ''RoleExists''" "utf8 ''iam''" "utf8 ''pro''" "utf8 ''IAM <GetRole> | \"only\"''" "utf8 ''/r/a.go''"
    by (auto intro!: utf8_ascii simp: byte_def)
  then show "good_marker m" if "m \<in> set [\<lparr>mk_function = ''RoleExists'', mk_receiver = [], mk_package = ''iam'', mk_tags = [''pro''],
     mk_reason = ''IAM <GetRole> | \"only\"'', mk_file = ''/r/a.go'', mk_line = 3\<rparr>]" for m
    using that by (simp add: good_marker_def utf8_Nil)
qed

end
