(* ===== verification/Docgen.thy ===== *)
theory Docgen
  imports Docgen_IR
begin

text \<open>
  \<^verbatim>\<open>tools/docgen/render.go\<close> and \<^verbatim>\<open>main.go\<close>: the feature matrix, and the program with its three
  commands.
\<close>

section \<open>The matrix\<close>

definition nl :: string where
  "nl = [CHR 0x0A]"

definition em_dash :: string where
  "em_dash = [CHR 0xE2, CHR 0x80, CHR 0x94]"

definition symbol_of :: "Marker \<Rightarrow> string" where
  "symbol_of m = (if mk_receiver m \<noteq> [] then mk_receiver m @ ''.'' @ mk_function m else mk_function m)"

definition formatTags :: "string list \<Rightarrow> string" where
  "formatTags tags = join '' '' (map (\<lambda>t. ''**'' @ t @ ''**'') (sort tags))"

definition escapePipes :: "string \<Rightarrow> string" where
  "escapePipes s = concat (map (\<lambda>c. if c = CHR ''|'' then [backslash, CHR ''|''] else [c]) s)"

definition table_row :: "Marker \<Rightarrow> string" where
  "table_row m =
     ''| `'' @ symbol_of m @ ''` | `'' @ mk_package m @ ''` | '' @ formatTags (mk_tags m) @ '' | '' @
     escapePipes (mk_reason m) @ '' | `'' @ mk_file m @ '':'' @ itoa (mk_line m) @ ''` |'' @ nl"

definition renderTable :: "Marker list \<Rightarrow> string" where
  "renderTable ms =
     ''| Symbol | Package | Tags | Reason | Source |'' @ nl @
     ''| --- | --- | --- | --- | --- |'' @ nl @ concat (map table_row ms)"

text \<open>The set of tags seen, in the order in which its map is ranged over, is then sorted.\<close>

definition collectTags :: "Marker list \<Rightarrow> string list" where
  "collectTags ms = sort (fold (\<lambda>m. fold List.insert (mk_tags m)) ms [])"

definition count_tags :: "Marker list \<Rightarrow> string \<Rightarrow> nat" where
  "count_tags ms = fold (\<lambda>m. fold (\<lambda>t counts. counts(t := Suc (counts t))) (mk_tags m)) ms (\<lambda>_. 0)"

definition renderSummary :: "Marker list \<Rightarrow> string list \<Rightarrow> string" where
  "renderSummary ms tagsUsed =
     ''## Summary'' @ nl @ nl @
     itoa (int (length ms)) @ '' marker(s) across '' @ itoa (int (length tagsUsed)) @ '' distinct tag(s):'' @ nl @ nl @
     concat (map (\<lambda>t. ''- **'' @ t @ ''** '' @ em_dash @ '' '' @ itoa (int (count_tags ms t)) @ '' marker(s)'' @ nl) tagsUsed)"

definition render_header :: string where
  "render_header =
     ''# Feature Matrix'' @ nl @ nl @
     ''Auto-generated by `tools/docgen render`. Do not edit by hand '' @ em_dash @ nl @
     ''rerun `just docs-matrix` after changing source markers.'' @ nl @ nl @
     ''Every row corresponds to a `// libtftest:requires <tag>[,<tag>...] <reason>`'' @ nl @
     ''marker found in the repository. The marker grammar and its rationale'' @ nl @
     ''are documented in'' @ nl @
     ''[INV-0004](investigation/0004-pro-and-oss-feature-matrix-tooling.md).'' @ nl @ nl"

definition render :: "Marker list \<Rightarrow> string" where
  "render ms =
     (if length ms = 0 then render_header @ ''_No markers found._'' @ nl
      else render_header @ renderSummary ms (collectTags ms) @ nl @ renderTable ms)"

section \<open>The process\<close>

text \<open>
  What the program reads and writes: the file system, standard input (its \<^verbatim>\<open>Stat\<close>, as whether it
  is a character device, and what reading it to the end gives), standard output, which may
  refuse a write, and the messages on standard error.
\<close>

record process =
  d_fs :: fsys
  d_stdin_stat :: "go_error + bool"
  d_stdin :: "go_error + string"
  d_stdout :: string
  d_stdout_err :: "go_error option"
  d_stderr :: "(string \<times> arg list) list"

definition eprint :: "string \<Rightarrow> arg list \<Rightarrow> ('m process_scheme, unit) act" where
  "eprint f as = modify (\<lambda>p. p\<lparr>d_stderr := d_stderr p @ [(f, as)]\<rparr>)"

text \<open>
  \<^verbatim>\<open>flag.FlagSet.Parse\<close> with string flags only, from their defaults to their values; what is
  left after the flags is ignored, as the code does.  \<^verbatim>\<open>ContinueOnError\<close>: a mistake is an error.
\<close>

fun set_flag :: "string \<Rightarrow> string \<Rightarrow> (string \<times> string) list \<Rightarrow> go_error + (string \<times> string) list" where
  "set_flag name val flags =
     (if map_of flags name = None
      then Inl (ErrText (if name = ''help'' \<or> name = ''h'' then ''flag: help requested''
                         else ''flag provided but not defined: -'' @ name))
      else Inr (put name val flags))"

definition flag_name :: "string \<Rightarrow> string option" where
  "flag_name arg =
     (if length arg < 2 \<or> hd arg \<noteq> CHR ''-'' \<or> arg = ''--'' then None
      else Some (if arg ! 1 = CHR ''-'' then drop 2 arg else drop 1 arg))"

fun parse_flags :: "(string \<times> string) list \<Rightarrow> string list \<Rightarrow> go_error + (string \<times> string) list" where
  "parse_flags flags [] = Inr flags"
| "parse_flags flags (arg # args) =
     (case flag_name arg of
        None \<Rightarrow> Inr flags
      | Some name \<Rightarrow>
          if name = [] \<or> hd name = CHR ''-'' \<or> hd name = CHR ''='' then Inl (ErrText (''bad flag syntax: '' @ arg))
          else if CHR ''='' \<in> set name
          then (case set_flag (takeWhile (\<lambda>c. c \<noteq> CHR ''='') name) (tl (dropWhile (\<lambda>c. c \<noteq> CHR ''='') name)) flags of
                  Inl e \<Rightarrow> Inl e | Inr flags' \<Rightarrow> parse_flags flags' args)
          else (case args of
                  [] \<Rightarrow>
                    (case set_flag name [] flags of
                       Inl e \<Rightarrow> Inl e | Inr _ \<Rightarrow> Inl (ErrText (''flag needs an argument: -'' @ name)))
                | val # args' \<Rightarrow>
                    (case set_flag name val flags of
                       Inl e \<Rightarrow> Inl e | Inr flags' \<Rightarrow> parse_flags flags' args')))"

definition flag_of :: "(string \<times> string) list \<Rightarrow> string \<Rightarrow> string" where
  "flag_of flags name = (case map_of flags name of None \<Rightarrow> [] | Some v \<Rightarrow> v)"

section \<open>The commands\<close>

text \<open>A walk that has run out of fuel, which only a cyclic tree can cause, does not return: \<open>None\<close>.\<close>

definition writeOut :: "string \<Rightarrow> string \<Rightarrow> 'm process_scheme \<Rightarrow> go_error option \<times> 'm process_scheme" where
  "writeOut path data p =
     (if path = [] then
        (case d_stdout_err p of Some e \<Rightarrow> (Some e, p) | None \<Rightarrow> (None, p\<lparr>d_stdout := d_stdout p @ data\<rparr>))
      else (case os_write_file path data 384 (d_fs p) of
              (Inl e, s) \<Rightarrow> (Some e, p\<lparr>d_fs := s\<rparr>)
            | (Inr _, s) \<Rightarrow> (None, p\<lparr>d_fs := s\<rparr>)))"

definition stdinPiped :: "'m process_scheme \<Rightarrow> bool" where
  "stdinPiped p = (case d_stdin_stat p of Inl _ \<Rightarrow> False | Inr char_device \<Rightarrow> \<not> char_device)"

definition loadIR ::
  "go_parser \<Rightarrow> nat \<Rightarrow> string \<Rightarrow> string \<Rightarrow> 'm process_scheme \<Rightarrow>
   (go_error + Marker list) option"
where
  "loadIR parse fuel inp root p =
     (if inp \<noteq> [] then
        Some (case os_read_file (d_fs p) inp of Inl e \<Rightarrow> Inl e | Inr data \<Rightarrow> parseIR data)
      else if stdinPiped p then
        Some (case d_stdin p of Inl e \<Rightarrow> Inl e | Inr data \<Rightarrow> parseIR data)
      else scan parse fuel (d_fs p) root)"

definition scanCmd ::
  "go_parser \<Rightarrow> nat \<Rightarrow> string list \<Rightarrow> 'm process_scheme \<Rightarrow> (go_error option \<times> 'm process_scheme) option"
where
  "scanCmd parse fuel args p =
     (case parse_flags [(''root'', ''.''), (''out'', [])] args of
        Inl e \<Rightarrow> Some (Some e, p)
      | Inr fl \<Rightarrow>
          (case scan parse fuel (d_fs p) (flag_of fl ''root'') of
             None \<Rightarrow> None
           | Some (Inl e) \<Rightarrow> Some (Some e, p)
           | Some (Inr ms) \<Rightarrow> Some (writeOut (flag_of fl ''out'') (ir_json ms @ nl) p)))"

definition renderCmd ::
  "go_parser \<Rightarrow> nat \<Rightarrow> string list \<Rightarrow> 'm process_scheme \<Rightarrow>
   (go_error option \<times> 'm process_scheme) option"
where
  "renderCmd parse fuel args p =
     (case parse_flags [(''in'', []), (''out'', []), (''root'', ''.'')] args of
        Inl e \<Rightarrow> Some (Some e, p)
      | Inr fl \<Rightarrow>
          (case loadIR parse fuel (flag_of fl ''in'') (flag_of fl ''root'') p of
             None \<Rightarrow> None
           | Some (Inl e) \<Rightarrow> Some (Some e, p)
           | Some (Inr ms) \<Rightarrow> Some (writeOut (flag_of fl ''out'') (render ms) p)))"

definition violation_line :: "Violation \<Rightarrow> string \<times> arg list" where
  "violation_line v =
     (''%s:%d  %s.%s  calls libtftest.RequirePro without a `// libtftest:requires` marker'' @ nl,
      [AStr (vi_file v), AInt (int (vi_line v)), AStr (vi_package v),
       AStr (if vi_receiver v \<noteq> [] then vi_receiver v @ ''.'' @ vi_function v else vi_function v)])"

definition checkCmd ::
  "go_parser \<Rightarrow> nat \<Rightarrow> string list \<Rightarrow> 'm process_scheme \<Rightarrow> (go_error option \<times> 'm process_scheme) option"
where
  "checkCmd parse fuel args p =
     (case parse_flags [(''root'', ''.'')] args of
        Inl e \<Rightarrow> Some (Some e, p)
      | Inr fl \<Rightarrow>
          (case check parse fuel (d_fs p) (flag_of fl ''root'') of
             None \<Rightarrow> None
           | Some (Inl e) \<Rightarrow> Some (Some e, p)
           | Some (Inr vs) \<Rightarrow>
               if length vs = 0 then Some (None, p)
               else Some (Some (ErrText (itoa (int (length vs)) @ '' marker violation(s)'')),
                          p\<lparr>d_stderr := d_stderr p @ map violation_line vs\<rparr>)))"

definition usage_text :: string where
  "usage_text = concat (map (\<lambda>line. line @ nl)
     [''docgen '' @ em_dash @ '' libtftest:requires marker tooling'',
      [],
      ''Usage:'',
      ''  docgen scan   [-root <dir>] [-out <path>]'',
      ''  docgen render [-in <path>]  [-out <path>]'',
      ''  docgen check  [-root <dir>]'',
      ''  docgen help'',
      [],
      ''Subcommands:'',
      ''  scan    Walk the repo for libtftest:requires markers; emit JSON IR.'',
      ''  render  Read JSON IR (stdin or -in); write Markdown to stdout or -out.'',
      ''  check   Verify every libtftest.RequirePro caller has a marker.''])"

definition usage :: "('m process_scheme, unit) act" where
  "usage = eprint usage_text []"

definition finish :: "string \<Rightarrow> (go_error option \<times> 'm process_scheme) option \<Rightarrow> (unit outcome \<times> 'm process_scheme) option" where
  "finish cmd res =
     (case res of
        None \<Rightarrow> None
      | Some (None, p) \<Rightarrow> Some (Ret (), p)
      | Some (Some err, p) \<Rightarrow> Some (andthen (eprint (''docgen %s: %v'' @ nl) [AStr cmd, AErr err]) (os_exit 1) p))"

definition docgen_main ::
  "go_parser \<Rightarrow> nat \<Rightarrow> string list \<Rightarrow> 'm process_scheme \<Rightarrow>
   (unit outcome \<times> 'm process_scheme) option"
where
  "docgen_main parse fuel argv p =
     (case argv of
        _ # cmd # args \<Rightarrow>
          if cmd = ''scan'' then finish cmd (scanCmd parse fuel args p)
          else if cmd = ''render'' then finish cmd (renderCmd parse fuel args p)
          else if cmd = ''check'' then finish cmd (checkCmd parse fuel args p)
          else if cmd \<in> {''-h'', ''--help'', ''help''} then Some (usage p)
          else Some (andthen (eprint (''docgen: unknown subcommand %q'' @ nl @ nl) [AStr cmd])
                       (andthen usage (os_exit 2)) p)
      | _ \<Rightarrow> Some (andthen usage (os_exit 2) p))"

section \<open>Rows\<close>

text \<open>The bars of a text that no backslash stands before; \<open>b\<close>: whether one does at its start.\<close>

fun bars :: "bool \<Rightarrow> string \<Rightarrow> nat" where
  "bars b [] = 0"
| "bars b (c # s) = (if c = CHR ''|'' \<and> \<not> b then 1 else 0) + bars (c = backslash) s"

lemma bars_append: "bars b (s @ t) = bars b s + bars (if s = [] then b else last s = backslash) t"
  by (induction s arbitrary: b) auto

lemma bars_none: "CHR ''|'' \<notin> set s \<Longrightarrow> bars b s = 0"
  by (induction s arbitrary: b) auto

lemma bars_escapePipes: "bars b (escapePipes s) = 0"
  by (induction s arbitrary: b) (auto simp: escapePipes_def backslash_def)

lemma set_escapePipes: "set (escapePipes s) \<subseteq> insert backslash (set s)"
  by (auto simp: escapePipes_def)

lemma set_join: "set (join sep ps) \<subseteq> set sep \<union> \<Union> (set (map set ps))"
  by (induction sep ps rule: join.induct) auto

lemma set_split_on: "p \<in> set (split_on c s) \<Longrightarrow> set p \<subseteq> set s"
proof (induction s arbitrary: p)
  case (Cons x s)
  then show ?case
  proof (cases "split_on c s")
    case (Cons q qs)
    then show ?thesis
      using Cons.prems Cons.IH by (auto split: if_splits) blast+
  qed simp
qed simp

lemma set_trim_space: "set (trim_space s) \<subseteq> set s"
proof -
  have "set (trim_with seqs s) \<subseteq> set s" for seqs s
    using trim_with_suffix [of s seqs] by (metis set_append sup_ge2)
  then show ?thesis
    unfolding trim_space_def trim_right_def trim_left_def by (metis order_trans set_rev)
qed

lemma itoa_chars: "set (itoa i) \<subseteq> insert CHR ''-'' (set hex_chars)"
proof -
  have "set (nat_digits n) \<subseteq> set hex_chars" for n
  proof (induction n rule: nat_digits.induct)
    case (1 n)
    then show ?case by (subst nat_digits.simps) (auto intro: digit_in_hex)
  qed
  then show ?thesis by (auto simp: itoa_def)
qed

lemma parseMarker_chars:
  assumes "parseMarker line = Some (tags, reason)"
  shows "\<forall>t\<in>set tags. list_all tag_char t" and "CHR 0x0A \<notin> set reason"
proof -
  obtain tg r where m: "markerRE line = Some (tg, r)" and t: "tags = map trim_space (split_on CHR '','' tg)"
      "reason = trim_space r"
    using assms by (auto simp: parseMarker_def split: option.splits)
  have "list_all tag_char tg" "list_all not_newline r"
    using marker_sound [OF m] by (cases tg; auto simp: marker_text_def tag_char_def)+
  then show "\<forall>t\<in>set tags. list_all tag_char t" "CHR 0x0A \<notin> set reason"
    using set_split_on [of _ "CHR '',''" tg] set_trim_space unfolding t list_all_iff not_newline_def
    by fastforce+
qed

text \<open>The parts of a row that come from names and numbers: no bar and no line break in them.\<close>

definition plain_text :: "string \<Rightarrow> bool" where
  "plain_text s \<longleftrightarrow> CHR ''|'' \<notin> set s \<and> CHR 0x0A \<notin> set s"

lemma bars_plain: "plain_text s \<Longrightarrow> bars b s = 0"
  by (simp add: plain_text_def bars_none)

lemma plain_text_append: "plain_text (s @ t) \<longleftrightarrow> plain_text s \<and> plain_text t"
  by (auto simp: plain_text_def)

lemma plain_text_itoa: "plain_text (itoa i)"
  using itoa_chars [of i] by (auto simp: plain_text_def hex_chars_def)

lemma plain_text_formatTags: "\<forall>t\<in>set tags. list_all tag_char t \<Longrightarrow> plain_text (formatTags tags)"
proof -
  assume t: "\<forall>t\<in>set tags. list_all tag_char t"
  have "c \<in> {CHR '' '', CHR ''*''} \<or> tag_char c" if "c \<in> set (formatTags tags)" for c
    using that t set_join [of "'' ''" "map (\<lambda>t. ''**'' @ t @ ''**'') (sort tags)"]
    by (auto simp: formatTags_def list_all_iff split: if_splits)
  then show ?thesis
    by (fastforce simp: plain_text_def tag_char_def lower_def less_eq_char_def)
qed

section \<open>Counting tags\<close>

lemma fold_insert: "set (fold List.insert ts acc) = set acc \<union> set ts \<and> (distinct acc \<longrightarrow> distinct (fold List.insert ts acc))"
  by (induction ts arbitrary: acc) auto

lemma collected:
  "set (fold (\<lambda>m. fold List.insert (mk_tags m)) ms acc) = set acc \<union> set (concat (map mk_tags ms)) \<and>
   (distinct acc \<longrightarrow> distinct (fold (\<lambda>m. fold List.insert (mk_tags m)) ms acc))"
proof (induction ms arbitrary: acc)
  case (Cons m ms)
  then show ?case using fold_insert [of "mk_tags m" acc] by auto
qed simp

lemma count_fold: "fold (\<lambda>t counts. counts(t := Suc (counts t))) ts c t = c t + count_list ts t"
  by (induction ts arbitrary: c) auto

lemma count_tags_eq: "count_tags ms t = count_list (concat (map mk_tags ms)) t"
proof -
  have "fold (\<lambda>m. fold (\<lambda>t counts. counts(t := Suc (counts t))) (mk_tags m)) ms c t =
      c t + count_list (concat (map mk_tags ms)) t" for c
    by (induction ms arbitrary: c) (simp_all add: count_fold)
  then show ?thesis by (simp add: count_tags_def)
qed

section \<open>Properties\<close>

text \<open>
  A marker cannot break the table.  The row of a marker whose tags and reason were read from a
  comment is one line with exactly six bars that no backslash stands before, those of the five
  cells, whatever the reason says, when the names and the file path hold no bar and no line
  break.
\<close>

theorem row_has_five_cells:
  assumes "parseMarker line = Some (mk_tags m, mk_reason m)"
    and "plain_text (mk_function m @ mk_receiver m @ mk_package m @ mk_file m)"
  shows "\<exists>body. table_row m = body @ [CHR 0x0A] \<and> CHR 0x0A \<notin> set body \<and> bars False body = 6"
proof -
  have t: "plain_text (formatTags (mk_tags m))" and r: "CHR 0x0A \<notin> set (mk_reason m)"
    using parseMarker_chars [OF assms(1)] plain_text_formatTags by auto
  have names: "plain_text (symbol_of m)" "plain_text (mk_package m)"
      "plain_text (mk_file m @ '':'' @ itoa (mk_line m))"
    using assms(2) plain_text_itoa by (simp_all add: plain_text_append symbol_of_def) (simp_all add: plain_text_def)
  let ?body = "''| `'' @ symbol_of m @ ''` | `'' @ mk_package m @ ''` | '' @ formatTags (mk_tags m) @ '' | '' @
     escapePipes (mk_reason m) @ '' | `'' @ (mk_file m @ '':'' @ itoa (mk_line m)) @ ''` |''"
  have "CHR 0x0A \<notin> set ?body"
    using t names r set_escapePipes [of "mk_reason m"] by (auto simp: plain_text_def backslash_def)
  moreover have "bars False ?body = 6"
  proof -
    have "bars b (symbol_of m) = 0" "bars b (mk_package m) = 0" "bars b (formatTags (mk_tags m)) = 0"
        "bars b (mk_file m @ '':'' @ itoa (mk_line m)) = 0" for b
      using names t by (simp_all add: bars_plain del: append.simps)
    then show ?thesis
      by (simp only: bars_append bars_escapePipes) (simp add: backslash_def)
  qed
  moreover have "table_row m = ?body @ [CHR 0x0A]"
    by (simp add: table_row_def nl_def)
  ultimately show ?thesis by blast
qed

text \<open>
  The summary counts every tag of every marker: its tags are listed once each and in order,
  they are the tags in use, each has the number of its occurrences, and these numbers add up.
\<close>

theorem summary_counts_every_tag:
  "sorted (collectTags ms) \<and> distinct (collectTags ms) \<and> set (collectTags ms) = set (concat (map mk_tags ms)) \<and>
   count_tags ms t = count_list (concat (map mk_tags ms)) t \<and>
   sum_list (map (count_tags ms) (collectTags ms)) = length (concat (map mk_tags ms))"
proof -
  have c: "distinct (collectTags ms)" "set (collectTags ms) = set (concat (map mk_tags ms))"
    using collected [of ms "[]"] by (simp_all add: collectTags_def)
  have "sum_list (map (count_tags ms) (collectTags ms)) = sum (count_list (concat (map mk_tags ms))) (set (collectTags ms))"
    using c(1) by (simp add: sum_list_distinct_conv_sum_set count_tags_eq)
  also have "\<dots> = length (concat (map mk_tags ms))"
    unfolding c(2) by (rule sum_count_set) simp_all
  finally show ?thesis
    using c by (simp add: count_tags_eq collectTags_def)
qed


section \<open>Witnesses\<close>

text \<open>A tree with one caller without a marker, one test file, and a vendored file that does not parse.\<close>

definition demo_source :: go_file where
  "demo_source =
     \<lparr>gf_package = ''iam'', gf_decls =
        [OtherDecl,
         FuncDecl \<lparr>fd_name = ''RoleExists'', fd_recv = None, fd_doc = Some [\<lparr>cm_text = ''// RoleExists asserts.'', cm_line = 3\<rparr>],
           fd_body = Some (Node [Node [Call (Selector (Ident ''libtftest'') ''RequirePro'') [Ident ''tb'']]]), fd_line = 4\<rparr>]\<rparr>"

definition demo_parser :: go_parser where
  "demo_parser src = (if src = ''go'' then Inr demo_source else Inl (ErrText ''syntax error''))"

definition demo_repo :: fsys where
  "demo_repo =
     \<lparr>nodes = [([''r''], NDir), ([''r'', ''a.go''], NFile ''go'' 420), ([''r'', ''vendor''], NDir),
               ([''r'', ''vendor'', ''b.go''], NFile ''??'' 420)],
      cwd = [], umask = 18, fault = (\<lambda>_ _. None)\<rparr>"

definition demo_process :: process where
  "demo_process =
     \<lparr>d_fs = demo_repo, d_stdin_stat = Inr True, d_stdin = Inr [], d_stdout = [], d_stdout_err = None, d_stderr = []\<rparr>"

lemma demo_repo_readable: "readable demo_repo [''r''] 4"
  by (auto simp: readable_def fs_wf_def demo_repo_def keys_distinct_def plain_def node_at_def split: if_splits)

lemma demo_repo_paths:
  "shouldSkipDir (abs_text [''r'', ''vendor''])" "\<not> shouldSkipDir (abs_text [''r''])"
  "is_checked (abs_text [''r'', ''a.go''])" "is_source (abs_text [''r'', ''a.go''])"
  by code_simp+

lemma demo_repo_sources: "source demo_repo [''r''] want p \<Longrightarrow> p = [''r'', ''a.go'']"
proof -
  assume "source demo_repo [''r''] want p"
  then obtain y n where y: "p = [''r''] @ y" "node_at demo_repo p = Some n" "n \<noteq> NDir"
      "\<forall>k<length y. \<not> shouldSkipDir (abs_text ([''r''] @ take k y))"
    by (auto simp: source_def)
  have "y \<noteq> [''vendor'', ''b.go'']"
    using y(4) demo_repo_paths(1) by (auto dest: spec [of _ 1])
  with y(1-3) show ?thesis
    by (auto simp: node_at_def demo_repo_def split: if_splits)
qed

lemma demo_repo_source: "source demo_repo [''r''] is_checked [''r'', ''a.go'']"
  unfolding source_def
  by (rule exI [of _ "[''a.go'']"]) (use demo_repo_paths in \<open>simp add: node_at_def demo_repo_def\<close>)

lemma demo_repo_parses:
  assumes "parse ''go'' = Inr g" and "source demo_repo [''r''] want p"
  shows "parse_file parse demo_repo (abs_text p) = Inr g"
proof -
  have "locate demo_repo True False (abs_text [''r'', ''a.go'']) = Inr [''r'', ''a.go'']"
    by (rule locate_node) (auto simp: plain_def dir_chain_def node_at_def demo_repo_def take_Cons split: nat.splits)
  then show ?thesis
    using demo_repo_sources [OF assms(2)] assms(1)
    by (simp add: parse_file_def os_read_file_def stat_with_def node_at_def demo_repo_def)
qed

lemma demo_parser_parses: "demo_parser ''go'' = Inr demo_source"
  by (simp add: demo_parser_def)

lemma demo_unmarked:
  "calls_pro fn \<and> \<not> marked fn" if "FuncDecl fn \<in> set (gf_decls demo_source)"
proof -
  have "parseMarker ''// RoleExists asserts.'' = None" by code_simp
  with that show ?thesis by (auto simp: demo_source_def calls_pro_def marked_def)
qed


theorem scan_is_complete_witness:
  "\<exists>ms. scan demo_parser 4 demo_repo (abs_text [''r'']) = Some (Inr ms)"
  using scan_is_complete [of demo_repo "[''r'']" 4 demo_parser "\<lambda>_. demo_source"] demo_repo_readable demo_repo_parses [where parse = demo_parser and g = demo_source, OF demo_parser_parses]
  by blast

theorem row_has_five_cells_witness:
  "\<exists>body. table_row \<lparr>mk_function = ''RoleExists'', mk_receiver = [], mk_package = ''iam'', mk_tags = [''pro'', ''mockta''],
       mk_reason = ''IAM GetRole | only'', mk_file = ''/r/a.go'', mk_line = 3\<rparr> = body @ [CHR 0x0A] \<and>
     CHR 0x0A \<notin> set body \<and> bars False body = 6"
proof -
  let ?m = "\<lparr>mk_function = ''RoleExists'', mk_receiver = [], mk_package = ''iam'', mk_tags = [''pro'', ''mockta''],
       mk_reason = ''IAM GetRole | only'', mk_file = ''/r/a.go'', mk_line = 3\<rparr>"
  have "parseMarker ''// libtftest:requires pro,mockta IAM GetRole | only'' = Some (mk_tags ?m, mk_reason ?m)"
    by code_simp
  then show ?thesis
    by (rule row_has_five_cells) (simp add: plain_text_def)
qed

end
