(* ===== verification/Docgen_Matrix.thy ===== *)
theory Docgen_Matrix
  imports Docgen
begin

text \<open>
  From the sources to the feature matrix: \<^verbatim>\<open>docgen scan\<close> piped into \<^verbatim>\<open>docgen render\<close>.  The markers
  read from UTF-8 text are themselves UTF-8, so they survive the intermediate JSON, and each
  has its row.
\<close>

section \<open>Cutting UTF-8 text\<close>

lemma multi_rune_bytes:
  assumes "multi_rune (a # t) = Some (r, Suc (length t))"
  shows "194 \<le> byte a" and "b \<in> set t \<Longrightarrow> 128 \<le> byte b \<and> byte b \<le> 191"
  using assms
  by (auto simp: multi_rune_def byte_in_def second3_def second4_def split: list.splits if_splits)

text \<open>The first byte of a rune is not a continuation byte, the others are.\<close>

lemma rune_text_Cons:
  assumes "rune_text (a # t)"
  shows "byte a < 128 \<and> t = [] \<or> 194 \<le> byte a" and "b \<in> set t \<Longrightarrow> 128 \<le> byte b \<and> byte b \<le> 191"
proof -
  from assms consider "byte a < 128" "t = []" | r where "multi_rune (a # t) = Some (r, Suc (length t))"
    by (auto simp: rune_text_def)
  then show "byte a < 128 \<and> t = [] \<or> 194 \<le> byte a"
    by cases (auto dest: multi_rune_bytes(1))
  from assms show "b \<in> set t \<Longrightarrow> 128 \<le> byte b \<and> byte b \<le> 191"
    unfolding rune_text_def using multi_rune_bytes(2) by fastforce
qed

lemma rune_text_prefix_free:
  assumes "rune_text x" and "rune_text (x @ y)"
  shows "y = []"
proof (rule ccontr)
  assume y: "y \<noteq> []"
  from assms(1) rune_text_not_Nil obtain a t where x: "x = a # t" by (cases x) auto
  from assms(1) show False
    unfolding rune_text_def
  proof (elim disjE exE conjE)
    fix c assume "x = [c]" "byte c < 128"
    with x y rune_text_Cons(1) [of a "t @ y"] assms(2) show False by auto
  next
    fix r assume "multi_rune x = Some (r, length x)"
    then have m: "multi_rune (x @ y) = Some (r, length x)" "2 \<le> length x"
      by (auto intro: multi_rune_append dest: multi_rune_width)
    with assms(2) y show False by (auto simp: rune_text_def append_eq_Cons_conv)
  qed
qed

lemma rune_text_front:
  assumes "rune_text x" "rune_text y" "x @ u = y @ v"
  shows "x = y \<and> u = v"
  using assms rune_text_prefix_free [of x] rune_text_prefix_free [of y]
  by (auto simp: append_eq_append_conv2)

lemma utf8_drop:
  assumes "utf8 (x @ z)" and "rune_text x"
  shows "utf8 z"
  using assms(1)
proof (cases rule: utf8.cases)
  case utf8_Nil
  with assms(2) rune_text_not_Nil show ?thesis by simp
next
  case (utf8_rune y v)
  with rune_text_front [OF assms(2), of y z v] show ?thesis by simp
qed

lemma utf8_take: "utf8 s \<Longrightarrow> s = z @ x \<Longrightarrow> rune_text x \<Longrightarrow> utf8 z"
proof (induction arbitrary: z rule: utf8.induct)
  case utf8_Nil
  then show ?case using rune_text_not_Nil by simp
next
  case (utf8_rune y s)
  from utf8_rune.prems(1) consider u where "s = u @ x" "z = y @ u" | u where "u \<noteq> []" "y = z @ u" "x = u @ s"
    unfolding append_eq_append_conv2 by (metis append_Nil append_Nil2)
  then show ?case
  proof cases
    case 1
    with utf8_rune show ?thesis by (auto intro: utf8.utf8_rune)
  next
    case 2
    have "z = []"
    proof (cases z)
      case (Cons a t)
      from 2(1) obtain b u' where u: "u = b # u'" by (cases u) auto
      have "128 \<le> byte b \<and> byte b \<le> 191"
        using rune_text_Cons(2) [of a "t @ u" b] utf8_rune.hyps(1) 2(2) Cons u by simp
      moreover have "byte b < 128 \<or> 194 \<le> byte b"
        using rune_text_Cons(1) [of b "u' @ s"] utf8_rune.prems(2) 2(3) u by auto
      ultimately show ?thesis by linarith
    qed simp
    then show ?thesis by (simp add: utf8_Nil)
  qed
qed

text \<open>Cutting white space at the ends, and ASCII in front of or behind a text.\<close>

lemma space_bytes:
  "byte CHR 0x09 = 9" "byte CHR 0x0A = 10" "byte CHR 0x0B = 11" "byte CHR 0x0C = 12"
  "byte CHR 0x0D = 13" "byte CHR 0x20 = 32" "byte CHR 0x80 = 128" "byte CHR 0x81 = 129"
  "byte CHR 0x82 = 130" "byte CHR 0x83 = 131" "byte CHR 0x84 = 132" "byte CHR 0x85 = 133"
  "byte CHR 0x86 = 134" "byte CHR 0x87 = 135" "byte CHR 0x88 = 136" "byte CHR 0x89 = 137"
  "byte CHR 0x8A = 138" "byte CHR 0x9A = 154" "byte CHR 0x9F = 159" "byte CHR 0xA0 = 160"
  "byte CHR 0xA8 = 168" "byte CHR 0xA9 = 169" "byte CHR 0xAF = 175" "byte CHR 0xC2 = 194"
  "byte CHR 0xE1 = 225" "byte CHR 0xE2 = 226" "byte CHR 0xE3 = 227"
  by (simp_all add: byte_def)

lemma rune_text_spaces: "list_all rune_text space_encodings"
  by (simp add: space_encodings_def rune_text_def multi_rune_def byte_in_def second3_def space_bytes)

lemma trim_with_utf8:
  "P s \<Longrightarrow> (\<And>x z. x \<in> set seqs \<Longrightarrow> P (x @ z) \<Longrightarrow> P z) \<Longrightarrow> P (trim_with seqs s)"
proof (induction seqs s rule: trim_with.induct)
  case (1 seqs s)
  show ?case
  proof (cases "[] \<in> set seqs \<or> cut_one seqs s = None")
    case True
    with 1(2) show ?thesis by (auto simp: trim_with.simps [of seqs s])
  next
    case False
    then obtain r where r: "cut_one seqs s = Some r" "[] \<notin> set seqs" by auto
    then obtain x where x: "x \<in> set seqs" "s = x @ r"
      by (auto simp: cut_one_def has_prefix_iff dest!: find_SomeD)
    with 1(2,3) have "P r" by blast
    from 1(1) [OF r(2,1) this 1(3)] r show ?thesis by (simp add: trim_with.simps [of seqs s])
  qed
qed

lemma utf8_trim_space: "utf8 s \<Longrightarrow> utf8 (trim_space s)"
proof -
  assume "utf8 s"
  then have "utf8 (trim_left s)"
    unfolding trim_left_def
    by (rule trim_with_utf8) (use rune_text_spaces in \<open>auto simp: list_all_iff intro: utf8_drop\<close>)
  then have "utf8 (rev (trim_with (map rev space_encodings) (rev (trim_left s))))"
    by (intro trim_with_utf8 [where P = "\<lambda>r. utf8 (rev r)"]) (use rune_text_spaces in \<open>auto simp: list_all_iff intro: utf8_take\<close>)
  then show ?thesis by (simp add: trim_space_def trim_right_def)
qed

lemma utf8_after_ascii: "utf8 (x @ z) \<Longrightarrow> (\<And>c. c \<in> set x \<Longrightarrow> byte c < 128) \<Longrightarrow> utf8 z"
proof (induction x)
  case (Cons c x)
  then have "utf8 (x @ z)" using utf8_drop [of "[c]" "x @ z"] by (simp add: rune_text_def)
  with Cons show ?case by simp
qed simp

lemma utf8_before_ascii: "utf8 (z @ x) \<Longrightarrow> (\<And>c. c \<in> set x \<Longrightarrow> byte c < 128) \<Longrightarrow> utf8 z"
proof (induction x rule: rev_induct)
  case (snoc c x)
  then have "utf8 (z @ x)" using utf8_take [of "(z @ x) @ [c]" "z @ x" "[c]"] by (simp add: rune_text_def)
  with snoc show ?case by simp
qed simp

section \<open>Markers of UTF-8 sources\<close>

lemma white_ascii: "white c \<Longrightarrow> byte c < 128"
  by (auto simp: white_def byte_def)

lemma tag_char_ascii: "tag_char c \<Longrightarrow> byte c < 128"
  by (auto simp: tag_char_def lower_def byte_def less_eq_char_def)

lemma marker_words_ascii: "list_all (\<lambda>c. byte c < 128) ''//''" "list_all (\<lambda>c. byte c < 128) ''libtftest:requires''"
  by (simp_all add: byte_def)

lemma parseMarker_utf8:
  assumes "parseMarker line = Some (tags, reason)" and "utf8 line"
  shows "(\<forall>t\<in>set tags. utf8 t) \<and> utf8 reason"
proof -
  obtain tg r where m: "markerRE line = Some (tg, r)" and r: "reason = trim_space r"
    using assms(1) by (auto simp: parseMarker_def split: option.splits)
  obtain w0 w1 w2 w3 where w: "marker_text line w0 w1 tg w2 r w3"
    using marker_sound [OF m] by blast
  then have line: "line = (''//'' @ w0 @ ''libtftest:requires'' @ w1 @ tg @ w2) @ r @ w3"
    and ws: "list_all white (w0 @ w1 @ w2 @ w3)" and tg: "list_all tag_char tg"
    by (cases tg; simp add: marker_text_def tag_char_def)+
  have "list_all (\<lambda>c. byte c < 128) (''//'' @ w0 @ ''libtftest:requires'' @ w1 @ tg @ w2)" "list_all (\<lambda>c. byte c < 128) w3"
    using ws tg marker_words_ascii white_ascii tag_char_ascii unfolding list_all_append
    by (auto simp: list_all_iff)
  then have "utf8 r"
    using assms(2) unfolding line list_all_iff by (blast intro: utf8_after_ascii utf8_before_ascii)
  moreover have "utf8 t" if "t \<in> set tags" for t
    using parseMarker_chars(1) [OF assms(1)] that tag_char_ascii by (auto simp: list_all_iff intro!: utf8_ascii)
  ultimately show ?thesis by (simp add: r utf8_trim_space)
qed

text \<open>A file as \<^verbatim>\<open>go/parser\<close> gives it: names and comments are UTF-8, lines are machine integers.\<close>

definition utf8_file :: "string \<Rightarrow> go_file \<Rightarrow> bool" where
  "utf8_file path g \<longleftrightarrow> utf8 path \<and> utf8 (gf_package g) \<and>
     (\<forall>fn. FuncDecl fn \<in> set (gf_decls g) \<longrightarrow> utf8 (fd_name fn) \<and> utf8 (receiverType fn) \<and>
        (\<forall>doc c. fd_doc fn = Some doc \<and> c \<in> set doc \<longrightarrow> utf8 (cm_text c) \<and> int (cm_line c) < 2 ^ 63))"

lemma marker_of_good:
  assumes "utf8_file path g" "FuncDecl fn \<in> set (gf_decls g)" "fd_doc fn = Some doc" "c \<in> set doc"
    and "parseMarker (cm_text c) = Some tr"
  shows "good_marker (marker_of path (gf_package g) fn c tr)"
proof -
  have u: "utf8 path" "utf8 (gf_package g)" "utf8 (fd_name fn)" "utf8 (receiverType fn)" "utf8 (cm_text c)"
      "int (cm_line c) < 2 ^ 63"
    using assms(1-4) unfolding utf8_file_def by blast+
  obtain tags reason where tr: "tr = (tags, reason)" by (cases tr)
  with parseMarker_utf8 [OF _ u(5)] assms(5) u show ?thesis
    by (simp add: good_marker_def marker_of_def)
qed

section \<open>The three commands on one tree\<close>

lemma scan_command:
  assumes "scan parse fuel (d_fs p) root = Some (Inr ms)" and "d_stdout_err p = None"
  shows "docgen_main parse fuel [''docgen'', ''scan'', ''-root'', root] p =
     Some (Ret (), p\<lparr>d_stdout := d_stdout p @ ir_json ms @ nl\<rparr>)"
proof -
  have "parse_flags [(''root'', ''.''), (''out'', [])] [''-root'', root] = Inr [(''root'', root), (''out'', [])]"
    by (simp add: flag_name_def)
  with assms show ?thesis
    by (simp add: docgen_main_def scanCmd_def flag_of_def writeOut_def finish_def del: parse_flags.simps)
qed

lemma render_command:
  assumes "stdinPiped r" "d_stdin r = Inr data" "parseIR data = Inr ms" "d_stdout_err r = None"
  shows "docgen_main parse fuel [''docgen'', ''render''] r =
     Some (Ret (), r\<lparr>d_stdout := d_stdout r @ render ms\<rparr>)"
  using assms
  by (simp add: docgen_main_def renderCmd_def flag_of_def loadIR_def writeOut_def finish_def)

lemma check_command:
  assumes "check parse fuel (d_fs p) root = Some (Inr vs)"
  shows "(\<exists>p'. docgen_main parse fuel [''docgen'', ''check'', ''-root'', root] p = Some (Ret (), p')) \<longleftrightarrow> vs = []"
proof -
  have "parse_flags [(''root'', ''.'')] [''-root'', root] = Inr [(''root'', root)]"
    by (simp add: flag_name_def)
  with assms show ?thesis
    by (auto simp: docgen_main_def checkCmd_def flag_of_def finish_def act_simps eprint_def
        simp del: parse_flags.simps split: if_splits)
qed

lemma row_in_matrix: "m \<in> set ms \<Longrightarrow> \<exists>a b. render ms = a @ table_row m @ b"
proof -
  assume m: "m \<in> set ms"
  then obtain xs ys where "ms = xs @ m # ys" by (auto simp: in_set_conv_decomp)
  then have "render ms = (render_header @ renderSummary ms (collectTags ms) @ nl @
       ''| Symbol | Package | Tags | Reason | Source |'' @ nl @ ''| --- | --- | --- | --- | --- |'' @ nl @
       concat (map table_row xs)) @ table_row m @ concat (map table_row ys)"
    by (simp add: render_def renderTable_def)
  then show ?thesis by blast
qed

end
