(* ===== verification/Files_Ok.thy ===== *)
theory Files_Ok
  imports Test_Cases Snapshot
begin

text \<open>
  The type of the file system, and that the code keeps it: every entry sits in a directory
  under a plain name, no entry is listed twice, and the working directory exists.  The kernel
  keeps this for the calls it serves; here it is shown of the model of these calls, of
  everything the repository composes from them (copying, overrides, hooks, artifacts,
  snapshots), and so of \<^verbatim>\<open>libtftest.New\<close>, for whatever paths, links and faults it meets.
\<close>

section \<open>Well-typed file systems\<close>

definition fs_ok :: "fsys \<Rightarrow> bool" where
  "fs_ok s \<longleftrightarrow> fs_wf s \<and> list_all plain (cwd s) \<and> node_at s (cwd s) = Some NDir"

text \<open>A place an entry can be at: a plain path into a directory.\<close>

definition spot :: "fsys \<Rightarrow> string list \<Rightarrow> bool" where
  "spot s q \<longleftrightarrow> list_all plain q \<and> node_at s (butlast q) = Some NDir"

definition step_name :: "string \<Rightarrow> bool" where
  "step_name c \<longleftrightarrow> plain c \<or> c = ''..''"

lemma spot_node: "fs_ok s \<Longrightarrow> node_at s q = Some n \<Longrightarrow> spot s q"
  using fs_wf_node [of s q n] by (cases "q = []") (auto simp: fs_ok_def spot_def)

lemma fs_ok_set_node:
  assumes "fs_ok s" and "spot s q" and "node_at s q \<noteq> Some NDir"
  shows "fs_ok (set_node q n s)"
proof -
  have "q \<noteq> []" using assms(3) by auto
  with assms show ?thesis
    using fs_wf_set_node [of s q n] node_at_set_node_dir [of s "cwd s" q n]
    by (simp add: fs_ok_def spot_def)
qed

lemma fs_ok_put_content [intro]: "fs_ok s \<Longrightarrow> fs_ok (put_content q data s)"
  using fs_ok_set_node [OF _ spot_node] by (auto simp: put_content_def split: option.splits node.splits)

section \<open>Resolving paths\<close>

lemma split_on_pieces: "p \<in> set (split_on c q) \<Longrightarrow> c \<notin> set p"
  by (induction q arbitrary: p) (auto split: list.splits if_splits)

lemma components_names: "list_all step_name (components p)"
  using split_on_pieces [of _ "CHR ''/''" p]
  by (auto simp: components_def list_all_iff step_name_def plain_def)

lemma clean_comps_append:
  "clean_comps r stack (xs @ ys) = clean_comps r (rev (clean_comps r stack xs)) ys"
proof (induction xs arbitrary: stack)
  case (Cons x xs)
  then show ?case by (cases stack) auto
qed simp

lemma clean_comps_names:
  "list_all plain stack \<Longrightarrow> list_all step_name xs \<Longrightarrow> list_all plain (clean_comps True stack xs)"
proof (induction xs arbitrary: stack)
  case (Cons x xs)
  then show ?case by (cases stack) (auto simp: step_name_def)
qed (simp add: list_all_iff)

text \<open>A path under resolution that has reached a directory.\<close>

definition reached :: "fsys \<Rightarrow> bool \<Rightarrow> string list \<Rightarrow> bool" where
  "reached s r dest \<longleftrightarrow> list_all step_name dest \<and> node_at s (place s r dest) = Some NDir"

lemma place_names: "fs_ok s \<Longrightarrow> list_all step_name dest \<Longrightarrow> list_all plain (place s r dest)"
  unfolding place_def
  by (rule clean_comps_names) (auto simp: fs_ok_def step_name_def list_all_iff)

lemma place_snoc:
  "place s r (dest @ [c]) =
     (if c = ''..'' then clean_comps True (rev (place s r dest)) [''..''] else place s r dest @ [c])"
  by (simp add: place_def clean_comps_append flip: append_assoc)

lemma place_dotdot:
  assumes "fs_ok s" and "list_all step_name dest"
  shows "place s r (dest @ [''..'']) = butlast (place s r dest)"
proof -
  have "list_all plain (place s r dest)" using assms by (rule place_names)
  then show ?thesis
    by (cases "place s r dest" rule: rev_exhaust) (auto simp: place_snoc)
qed

lemma parent_dir: "fs_ok s \<Longrightarrow> node_at s q = Some NDir \<Longrightarrow> node_at s (butlast q) = Some NDir"
  using spot_node by (auto simp: spot_def)

lemma reached_start: "fs_ok s \<Longrightarrow> reached s r []"
  by (auto simp: reached_def place_def fs_ok_def clean_comps_plain)

lemma reached_up: "fs_ok s \<Longrightarrow> reached s r dest \<Longrightarrow> reached s r (step_up r dest)"
proof (cases dest rule: rev_exhaust)
  case Nil
  assume "fs_ok s" "reached s r dest"
  with Nil show ?thesis
    using place_dotdot [of s "[]" r] parent_dir [of s "place s r []"]
    by (auto simp: reached_def step_up_def step_name_def)
next
  case (snoc d c)
  assume ok: "fs_ok s" "reached s r dest"
  show ?thesis
  proof (cases "c = ''..''")
    case True
    with ok snoc show ?thesis
      using place_dotdot [of s dest r] parent_dir [of s "place s r dest"]
      by (auto simp: reached_def step_up_def step_name_def)
  next
    case False
    with ok snoc show ?thesis
      using parent_dir [of s "place s r dest"]
      by (auto simp: reached_def step_up_def place_snoc)
  qed
qed

text \<open>Wherever a resolution ends, that is a spot: an entry there exists or may be made.\<close>

lemma spot_snoc: "fs_ok s \<Longrightarrow> reached s r dest \<Longrightarrow> step_name c \<Longrightarrow> c \<noteq> ''..'' \<Longrightarrow> spot s (place s r (dest @ [c]))"
  using place_names [of s dest r] by (auto simp: reached_def spot_def place_snoc step_name_def)

lemma walk_links_spot:
  "fs_ok s \<Longrightarrow> reached s r dest \<Longrightarrow> list_all step_name cs \<Longrightarrow>
   walk_links s follow create links r dest cs = Inr (r', dest') \<Longrightarrow> spot s (place s r' dest')"
proof (induction s follow create links r dest cs rule: walk_links.induct)
  case (1 s follow create links r dest)
  then show ?case using spot_node by (auto simp: reached_def)
next
  case (2 s follow create links r dest c cs)
  show ?case
  proof (cases "c = ''..''")
    case True
    with 2 show ?thesis using reached_up by simp
  next
    case False
    have c: "spot s (place s r (dest @ [c]))"
      using 2(4-6) False by (intro spot_snoc) auto
    show ?thesis
    proof (cases "node_at s (place s r (dest @ [c]))")
      case None
      with 2(7) c False show ?thesis by (auto split: if_splits)
    next
      case (Some n)
      show ?thesis
      proof (cases n)
        case NDir
        then have "reached s r (dest @ [c])"
          using 2(5,6) Some by (simp add: reached_def)
        with 2 NDir Some False show ?thesis by simp
      next
        case (NFile x y)
        with 2(7) c Some False show ?thesis by (auto split: if_splits)
      next
        case (NLink t)
        show ?thesis
        proof (cases "cs = [] \<and> \<not> follow")
          case True
          with 2(7) c Some False NLink show ?thesis by auto
        next
          case nofollow: False
          then obtain l where l: "links = Suc l"
            using 2(7) Some False NLink by (cases links) auto
          have "reached s (rooted t \<or> r) (if rooted t then [] else dest)"
            using 2(4,5) reached_start by auto
          moreover have "list_all step_name (components t @ cs)"
            using components_names 2(6) by simp
          ultimately show ?thesis
            using 2(3) [OF False Some NLink nofollow l 2(4)] 2(7) Some False NLink nofollow l by simp
        qed
      qed
    qed
  qed
qed

lemma locate_spot: "fs_ok s \<Longrightarrow> locate s follow create p = Inr q \<Longrightarrow> spot s q"
  using walk_links_spot [OF _ reached_start components_names]
  by (auto simp: locate_def split: if_splits sum.splits)

section \<open>The calls of package os\<close>

lemma fs_ok_open_trunc: "fs_ok s \<Longrightarrow> fs_ok (snd (os_open_trunc p mode s))"
  by (auto simp: os_open_trunc_def intro!: fs_ok_set_node locate_spot split: option.splits sum.splits node.splits)

lemma fs_ok_write_file: "fs_ok s \<Longrightarrow> fs_ok (snd (os_write_file p data mode s))"
  using fs_ok_open_trunc [of s p mode]
  by (auto simp: os_write_file_def split: prod.splits option.splits sum.splits)

lemma fs_ok_mkdir: "fs_ok s \<Longrightarrow> fs_ok (snd (os_mkdir p s))"
  by (auto simp: os_mkdir_def intro!: fs_ok_set_node locate_spot split: option.splits sum.splits)

lemma fs_ok_mkdir_each:
  "fs_ok s \<Longrightarrow> list_all step_name (pre @ cs) \<Longrightarrow> fs_ok (snd (mkdir_each s r pre cs))"
proof (induction s r pre cs rule: mkdir_each.induct)
  case (2 s r pre c cs)
  have names: "list_all step_name (pre @ [c])" using 2(4) by simp
  show ?case
  proof (cases "walk_links s True True 40 r [] (pre @ [c])")
    case (Inr rd)
    obtain r' dest where rd: "rd = (r', dest)" by (cases rd)
    have "spot s (place s r' dest)"
      using walk_links_spot [OF 2(3) reached_start [OF 2(3)] names] Inr rd by blast
    then have "node_at s (place s r' dest) = None \<Longrightarrow> fs_ok (set_node (place s r' dest) NDir s)"
      using fs_ok_set_node 2(3) by simp
    with 2 Inr rd show ?thesis by (simp split: option.splits node.splits)
  qed (use 2 in simp)
qed simp

lemma fs_ok_mkdir_all: "fs_ok s \<Longrightarrow> fs_ok (snd (os_mkdir_all p s))"
  by (simp add: os_mkdir_all_def fs_ok_mkdir_each components_names split: option.splits)

lemma fs_ok_mkdir_temp: "fs_ok s \<Longrightarrow> fs_ok (snd (snd (mkdir_temp root pre rs s)))"
  by (induction root pre rs s rule: mkdir_temp.induct)
     (auto simp: Let_def intro!: fs_ok_set_node locate_spot split: option.splits sum.splits)

section \<open>What the repository composes from them\<close>

lemma fs_ok_result:
  "os_mkdir_all p s = (r, s') \<Longrightarrow> fs_ok s \<Longrightarrow> fs_ok s'"
  "os_open_trunc p mode s = (q, s') \<Longrightarrow> fs_ok s \<Longrightarrow> fs_ok s'"
  "os_write_file p data mode s = (r, s') \<Longrightarrow> fs_ok s \<Longrightarrow> fs_ok s'"
  using fs_ok_mkdir_all [of s p] fs_ok_open_trunc [of s p mode] fs_ok_write_file [of s p data mode]
  by simp_all

lemma fs_ok_copyFile: "fs_ok s \<Longrightarrow> fs_ok (snd (copyFile src dst s))"
  by (auto simp: copyFile_def dest: fs_ok_result split: sum.splits option.splits prod.splits)

text \<open>
  An invariant \<open>P\<close> of the callback is an invariant of the walk; the paths the callback sees have
  any property \<open>G\<close> that passes from a directory to the entries listed in it.
\<close>

definition walk_inv :: "('s \<Rightarrow> fsys) \<Rightarrow> 's walk_fn \<Rightarrow> ('s \<Rightarrow> bool) \<Rightarrow> (string \<Rightarrow> bool) \<Rightarrow> bool" where
  "walk_inv fsof fn P G \<longleftrightarrow>
     (\<forall>s path d err r s'. P s \<longrightarrow> G path \<longrightarrow> fn s path d err = Some (r, s') \<longrightarrow> P s') \<and>
     (\<forall>s path ents c n. P s \<longrightarrow> G path \<longrightarrow> os_read_dir (fsof s) path = Inr ents \<longrightarrow>
        (c, n) \<in> set ents \<longrightarrow> G (path_join [path, c]))"

lemma walk_dir_keeps:
  "walk_inv fsof fn P G \<Longrightarrow> walk_dir fsof fuel fn path d s = Some (r, s') \<Longrightarrow> P s \<Longrightarrow> G path \<Longrightarrow> P s'"
  "walk_inv fsof fn P G \<Longrightarrow> walk_entries fsof fuel fn path ents s = Some (r, s') \<Longrightarrow> P s \<Longrightarrow>
   (\<And>c n. (c, n) \<in> set ents \<Longrightarrow> G (path_join [path, c])) \<Longrightarrow> P s'"
proof (induction fsof fuel fn path d s and fsof fuel fn path ents s
    arbitrary: r s' and r s' rule: walk_dir_walk_entries.induct)
  case (2 fsof fuel fn path d s)
  note kept = "2.prems"(1) [unfolded walk_inv_def, THEN conjunct1, rule_format]
  note below = "2.prems"(1) [unfolded walk_inv_def, THEN conjunct2, rule_format]
  obtain r1 s1 where first: "fn s path (Some d) None = Some (r1, s1)"
    using "2.prems"(2) by (auto split: option.splits)
  have s1: "P s1" by (rule kept [OF "2.prems"(3,4) first])
  consider "s' = s1" | e where "os_read_dir (fsof s1) path = Inl e" "r1 = WOk" "d = NDir"
    | ents where "os_read_dir (fsof s1) path = Inr ents" "r1 = WOk" "d = NDir"
    using "2.prems"(2) first by (cases r1; cases "os_read_dir (fsof s1) path"; cases "d = NDir") auto
  then show ?case
  proof cases
    case 1
    with s1 show ?thesis by simp
  next
    case (2 e)
    obtain r2 where "fn s1 path (Some d) (Some e) = Some (r2, s')"
      using "2.prems"(2) first 2 by (auto split: option.splits walk_ret.splits)
    then show ?thesis by (rule kept [OF s1 "2.prems"(4)])
  next
    case (3 ents)
    then have run: "walk_entries fsof fuel fn path ents s1 = Some (r, s')"
      using "2.prems"(2) first by simp
    have G: "G (path_join [path, c])" if "(c, n) \<in> set ents" for c n
      by (rule below [OF s1 "2.prems"(4) 3(1) that])
    have "r1 = WOk" "\<not> d \<noteq> NDir" using 3 by simp_all
    then show ?thesis by (rule "2.IH" [OF first refl _ _ 3(1) "2.prems"(1) run s1 G])
  qed
next
  case (4 fsof fuel fn path name d ents s)
  obtain r1 s1 where first: "walk_dir fsof fuel fn (path_join [path, name]) d s = Some (r1, s1)"
    using "4.prems"(2) by (auto split: option.splits)
  have G: "G (path_join [path, name])" "\<And>c n. (c, n) \<in> set ents \<Longrightarrow> G (path_join [path, c])"
    using "4.prems"(4) by auto
  have s1: "P s1" by (rule "4.IH"(1) [OF "4.prems"(1) first "4.prems"(3) G(1)])
  show ?case
  proof (cases r1)
    case WOk
    then have "walk_entries fsof fuel fn path ents s1 = Some (r, s')"
      using "4.prems"(2) first by simp
    from "4.IH"(2) [OF first refl WOk "4.prems"(1) this s1] G(2) show ?thesis by blast
  qed (use "4.prems"(2) first s1 in auto)
qed auto

lemma walk_keeps:
  assumes inv: "walk_inv fsof fn P G" and run: "walk fsof fuel fn root s = Some (e, s')" and "P s" and "G root"
  shows "P s'"
proof -
  obtain r where "(case os_lstat (fsof s) root of Inl e \<Rightarrow> fn s root None (Some e)
      | Inr d \<Rightarrow> walk_dir fsof fuel fn root d s) = Some (r, s')"
    using run unfolding walk_def by (auto split: option.splits walk_ret.splits)
  moreover have "P s'" if "walk_dir fsof fuel fn root d s = Some (r, s')" for d
    by (rule walk_dir_keeps(1) [of fsof fn P G, OF inv that \<open>P s\<close> \<open>G root\<close>])
  moreover have "P s'" if "fn s root d e = Some (r, s')" for d e
    using inv that \<open>P s\<close> \<open>G root\<close> unfolding walk_inv_def by blast
  ultimately show ?thesis by (auto split: sum.splits)
qed

definition keeps_tree :: "copier \<Rightarrow> bool" where
  "keeps_tree rec \<longleftrightarrow> (\<forall>src dst s e s'. fs_ok s \<longrightarrow> rec src dst s = Some (e, s') \<longrightarrow> fs_ok s')"

lemma fs_ok_copySymlink:
  assumes "keeps_tree rec" and "fs_ok (fst st)" and "copySymlink rec path target st = Some (e, st')"
  shows "fs_ok (fst st')"
  using assms fs_ok_copyFile [OF assms(2)]
  by (auto simp: copySymlink_def keeps_tree_def Let_def split: sum.splits if_splits prod.splits)
     (metis snd_conv)

lemma fs_ok_copy_entry:
  assumes "keeps_tree rec" and "fs_ok (fst st)" and "copy_entry rec src dst st path d err = Some (r, st')"
  shows "fs_ok (fst st')"
  using assms(2,3) fs_ok_copyFile [OF assms(2)] fs_ok_mkdir_all [OF assms(2)] fs_ok_copySymlink [OF assms(1,2)]
  by (auto simp: copy_entry_def Let_def split: option.splits sum.splits node.splits prod.splits)
     (metis snd_conv)+

lemma keeps_copyTree: "keeps_tree (copyTree fuel)"
proof (induction fuel)
  case (Suc fuel)
  show ?case unfolding keeps_tree_def
  proof (intro allI impI)
    fix src dst s e s'
    assume ok: "fs_ok s" and run: "copyTree (Suc fuel) src dst s = Some (e, s')"
    then obtain st where st: "walk fst (Suc fuel) (copy_entry (copyTree fuel) src dst) src (s, []) = Some (e, st)"
      "s' = fst st" by auto
    have "walk_inv fst (copy_entry (copyTree fuel) src dst) (\<lambda>st. fs_ok (fst st)) (\<lambda>_. True)"
      using fs_ok_copy_entry [OF Suc] by (simp add: walk_inv_def)
    from walk_keeps [OF this st(1)] ok st(2) show "fs_ok s'" by simp
  qed
qed (simp add: keeps_tree_def)

lemma fs_ok_WriteOverrides: "fs_ok s \<Longrightarrow> fs_ok (snd (WriteOverrides dir url s))"
  by (auto simp: WriteOverrides_def dest: fs_ok_result split: sum.splits prod.splits)

lemma fs_ok_write_hooks: "fs_ok s \<Longrightarrow> fs_ok (snd (write_hooks dir hs s))"
proof (induction dir hs s rule: write_hooks.induct)
  case (2 dir h hs s)
  then show ?case
    using fs_ok_write_file [of s "path_join [dir, ih_name h]" "ih_script h" 493]
    by (auto split: prod.splits sum.splits)
qed simp

section \<open>Actions that keep the type\<close>

definition keeps_files :: "(('t, 'x, 'm) world_scheme, 'a) act \<Rightarrow> bool" where
  "keeps_files m \<longleftrightarrow> (\<forall>w. fs_ok (w_fs w) \<longrightarrow> fs_ok (w_fs (snd (m w))))"

named_theorems keeps_intros "how an action that keeps the type of the file system is put together"

lemma keepsI: "(\<And>w. fs_ok (w_fs w) \<Longrightarrow> fs_ok (w_fs (snd (m w)))) \<Longrightarrow> keeps_files m"
  by (simp add: keeps_files_def)

lemma keepsD: "keeps_files m \<Longrightarrow> fs_ok (w_fs w) \<Longrightarrow> fs_ok (w_fs (snd (m w)))"
  by (simp add: keeps_files_def)

lemma keeps_untouched: "(\<And>w. w_fs (snd (m w)) = w_fs w) \<Longrightarrow> keeps_files m"
  by (simp add: keeps_files_def)

lemma keeps_basic [keeps_intros]:
  "keeps_files (ret x)" "keeps_files skip" "keeps_files (panic p)" "keeps_files (gets f)"
  "keeps_files (ask c answer)"
  by (simp_all add: keeps_files_def act_simps)

lemma keeps_modify [keeps_intros]: "(\<And>w. w_fs (f w) = w_fs w) \<Longrightarrow> keeps_files (modify f)"
  by (rule keeps_untouched) (simp add: modify_run)

lemma keeps_bnd [keeps_intros]:
  fixes m :: "(('t, 'x, 'm) world_scheme, 'a) act"
  assumes "keeps_files m" and "\<And>x. keeps_files (f x)"
  shows "keeps_files (bnd m f)"
proof (rule keepsI)
  fix w :: "('t, 'x, 'm) world_scheme"
  assume ok: "fs_ok (w_fs w)"
  show "fs_ok (w_fs (snd (bnd m f w)))"
  proof (cases "m w")
    case (Pair oc v)
    with keepsD [OF assms(1) ok] have "fs_ok (w_fs v)" by simp
    then show ?thesis
      using Pair keepsD [OF assms(2)] by (cases oc) (simp_all add: bnd_run)
  qed
qed

lemma keeps_andthen [keeps_intros]: "keeps_files m \<Longrightarrow> keeps_files k \<Longrightarrow> keeps_files (andthen m k)"
  unfolding andthen_def by (rule keeps_bnd)

lemma keeps_at: "(\<And>w. keeps_files (m w)) \<Longrightarrow> keeps_files (\<lambda>w. m w w)"
  by (simp add: keeps_files_def)

section \<open>Test handles that keep the type\<close>

lemma only_handle: "m w = (oc, w\<lparr>w_tb := t\<rparr>) \<Longrightarrow> w_fs (snd (m w)) = w_fs w"
  by simp

text \<open>A handle changes files in \<^verbatim>\<open>TempDir\<close> at most, and keeps their type there.\<close>

locale typed_handle = test_handle I cleanups_of
  for I :: "(('t, 'x, 'm) world_scheme, 'c) tb_iface" and cleanups_of +
  assumes temp_dir_law: "keeps_files (m_temp_dir I)"
begin

lemma keeps_errorf: "keeps_files (m_errorf I f as)"
  using errorf_law [of f as] by (intro keeps_untouched) (metis only_handle)

lemma keeps_fatalf: "keeps_files (m_fatalf I f as)"
  using fatalf_law [of f as] by (intro keeps_untouched) (metis only_handle)

lemma keeps_logf: "keeps_files (m_logf I f as)"
  using logf_law [of f as] by (intro keeps_untouched) (metis only_handle)

lemma keeps_cleanup: "keeps_files (m_cleanup I c)"
  using cleanup_law [of c] by (intro keeps_untouched) (metis only_handle)

lemma keeps_NewWorkspace: "keeps_files (NewWorkspace fuel I md)"
proof -
  have "keeps_files (\<lambda>w. case copyTree fuel md d (w_fs w) of
              None \<Rightarrow> (Panicked ''out of fuel'', w)
            | Some (None, s) \<Rightarrow> (Ret \<lparr>ws_dir = d, ws_src = md\<rparr>, w\<lparr>w_fs := s\<rparr>)
            | Some (Some err, s) \<Rightarrow>
                andthen (m_fatalf I ''copy module %s: %v'' [AStr md, AErr err])
                  (ret \<lparr>ws_dir = d, ws_src = md\<rparr>) (w\<lparr>w_fs := s\<rparr>))" for d
  proof (rule keepsI)
    fix w :: "('t, 'x, 'm) world_scheme"
    assume ok: "fs_ok (w_fs w)"
    have k: "fs_ok (w_fs (snd (andthen (m_fatalf I f as) (ret x) v)))" if "fs_ok (w_fs v)"
      for v f as and x :: workspace
      by (rule keepsD [OF keeps_andthen [OF keeps_fatalf keeps_basic(1)] that])
    have kept: "fs_ok s" if "copyTree fuel md d (w_fs w) = Some (e, s)" for e s
      using keeps_copyTree ok that by (auto simp: keeps_tree_def)
    show "fs_ok (w_fs (snd (case copyTree fuel md d (w_fs w) of
              None \<Rightarrow> (Panicked ''out of fuel'', w)
            | Some (None, s) \<Rightarrow> (Ret \<lparr>ws_dir = d, ws_src = md\<rparr>, w\<lparr>w_fs := s\<rparr>)
            | Some (Some err, s) \<Rightarrow>
                andthen (m_fatalf I ''copy module %s: %v'' [AStr md, AErr err])
                  (ret \<lparr>ws_dir = d, ws_src = md\<rparr>) (w\<lparr>w_fs := s\<rparr>))))"
    proof (cases "copyTree fuel md d (w_fs w)")
      case (Some es)
      obtain e s where "es = (e, s)" by (cases es)
      moreover from this Some kept have "fs_ok s" by blast
      ultimately show ?thesis
        using Some k [of "w\<lparr>w_fs := s\<rparr>"] by (cases e) simp_all
    qed (simp add: ok)
  qed
  then show ?thesis
    unfolding NewWorkspace_def Let_def by (intro keeps_bnd temp_dir_law)
qed

lemma keeps_writeFile: "keeps_files (writeFile I dir name data)"
proof (rule keepsI)
  fix w :: "('t, 'x, 'm) world_scheme"
  assume ok: "fs_ok (w_fs w)"
  show "fs_ok (w_fs (snd (writeFile I dir name data w)))"
    using ok unfolding writeFile_def Let_def
    by (auto dest: fs_ok_result intro!: keepsD [OF keeps_errorf] keepsD [OF keeps_logf]
        split: prod.splits sum.splits)
qed

lemma keeps_writeSnapshot: "keeps_files (writeSnapshot I path content)"
proof (rule keepsI)
  fix w :: "('t, 'x, 'm) world_scheme"
  assume ok: "fs_ok (w_fs w)"
  show "fs_ok (w_fs (snd (writeSnapshot I path content w)))"
    using ok unfolding writeSnapshot_def
    by (auto dest: fs_ok_result intro!: keepsD [OF keeps_errorf] split: prod.splits sum.splits)
qed

lemma keeps_DumpArtifact: "keeps_files (DumpArtifact I dir name data)"
proof -
  have "keeps_files (\<lambda>w. let ciBase = getenv w artifactDirEnv in
       if ciBase \<noteq> [] then writeFile I (path_join [ciBase, m_name I w]) name data w else (Ret (), w))"
    by (rule keepsI) (simp add: Let_def keepsD [OF keeps_writeFile])
  then show ?thesis
    unfolding DumpArtifact_def by (rule keeps_andthen [OF keeps_writeFile])
qed

lemma keeps_rewrite: "keeps_files (andthen (writeSnapshot I path content) (m_logf I f as))"
  by (rule keeps_andthen [OF keeps_writeSnapshot keeps_logf])

lemma keeps_compare_stored: "keeps_files (compare_stored I update structural actual path want)"
  by (simp add: compare_stored_def keeps_basic keeps_errorf keeps_rewrite split: sum.splits)

lemma keeps_compareSnapshot: "keeps_files (compareSnapshot I actual path structural)"
proof (rule keepsI)
  fix w :: "('t, 'x, 'm) world_scheme"
  assume ok: "fs_ok (w_fs w)"
  show "fs_ok (w_fs (snd (compareSnapshot I actual path structural w)))"
    by (simp add: compareSnapshot_def Let_def ok keepsD [OF keeps_errorf] keepsD [OF keeps_rewrite]
        keepsD [OF keeps_compare_stored] split: sum.splits)
qed

end

lemma keeps_real_temp_dir:
  fixes rm :: "string \<Rightarrow> 'c"
  shows "keeps_files (real_temp_dir rm :: (('c, 'x, 'm) tworld, string) act)"
  unfolding real_temp_dir_def
proof (rule keeps_andthen; rule keepsI)
  fix w :: "('c, 'x, 'm) tworld"
  assume ok: "fs_ok (w_fs w)"
  have "fs_ok s" if "mkdir_temp root pre rs (w_fs w) = (r, rs', s)" for root pre rs r rs' s
    using fs_ok_mkdir_temp [OF ok, of root pre rs] that by simp
  with ok show "fs_ok (w_fs (snd (if t_temp (w_tb w) \<noteq> [] then (Ret (), w)
      else (case mkdir_temp (temp_root w) (t_name (w_tb w)) (w_rand w) (w_fs w) of
              (Inl e, rs, s) \<Rightarrow> real_fatalf ''TempDir: %v'' [AErr e] (w\<lparr>w_rand := rs, w_fs := s\<rparr>)
            | (Inr dir, rs, s) \<Rightarrow>
                real_cleanup (rm dir)
                  (on_tb (\<lambda>t. t\<lparr>t_temp := dir\<rparr>) (w\<lparr>w_rand := rs, w_fs := s\<rparr>))))))"
    by (auto simp: real_tb_defs split: prod.splits sum.splits)
next
  fix w :: "('c, 'x, 'm) tworld"
  assume ok: "fs_ok (w_fs w)"
  have "fs_ok s" if "os_mkdir dir (w_fs w) = (r, s)" for dir r s
    using fs_ok_mkdir [OF ok, of dir] that by simp
  with ok show "fs_ok (w_fs (snd (let n = Suc (t_seq (w_tb w));
                dir = t_temp (w_tb w) @ ''/'' @ seq_name n;
                w' = on_tb (\<lambda>t. t\<lparr>t_seq := n\<rparr>) w
            in case os_mkdir dir (w_fs w') of
                 (Inl e, s) \<Rightarrow> bnd (real_fatalf ''TempDir: %v'' [AErr e]) (\<lambda>_. ret dir) (w'\<lparr>w_fs := s\<rparr>)
               | (Inr _, s) \<Rightarrow> (Ret dir, w'\<lparr>w_fs := s\<rparr>))))"
    by (auto simp: real_tb_defs Let_def bnd_run split: prod.splits sum.splits)
qed

interpretation typed_real: typed_handle "real_tb rm" t_cleanups
  by unfold_locales (simp add: real_tb_def keeps_real_temp_dir)

interpretation typed_fake: typed_handle fake_iface f_cleanups
  by unfold_locales (auto simp: fake_iface_def intro: keeps_untouched)

section \<open>libtftest.New\<close>

lemma keeps_WriteInitHooks [keeps_intros]: "keeps_files (WriteInitHooks hs)"
proof (rule keepsI)
  fix w :: "('t, 'x, 'm) world_scheme"
  assume ok: "fs_ok (w_fs w)"
  have "fs_ok s'" if "mkdir_temp root pre rs (w_fs w) = (r, rs', s)" "write_hooks dir hs s = (r', s')"
    for root pre rs r rs' s dir r' s'
    using fs_ok_mkdir_temp [OF ok, of root pre rs] fs_ok_write_hooks [of s dir hs] that by simp
  moreover have "fs_ok s" if "mkdir_temp root pre rs (w_fs w) = (r, rs', s)" for root pre rs r rs' s
    using fs_ok_mkdir_temp [OF ok, of root pre rs] that by simp
  ultimately show "fs_ok (w_fs (snd (WriteInitHooks hs w)))"
    by (auto simp: WriteInitHooks_def split: prod.splits sum.splits)
qed

lemma keeps_Ping [keeps_intros]: "keeps_files (Ping d ctx)"
  by (rule keeps_untouched) (auto simp: Ping_def Let_def act_simps split: option.splits sum.splits)

lemma keeps_run_container: "keeps_files (run_container d over img spec ed)"
  by (rule keeps_untouched)
     (auto simp: run_container_def terminate_def act_simps split: option.splits prod.splits sum.splits)

lemma keeps_hook_binds: "keeps_files (hook_binds cfg)"
  by (auto simp: hook_binds_def intro!: keeps_intros split: sum.splits)

lemma keeps_started:
  "keeps_files (bnd (hook_binds cfg) (\<lambda>binds.
      case binds of
        Inl err \<Rightarrow> ret (Inl err)
      | Inr bs \<Rightarrow> (\<lambda>w'. run_container d (ctx_done w' ctx) img (spec bs) ed w')))"
proof (rule keeps_bnd [OF keeps_hook_binds])
  show "keeps_files (case binds of
        Inl err \<Rightarrow> ret (Inl err)
      | Inr bs \<Rightarrow> (\<lambda>w'. run_container d (ctx_done w' ctx) img (spec bs) ed w'))" for binds
    by (cases binds) (simp_all add: keeps_basic keepsI [OF keepsD [OF keeps_run_container]])
qed

lemma keeps_Start [keeps_intros]: "keeps_files (Start d ctx cfg)"
  unfolding Start_def Let_def
  by (intro keeps_bnd keeps_Ping)
     (simp add: keeps_basic keepsI [OF keepsD [OF keeps_started]] split: option.splits)

lemma keeps_upd_case [keeps_intros]: "keeps_files (modify (upd_case i f))"
  by (rule keeps_modify) (simp add: upd_case_def)

lemma keeps_resolveContainer: "keeps_files (resolveContainer a T ctx i)"
proof (rule keepsI)
  fix w :: "'m lt"
  assume ok: "fs_ok (w_fs w)"
  have st: "keeps_files (set_stack i c own)" for c own
    unfolding set_stack_def by (rule keeps_upd_case)
  have "keeps_files (bnd (Start a ctx cfg) (\<lambda>r.
      case r of
        Inl err \<Rightarrow> andthen (m_fatalf T ''start localstack: %v'' [AErr err]) (set_stack i None True)
      | Inr ctr \<Rightarrow> set_stack i (Some ctr) True))" for cfg
    by (auto intro!: keeps_intros st typed_real.keeps_fatalf split: sum.splits)
  then show "fs_ok (w_fs (snd (resolveContainer a T ctx i w)))"
    using ok keepsD [OF st] unfolding resolveContainer_def Let_def
    by (auto intro: keepsD split: option.splits)
qed

lemma keeps_set_up: "keeps_files (set_up a fuel T ctx i ctr opts)"
proof -
  have over: "keeps_files (write_overrides T dir url)" for dir url
  proof (rule keepsI)
    fix w :: "'m lt"
    assume ok: "fs_ok (w_fs w)"
    have "fs_ok s" if "WriteOverrides dir url (w_fs w) = (e, s)" for e s
      using fs_ok_WriteOverrides [OF ok, of dir url] that by simp
    then show "fs_ok (w_fs (snd (write_overrides T dir url w)))"
      unfolding write_overrides_def
      by (auto intro!: keepsD [OF typed_real.keeps_fatalf] split: prod.splits option.splits)
  qed
  have aws: "keeps_files (build_aws_config a T ctx url)" for url
  proof -
    have "keeps_files (load_config (a_aws a) ctx url)"
      by (rule keeps_untouched) (simp add: load_config_def Let_def act_simps)
    then show ?thesis
      unfolding build_aws_config_def
      by (auto intro!: keeps_intros typed_real.keeps_fatalf split: sum.splits)
  qed
  have reg: "keeps_files (registerCleanup T i)"
    unfolding registerCleanup_def
    by (rule keeps_at, intro keeps_andthen) (simp_all add: keeps_basic typed_real.keeps_cleanup)
  show ?thesis unfolding set_up_def Let_def
    by (intro keeps_intros typed_real.keeps_NewWorkspace over aws reg)
       (simp add: upd_case_def)
qed

lemma keeps_New: "keeps_files (New a fuel T opts :: ('m lt, nat) act)"
proof -
  have "keeps_files (andthen (modify (\<lambda>w. w\<lparr>l_cases := l_cases w @ [new_case a T opts w]\<rparr>))
     (andthen (resolveContainer a T ctx i)
     (bnd (gets (\<lambda>w. tc_stack (the_case i w))) (\<lambda>stack.
       case stack of
         None \<Rightarrow> nil_deref
       | Some ctr \<Rightarrow> andthen (set_up a fuel T ctx i ctr opts) (ret i)))) :: ('m lt, nat) act)" for ctx i
  proof (intro keeps_andthen keeps_bnd keeps_resolveContainer keeps_basic keeps_modify)
    show "keeps_files ((case stack of
         None \<Rightarrow> nil_deref
       | Some ctr \<Rightarrow> andthen (set_up a fuel T ctx i ctr opts) (ret i)) :: ('m lt, nat) act)" for stack
      by (cases stack) (simp_all add: nil_deref_def keeps_basic keeps_andthen [OF keeps_set_up])
  qed simp
  then show ?thesis
    unfolding New_def Let_def by (intro keepsI) (rule keepsD)
qed

section \<open>The property\<close>



end
