(* ===== verification/Contained.thy ===== *)
theory Contained
  imports Files_Ok
begin

text \<open>
  Where \<^verbatim>\<open>tf/workspace.go\<close> writes.  Whatever the module is (relative, unreadable, full of links
  that lead out of it or back into it) the copy writes at and below its destination only, and
  leaves no link there, so that the overrides written next stay there as well.
\<close>

section \<open>Cleaning a cleaned path\<close>

text \<open>The form \<^verbatim>\<open>filepath.Clean\<close> gives: in front some \<^verbatim>\<open>..\<close>, none when rooted, then plain names.\<close>

definition clean_form :: "bool \<Rightarrow> string list \<Rightarrow> bool" where
  "clean_form r cs \<longleftrightarrow> (\<exists>k ps. cs = replicate k ''..'' @ ps \<and> list_all plain ps \<and> (r \<longrightarrow> k = 0))"

lemma clean_form_snoc: "clean_form r cs \<Longrightarrow> plain c \<Longrightarrow> clean_form r (cs @ [c])"
proof -
  assume "clean_form r cs" and c: "plain c"
  then obtain k ps where cs: "cs = replicate k ''..'' @ ps" "list_all plain ps" "r \<longrightarrow> k = 0"
    by (auto simp: clean_form_def)
  show ?thesis
    unfolding clean_form_def by (rule exI [of _ k], rule exI [of _ "ps @ [c]"]) (use cs c in simp)
qed

lemma clean_form_names: "clean_form r cs \<Longrightarrow> list_all step_name cs"
  by (auto simp: clean_form_def step_name_def list_all_iff)

lemma clean_comps_dots: "clean_comps False (replicate j ''..'') (replicate k ''..'' @ ps) =
    clean_comps False (replicate (j + k) ''..'') ps"
proof (induction k arbitrary: j)
  case (Suc k)
  from Suc [of "Suc j"] show ?case by (cases j) auto
qed simp

lemma clean_comps_clean_form: "clean_form r cs \<Longrightarrow> clean_comps r [] cs = cs"
proof -
  assume "clean_form r cs"
  then obtain k ps where cs: "cs = replicate k ''..'' @ ps" "list_all plain ps" "r \<longrightarrow> k = 0"
    by (auto simp: clean_form_def)
  show ?thesis
  proof (cases r)
    case False
    then show ?thesis
      using cs clean_comps_dots [of 0 k ps] by (simp add: clean_comps_plain)
  qed (use cs in \<open>simp add: clean_comps_plain\<close>)
qed

lemma clean_form_clean_comps:
  "clean_form r (rev stack) \<Longrightarrow> list_all step_name cs \<Longrightarrow> clean_form r (clean_comps r stack cs)"
proof (induction cs arbitrary: stack)
  case (Cons c cs)
  show ?case
  proof (cases "c = ''..''")
    case False
    with Cons.prems have "clean_form r (rev (c # stack))"
      by (simp add: clean_form_snoc step_name_def)
    with Cons False show ?thesis by simp
  next
    case True
    show ?thesis
    proof (cases stack)
      case Nil
      have "clean_form False [''..'']"
        unfolding clean_form_def by (rule exI [of _ 1], rule exI [of _ "[]"]) simp
      moreover have "clean_form True []" by (simp add: clean_form_def)
      ultimately have "clean_form r (rev (if r then [] else [''..'']))" by simp
      with Cons.IH [OF this] Cons.prems(2) True Nil show ?thesis by simp
    next
      case (Cons t ts)
      obtain k ps where f: "rev stack = replicate k ''..'' @ ps" "list_all plain ps" "r \<longrightarrow> k = 0"
        using Cons.prems(1) by (auto simp: clean_form_def)
      show ?thesis
      proof (cases ps rule: rev_exhaust)
        case Nil
        then have "stack = replicate k ''..''" using f(1) by (metis append_Nil2 rev_replicate rev_swap)
        with Cons have t: "t = ''..''" "0 < k" by (cases k; simp)+
        have "rev (''..'' # stack) = replicate (Suc k) ''..'' @ []"
          using \<open>stack = replicate k ''..''\<close> by (simp add: replicate_append_same)
        moreover have "\<not> r" using f(3) t by simp
        ultimately have "clean_form r (rev (''..'' # stack))"
          unfolding clean_form_def by (intro exI [of _ "Suc k"] exI [of _ "[]"]) simp
        with Cons.IH Cons.prems True Cons t show ?thesis by simp
      next
        case (snoc ps' c')
        then have "t = c'" "rev ts = replicate k ''..'' @ ps'"
          using f(1) Cons by (simp_all flip: append_assoc)
        with f snoc have "t \<noteq> ''..''" "clean_form r (rev ts)"
          by (auto simp: clean_form_def)
        with Cons.IH Cons.prems True Cons show ?thesis by simp
      qed
    qed
  qed
qed simp

definition cleaned :: "string \<Rightarrow> string list" where
  "cleaned p = clean_comps (rooted p) [] (components p)"

lemma cleaned_form: "clean_form (rooted p) (cleaned p)"
  unfolding cleaned_def by (rule clean_form_clean_comps) (auto simp: clean_form_def components_names)

lemma step_nameD: "step_name c \<Longrightarrow> CHR ''/'' \<notin> set c \<and> c \<noteq> [] \<and> c \<noteq> ''.''"
  unfolding step_name_def plain_def by (elim disjE conjE) simp_all

lemma components_path_text_names:
  assumes "list_all step_name cs"
  shows "components (path_text r cs) = cs"
proof (cases "cs = []")
  case False
  have "\<forall>c\<in>set cs. CHR ''/'' \<notin> set c \<and> c \<noteq> [] \<and> c \<noteq> ''.''"
    using assms step_nameD by (simp add: list_all_iff)
  then have no: "\<forall>p\<in>set cs. CHR ''/'' \<notin> set p" and f: "filter (\<lambda>c. c \<noteq> [] \<and> c \<noteq> ''.'') cs = cs"
    by (blast, intro filter_True, blast)
  have sp: "split_on CHR ''/'' (join ''/'' cs) = cs" by (rule split_join [OF False no])
  have "components (join ''/'' cs) = cs" "components (CHR ''/'' # join ''/'' cs) = cs"
    unfolding components_def by (simp_all only: split_on.simps sp f) (simp add: f)
  then show ?thesis using False by (simp add: path_text_def)
qed (simp add: path_text_def components_def)

lemma rooted_path_text: "list_all step_name cs \<Longrightarrow> rooted (path_text r cs) = r"
proof (cases cs)
  case (Cons c cs')
  assume "list_all step_name cs"
  with Cons have "c \<noteq> []" "CHR ''/'' \<notin> set c" using step_nameD by simp_all
  then show ?thesis
    using Cons by (cases c; cases cs') (auto simp: path_text_def rooted_def has_prefix_def)
qed (simp add: path_text_def rooted_def has_prefix_def)

section \<open>The paths of a walk\<close>

text \<open>The walk names what it finds below its root by appending names; \<^verbatim>\<open>Rel\<close> gives them back.\<close>

definition found_at :: "string \<Rightarrow> string \<Rightarrow> string list \<Rightarrow> bool" where
  "found_at src path y \<longleftrightarrow> rooted path = rooted src \<and> cleaned path = cleaned src @ y \<and> list_all plain y"

lemma cleaned_path_text:
  assumes "clean_form r cs"
  shows "rooted (path_text r cs) = r" and "cleaned (path_text r cs) = cs"
  using rooted_path_text [OF clean_form_names [OF assms]]
    components_path_text_names [OF clean_form_names [OF assms]] clean_comps_clean_form [OF assms]
  by (simp_all add: cleaned_def)

lemma path_join_cleaned:
  assumes "plain c"
  shows "path_join [p, c] = path_text (rooted p) (cleaned p @ [c])"
proof -
  have c: "components c = [c]" "\<not> rooted c"
    using assms components_path_text_names [of "[c]" False] rooted_path_text [of "[c]" False]
    by (simp_all add: path_text_def step_name_def)
  show ?thesis
  proof (cases "p = []")
    case True
    have "rooted [] = False" "components [] = []"
      by (simp_all add: rooted_def has_prefix_def components_def)
    moreover have "c \<noteq> []" "c \<noteq> ''..''" using assms by (auto simp: plain_def)
    ultimately show ?thesis
      using True c by (simp add: path_join_def path_clean_def cleaned_def)
  next
    case False
    have "rooted (p @ CHR ''/'' # c) = rooted p"
      using False by (cases p) (simp_all add: rooted_def has_prefix_def)
    moreover have "c \<noteq> ''..''" using assms by (auto simp: plain_def)
    ultimately show ?thesis
      using False c by (simp add: path_join_def path_clean_def components_append_slash clean_comps_append cleaned_def)
  qed
qed

lemma found_at_root: "found_at src src []"
  by (simp add: found_at_def)

lemma found_at_entry:
  assumes "found_at src path y" and "plain c"
  shows "found_at src (path_join [path, c]) (y @ [c])"
proof -
  have f: "clean_form (rooted path) (cleaned path @ [c])"
    using cleaned_form assms(2) by (rule clean_form_snoc)
  show ?thesis
    using assms unfolding found_at_def path_join_cleaned [OF assms(2)] cleaned_path_text [OF f] by simp
qed

lemma found_at_rel: "found_at src path y \<Longrightarrow> path_rel src path = Inr (path_text False y)"
  unfolding found_at_def cleaned_def by (auto simp: path_rel_def strip_common_append)

text \<open>Every name a directory listing gives is plain.\<close>

lemma read_dir_plain:
  assumes "fs_ok s" and "os_read_dir s p = Inr ents" and "(c, n) \<in> set ents"
  shows "plain c"
proof -
  obtain q where "node_at s (q @ [c]) = Some n"
    using assms(2,3) by (auto simp: os_read_dir_def List.map_filter_def split: option.splits sum.splits node.splits)
  with assms(1) show ?thesis
    using fs_wf_node(1) [of s "q @ [c]" n] by (simp add: fs_ok_def)
qed

section \<open>Writing below a directory, away from links\<close>

text \<open>
  A directory \<open>d\<close> (it may be still to be made) with no link at the places \<open>X\<close> below it; a place
  is fit to write at when no link can be met on the way.
\<close>

definition sealed_at :: "string list set \<Rightarrow> string list \<Rightarrow> fsys \<Rightarrow> bool" where
  "sealed_at X d s \<longleftrightarrow> fs_ok s \<and> list_all plain d \<and> d \<noteq> [] \<and> node_at s (butlast d) = Some NDir \<and>
     (\<forall>x\<in>X. \<forall>t. node_at s (d @ x) \<noteq> Some (NLink t))"

definition fit :: "string list set \<Rightarrow> string list \<Rightarrow> bool" where
  "fit X x \<longleftrightarrow> list_all plain x \<and> (\<forall>k. take k x \<in> X)"

text \<open>Nothing changed but at and below \<open>d\<close>.\<close>

definition within_at :: "string list set \<Rightarrow> string list \<Rightarrow> fsys \<Rightarrow> fsys \<Rightarrow> bool" where
  "within_at X d s s' \<longleftrightarrow> sealed_at X d s' \<and> cwd s' = cwd s \<and> umask s' = umask s \<and> fault s' = fault s \<and>
     (\<forall>p. \<not> under d p \<longrightarrow> node_at s' p = node_at s p)"

text \<open>No link anywhere below \<open>d\<close>.\<close>

abbreviation sealed :: "string list \<Rightarrow> fsys \<Rightarrow> bool" where
  "sealed \<equiv> sealed_at UNIV"

abbreviation within :: "string list \<Rightarrow> fsys \<Rightarrow> fsys \<Rightarrow> bool" where
  "within \<equiv> within_at UNIV"

lemma fit_UNIV [simp]: "fit UNIV x \<longleftrightarrow> list_all plain x"
  by (simp add: fit_def)

lemma fit_plain: "fit X x \<Longrightarrow> list_all plain x"
  by (simp add: fit_def)

lemma fit_in: "fit X x \<Longrightarrow> take k x \<in> X"
  by (simp add: fit_def)

lemma fit_take: "fit X x \<Longrightarrow> fit X (take k x)"
  by (auto simp: fit_def list_all_iff dest: in_set_takeD)

lemma fit_self: "fit X x \<Longrightarrow> x \<in> X"
  using fit_in [of X x "length x"] by simp

lemma sealed_mono: "sealed_at X d s \<Longrightarrow> Y \<subseteq> X \<Longrightarrow> sealed_at Y d s"
  by (auto simp: sealed_at_def)

lemma within_mono: "within_at X d s s' \<Longrightarrow> Y \<subseteq> X \<Longrightarrow> within_at Y d s s'"
  using sealed_mono by (auto simp: within_at_def)

lemma within_refl: "sealed_at X d s \<Longrightarrow> within_at X d s s"
  by (simp add: within_at_def)

lemma within_trans: "within_at X d s s1 \<Longrightarrow> within_at X d s1 s2 \<Longrightarrow> within_at X d s s2"
  by (simp add: within_at_def)

lemma within_sealed: "within_at X d s s' \<Longrightarrow> sealed_at X d s'"
  by (simp add: within_at_def)

lemma sealed_prefix:
  assumes "sealed_at X d s" and "fit X x"
  shows "(\<exists>y. take k (d @ x) = d @ y \<and> fit X y) \<or> node_at s (take k (d @ x)) = Some NDir"
proof (cases "length d \<le> k")
  case True
  have "fit X (take (k - length d) x)" using assms(2) by (rule fit_take)
  with True show ?thesis by (intro disjI1 exI [of _ "take (k - length d) x"]) simp
next
  case False
  then have "take k (d @ x) = take k (butlast d)" by (simp add: take_butlast)
  moreover have "dir_chain s (butlast d)"
    using assms(1) by (intro dir_chain_wf) (simp_all add: sealed_at_def fs_ok_def)
  ultimately show ?thesis
    using False by (simp add: dir_chain_def)
qed

lemma walk_links_straight:
  assumes "list_all plain (dest @ cs)"
    and "\<And>k t. length dest < k \<Longrightarrow> node_at s (take k (dest @ cs)) \<noteq> Some (NLink t)"
    and "walk_links s follow create links True dest cs = Inr (r', dest')"
  shows "r' \<and> dest' = dest @ cs"
  using assms
proof (induction cs arbitrary: dest)
  case (Cons c cs)
  have c: "c \<noteq> ''..''" "place s True (dest @ [c]) = dest @ [c]"
    using Cons.prems(1) by auto
  have "node_at s (dest @ [c]) \<noteq> Some (NLink t)" for t
    using Cons.prems(2) [of "Suc (length dest)" t] by simp
  moreover have "r' \<and> dest' = dest @ [c] @ cs" if "node_at s (dest @ [c]) = Some NDir"
    using Cons.IH [of "dest @ [c]"] Cons.prems c that by simp
  ultimately show ?case
    using Cons.prems(3) c by (auto split: option.splits node.splits if_splits)
qed simp

lemma sealed_straight:
  assumes "sealed_at X d s" and "fit X x"
    and "walk_links s follow create links True [] (take k (d @ x)) = Inr (r', dest')"
  shows "r' \<and> dest' = take k (d @ x)"
proof -
  have a: "list_all plain (take k (d @ x))"
    using assms fit_plain [OF assms(2)] by (auto simp: sealed_at_def list_all_iff dest!: in_set_takeD)
  have b: "node_at s (take j (take k (d @ x))) \<noteq> Some (NLink t)" for j t
    using sealed_prefix [OF assms(1,2), of "min j k"] assms(1)
    unfolding sealed_at_def take_take by (elim disjE exE conjE) (simp_all del: take_append add: fit_self)
  have "r' \<and> dest' = [] @ take k (d @ x)"
    by (rule walk_links_straight [of "[]"]) (use a b assms(3) in \<open>simp_all del: take_append take_take\<close>)
  then show ?thesis by (simp only: append_Nil)
qed

lemma sealed_locate:
  assumes "sealed_at X d s" and "fit X x" and "locate s follow create (abs_text (d @ x)) = Inr q"
  shows "q = d @ x"
proof -
  have p: "list_all plain (d @ x)" using assms fit_plain [OF assms(2)] by (simp add: sealed_at_def)
  then obtain r' dest' where w: "walk_links s follow create 40 True [] (d @ x) = Inr (r', dest')" "q = place s r' dest'"
    using assms(3) by (auto simp: locate_def split: sum.splits)
  with sealed_straight [OF assms(1,2), of follow create 40 "length (d @ x)"] p show ?thesis by simp
qed

lemma within_set_node:
  assumes "sealed_at X d s" and "spot s (d @ x)" and "node_at s (d @ x) \<noteq> Some NDir" and "\<And>t. n \<noteq> NLink t"
  shows "within_at X d s (set_node (d @ x) n s)"
proof -
  have ne: "d @ x \<noteq> []" using assms(1) by (simp add: sealed_at_def)
  have "length (butlast d) \<noteq> length (d @ x)"
    using assms(1) by (cases d) (simp_all add: sealed_at_def)
  then have "butlast d \<noteq> d @ x" by metis
  moreover have "fs_ok (set_node (d @ x) n s)"
    using assms by (intro fs_ok_set_node) (simp_all add: sealed_at_def)
  ultimately show ?thesis
    using assms(1,4) ne by (auto simp: within_at_def sealed_at_def node_at_set_node)
qed

lemma within_open_trunc:
  assumes "sealed_at X d s" and "fit X x" and "os_open_trunc (abs_text (d @ x)) mode s = (r, s')"
  shows "within_at X d s s' \<and> (\<forall>q. r = Inr q \<longrightarrow> q = d @ x)"
proof (cases "locate s True True (abs_text (d @ x))")
  case (Inl e)
  then show ?thesis
    using assms(3) within_refl [OF assms(1)] by (auto simp: os_open_trunc_def split: option.splits)
next
  case (Inr q)
  then have q: "q = d @ x" "spot s (d @ x)"
    using sealed_locate [OF assms(1,2) Inr] locate_spot [OF _ Inr] assms(1) by (simp_all add: sealed_at_def)
  note w = within_set_node [OF assms(1) q(2)]
  show ?thesis
    using assms(3) within_refl [OF assms(1)] Inr q(1) w
    by (auto simp: os_open_trunc_def split: option.splits node.splits)
qed

lemma within_put_content:
  assumes "sealed_at X d s"
  shows "within_at X d s (put_content (d @ x) data s)"
  using assms within_refl [OF assms] spot_node [of s "d @ x"]
  by (auto simp: put_content_def sealed_at_def intro!: within_set_node [OF assms] split: option.splits node.splits)

lemma within_write_file:
  assumes "sealed_at X d s" and "fit X x" and "os_write_file (abs_text (d @ x)) data mode s = (r, s')"
  shows "within_at X d s s'"
proof -
  obtain q s1 where o: "os_open_trunc (abs_text (d @ x)) mode s = (q, s1)" by fastforce
  note w = within_open_trunc [OF assms(1,2) o]
  have s1: "within_at X d s s1" using w by blast
  have "within_at X d s (put_content (d @ x) data s1)"
    by (rule within_trans [OF s1 within_put_content [OF within_sealed [OF s1]]])
  with w o assms(3) show ?thesis
    by (auto simp: os_write_file_def split: sum.splits option.splits)
qed

lemma within_mkdir_each:
  assumes "fit X x" and "sealed_at X d s" and "pre @ cs = d @ x" and "mkdir_each s True pre cs = (r, s')"
  shows "within_at X d s s'"
  using assms(2-)
proof (induction cs arbitrary: pre s)
  case Nil
  then show ?case by (simp add: within_refl)
next
  case (Cons c cs)
  have k: "take (Suc (length pre)) (d @ x) = pre @ [c]"
    using Cons.prems(2) by (metis append_Cons append_Nil append_assoc append_eq_conv_conj length_append_singleton)
  show ?case
  proof (cases "walk_links s True True 40 True [] (pre @ [c])")
    case (Inl e)
    with Cons.prems show ?thesis by (simp add: within_refl)
  next
    case (Inr rd)
    obtain r' dest where rd: "rd = (r', dest)" by (cases rd)
    have ok: "fs_ok s" using Cons.prems(1) by (simp add: sealed_at_def)
    have "list_all plain (pre @ c # cs)"
      unfolding Cons.prems(2) using Cons.prems(1) fit_plain [OF assms(1)] by (simp add: sealed_at_def)
    then have names: "list_all plain (pre @ [c])" by simp
    have dest: "r'" "dest = pre @ [c]"
      using sealed_straight [OF Cons.prems(1) assms(1), of True True 40 "Suc (length pre)"] Inr rd k by simp_all
    have pl: "place s r' dest = pre @ [c]" using dest names by simp
    have sp: "spot s (pre @ [c])"
      using walk_links_spot [OF ok reached_start [OF ok] _ Inr [unfolded rd]] names pl
      by (simp add: list_all_iff step_name_def)
    show ?thesis
    proof (cases "node_at s (pre @ [c])")
      case None
      then obtain y where y: "pre @ [c] = d @ y"
        using sealed_prefix [OF Cons.prems(1) assms(1), of "Suc (length pre)"] k by auto
      have w: "within_at X d s (set_node (pre @ [c]) NDir s)"
        unfolding y by (rule within_set_node [OF Cons.prems(1)]) (use sp None y in simp_all)
      show ?thesis
        using Cons.IH [OF within_sealed [OF w], of "pre @ [c]"] Cons.prems(2,3) None Inr rd pl
          within_trans [OF w] by simp
    next
      case (Some n)
      then show ?thesis
        using Cons.IH [OF Cons.prems(1), of "pre @ [c]"] Cons.prems Inr rd pl within_refl
        by (cases n) auto
    qed
  qed
qed

lemma within_mkdir_all:
  assumes "sealed_at X d s" and "fit X x" and "os_mkdir_all (abs_text (d @ x)) s = (r, s')"
  shows "within_at X d s s'"
proof -
  have p: "list_all plain (d @ x)" using assms(1) fit_plain [OF assms(2)] by (simp add: sealed_at_def)
  show ?thesis
    using within_mkdir_each [OF assms(2,1), of "[]" "d @ x"] within_refl [OF assms(1)] assms(3) p
    by (auto simp: os_mkdir_all_def split: option.splits)
qed

lemma within_mkdir_parent:
  assumes "sealed_at X d s" and "fit X x" and "os_mkdir_all (path_dir (abs_text (d @ x))) s = (r, s')"
  shows "within_at X d s s'"
proof (cases x rule: rev_exhaust)
  case (snoc y c)
  then have "fit X y" using fit_take [OF assms(2), of "length y"] by simp
  moreover have "path_dir (abs_text (d @ x)) = abs_text (d @ y)"
    using path_dir_abs_text [of "d @ y" c] assms(1) fit_plain [OF assms(2)] snoc by (simp add: sealed_at_def)
  ultimately show ?thesis using within_mkdir_all [OF assms(1)] assms(3) by simp
next
  case Nil
  have d: "list_all plain (butlast d)" "plain (last d)" "d = butlast d @ [last d]" "dir_chain s (butlast d)"
    using assms(1) dir_chain_wf [of s "butlast d"]
    by (auto simp: sealed_at_def fs_ok_def list_all_iff dest: in_set_butlastD)
  have "path_dir (abs_text (d @ x)) = abs_text (butlast d)"
    using path_dir_abs_text [OF d(1,2)] d(3) Nil by simp
  then have "s' = s"
    using assms(3) mkdir_all_existing [OF d(1,4)] by (cases "fault s ''mkdir'' (abs_text (butlast d))")
      (auto simp: os_mkdir_all_def)
  then show ?thesis using within_refl [OF assms(1)] by simp
qed

lemma within_copyFile:
  assumes "sealed_at X d s" and "fit X x" and "copyFile src (abs_text (d @ x)) s = (e, s')"
  shows "within_at X d s s'"
proof -
  obtain r1 s1 where mk: "os_mkdir_all (path_dir (abs_text (d @ x))) s = (r1, s1)" by fastforce
  note w1 = within_mkdir_parent [OF assms(1,2) mk] and s1 = within_sealed [OF within_mkdir_parent [OF assms(1,2) mk]]
  have w2: "within_at X d s s2 \<and> (\<forall>q. r = Inr q \<longrightarrow> within_at X d s (put_content q data s2))"
    if o: "os_open_trunc (abs_text (d @ x)) mode s1 = (r, s2)" for mode r s2 data
  proof -
    note t = within_open_trunc [OF s1 assms(2) o]
    have w: "within_at X d s s2" using within_trans [OF w1] t by blast
    from within_trans [OF w within_put_content [OF within_sealed [OF w]]] w t show ?thesis by metis
  qed
  show ?thesis
    using assms(3) mk w1 within_refl [OF assms(1)]
    by (auto simp: copyFile_def dest: w2 split: sum.splits option.splits prod.splits)
qed

section \<open>The copy\<close>

definition contained :: "string list \<Rightarrow> copier \<Rightarrow> bool" where
  "contained d rec \<longleftrightarrow>
     (\<forall>src x s e s'. fit UNIV x \<longrightarrow> sealed d s \<longrightarrow> rec src (abs_text (d @ x)) s = Some (e, s') \<longrightarrow>
        within d s s')"

lemma within_copySymlink:
  assumes "contained d rec" and "sealed d (fst st)" and "fit UNIV x"
    and "copySymlink rec path (abs_text (d @ x)) st = Some (e, st')"
  shows "within d (fst st) (fst st')"
  using assms within_refl [OF assms(2)] within_copyFile [OF assms(2,3)]
  by (auto simp: copySymlink_def contained_def Let_def split: sum.splits if_splits prod.splits)

text \<open>One entry, found at \<open>y\<close> below the source, is copied to \<open>y\<close> below the target.\<close>

lemma within_copy_entry:
  assumes "contained d rec" and "sealed d (fst st)" and "fit UNIV x" and "found_at src path y"
    and "copy_entry rec src (abs_text (d @ x)) st path n err = Some (r, st')"
  shows "within d (fst st) (fst st')"
proof -
  have y: "fit UNIV (x @ y)" and d: "list_all plain (d @ x)"
    using assms(2-4) by (simp_all add: found_at_def sealed_at_def)
  have target: "path_rel src path = Inr (path_text False y)"
      "path_join [abs_text (d @ x), path_text False y] = abs_text (d @ (x @ y))"
    using found_at_rel [OF assms(4)] path_join_abs_text [OF d, of y] y by simp_all
  show ?thesis
    using assms(5) within_refl [OF assms(2)] within_copyFile [OF assms(2) y] within_mkdir_all [OF assms(2) y]
      within_copySymlink [OF assms(1,2) y]
    by (auto simp: copy_entry_def target Let_def split: option.splits node.splits prod.splits sum.splits)
qed

text \<open>The walk of a copy: what was found is named by plain names below the source, entry by entry.\<close>

lemma copy_entry_inv:
  assumes "contained d rec" and "fit UNIV x"
  shows "walk_inv fst (copy_entry rec src (abs_text (d @ x))) (\<lambda>st. within d s (fst st)) (\<lambda>p. \<exists>y. found_at src p y)"
  unfolding walk_inv_def
proof (intro conjI allI impI)
  fix st path n err r st'
  assume w: "within d s (fst st)" and "\<exists>y. found_at src path y"
    and run: "copy_entry rec src (abs_text (d @ x)) st path n err = Some (r, st')"
  then obtain y where y: "found_at src path y" by blast
  from within_copy_entry [OF assms(1) within_sealed [OF w] assms(2) y run]
  show "within d s (fst st')" by (rule within_trans [OF w])
next
  fix st :: "fsys \<times> string list" and path ents c n
  assume w: "within d s (fst st)" and at: "\<exists>y. found_at src path y"
    and ents: "os_read_dir (fst st) path = Inr ents" "(c, n) \<in> set ents"
  have "plain c"
    using read_dir_plain [OF _ ents] within_sealed [OF w] by (simp add: sealed_at_def)
  with at show "\<exists>y. found_at src (path_join [path, c]) y"
    using found_at_entry by blast
qed

lemma contained_copyTree: "contained d (copyTree fuel)"
proof (induction fuel)
  case (Suc fuel)
  show ?case unfolding contained_def
  proof (intro allI impI)
    fix src x s e s'
    assume x: "fit UNIV x" and s: "sealed d s" and run: "copyTree (Suc fuel) src (abs_text (d @ x)) s = Some (e, s')"
    then obtain st where st: "walk fst (Suc fuel) (copy_entry (copyTree fuel) src (abs_text (d @ x))) src (s, []) = Some (e, st)"
      "s' = fst st" by auto
    show "within d s s'"
      using walk_keeps [OF copy_entry_inv [OF Suc x] st(1)] within_refl [OF s] found_at_root st(2) by fastforce
  qed
qed (simp add: contained_def)

section \<open>The workspace of a test\<close>

lemma within_mkdir:
  assumes "sealed d s" and "fit UNIV x" and "os_mkdir (abs_text (d @ x)) s = (r, s')"
  shows "within d s s'"
proof (cases "locate s False True (abs_text (d @ x))")
  case (Inl e)
  then show ?thesis
    using assms(3) within_refl [OF assms(1)] by (auto simp: os_mkdir_def split: option.splits)
next
  case (Inr q)
  then have q: "q = d @ x" "spot s (d @ x)"
    using sealed_locate [OF assms(1,2) Inr] locate_spot [OF _ Inr] assms(1) by (simp_all add: sealed_at_def)
  then show ?thesis
    using assms(3) within_refl [OF assms(1)] Inr within_set_node [OF assms(1) q(2)]
    by (auto simp: os_mkdir_def split: option.splits)
qed

lemma within_mkdir_temp:
  assumes "sealed d s" and "node_at s d = None" and "path_join [root, pre @ n] = abs_text d"
    and "mkdir_temp root pre (n # rs) s = (r, rs', s')"
  shows "within d s s' \<and> (\<forall>p. r = Inr p \<longrightarrow> p = abs_text d)"
proof (cases "locate s False True (abs_text d)")
  case (Inl e)
  then show ?thesis
    using assms(3,4) within_refl [OF assms(1)] by (auto simp: Let_def split: option.splits)
next
  case (Inr q)
  then have q: "q = d" using sealed_locate [OF assms(1), of "[]"] by simp
  have "spot s d" using locate_spot [OF _ Inr] assms(1) q by (simp add: sealed_at_def)
  then show ?thesis
    using assms(2-4) within_refl [OF assms(1)] Inr q within_set_node [OF assms(1), of "[]" NDir]
    by (auto simp: Let_def split: option.splits)
qed

lemma within_WriteOverrides:
  assumes "sealed d s" and "fit UNIV x"
  shows "within d s (snd (WriteOverrides (abs_text (d @ x)) url s))"
proof -
  have d: "list_all plain (d @ x)" using assms by (simp add: sealed_at_def)
  have p: "path_join [abs_text (d @ x), f] = abs_text (d @ (x @ [f]))" "fit UNIV (x @ [f])" if "plain f" for f
    using path_join_abs_text1 [OF d that] assms(2) that by simp_all
  have f: "plain providerOverrideFile" "plain backendOverrideFile"
    by (simp_all add: plain_def providerOverrideFile_def backendOverrideFile_def)
  note step = within_write_file [OF _ p(2)]
  show ?thesis
    using within_refl [OF assms(1)]
    by (auto simp: WriteOverrides_def p(1) [OF f(1)] p(1) [OF f(2)] dest!: step [OF assms(1) f(1)]
        dest: within_trans step [OF within_sealed f(2)] split: sum.splits prod.splits)
qed

text \<open>The directory a fresh test gets for itself, and \<^verbatim>\<open>TempDir\<close> and the copy in it.\<close>

definition own_dir :: "'m lt \<Rightarrow> string list \<Rightarrow> string \<Rightarrow> string list" where
  "own_dir w r x = r @ [t_name (w_tb w) @ x]"

lemma TempDir_within:
  fixes w :: "'m lt"
  assumes "Setup.fresh_test w r x" and "sealed (own_dir w r x) (w_fs w)" and "node_at (w_fs w) (own_dir w r x) = None"
    and "m_temp_dir T w = (oc, w')"
  shows "within (own_dir w r x) (w_fs w) (w_fs w') \<and>
     (\<forall>p. oc = Ret p \<longrightarrow> p = abs_text (own_dir w r x @ [''001'']))"
proof -
  let ?d = "own_dir w r x"
  have "list_all plain ?d" using assms(2) by (simp add: sealed_at_def)
  then have j: "path_join [temp_root w, t_name (w_tb w) @ x] = abs_text ?d"
    using assms(1) path_join_abs_text1 [of r "t_name (w_tb w) @ x"] by (simp add: Setup.fresh_test_def own_dir_def)
  obtain rs where rs: "w_rand w = x # rs" using assms(1) by (cases "w_rand w") (auto simp: Setup.fresh_test_def)
  obtain r1 rs1 s1 where mk: "mkdir_temp (temp_root w) (t_name (w_tb w)) (w_rand w) (w_fs w) = (r1, rs1, s1)"
    by (metis surj_pair)
  have w1: "within ?d (w_fs w) s1" "\<forall>p. r1 = Inr p \<longrightarrow> p = abs_text ?d"
    using within_mkdir_temp [OF assms(2,3) j mk [unfolded rs]] by blast+
  have num: "abs_text ?d @ ''/001'' = abs_text (?d @ [''001''])"
    using abs_text_snoc [of ?d "''001''"] assms(2) by (simp add: sealed_at_def)
  have "seq_name (Suc 0) = ''001''" by (simp add: seq_name_def nat_digits.simps digit_def eval_nat_numeral)
  moreover have "within ?d (w_fs w) s2" if "os_mkdir (abs_text (?d @ [''001''])) s1 = (r2, s2)" for r2 s2
    using within_trans [OF w1(1) within_mkdir [OF within_sealed [OF w1(1)] _ that]] by (simp add: plain_def)
  ultimately show ?thesis
    using assms(1,4) w1 num mk
    by (auto simp: real_tb_defs real_temp_dir_def act_simps Let_def Setup.fresh_test_def split: sum.splits prod.splits)
qed

lemma NewWorkspace_within:
  fixes w :: "'m lt"
  assumes "Setup.fresh_test w r x" and "sealed (own_dir w r x) (w_fs w)" and "node_at (w_fs w) (own_dir w r x) = None"
    and "NewWorkspace fuel T md w = (oc, w')"
  shows "within (own_dir w r x) (w_fs w) (w_fs w') \<and>
     (\<forall>work. oc = Ret work \<longrightarrow> ws_dir work = abs_text (own_dir w r x @ [''001'', ''module'']))"
proof -
  let ?d = "own_dir w r x"
  obtain oc1 w1 where t: "m_temp_dir T w = (oc1, w1)" by fastforce
  note td = TempDir_within [OF assms(1-3) t]
  show ?thesis
  proof (cases oc1)
    case (Ret p)
    have p: "p = abs_text (?d @ [''001''])" using td Ret by blast
    have dst: "path_join [p, ''module''] = abs_text (?d @ [''001'', ''module''])"
      using path_join_abs_text1 [of "?d @ [''001'']" "''module''"] assms(2) by (simp add: p sealed_at_def plain_def)
    have pl: "fit UNIV [''001'', ''module'']" by (simp add: plain_def)
    have "within ?d (w_fs w) s" if "copyTree fuel md (abs_text (?d @ [''001'', ''module''])) (w_fs w1) = Some (e, s)" for e s
      using within_trans contained_copyTree [unfolded contained_def, rule_format, OF pl _ that] td within_sealed by blast
    then show ?thesis
      using assms(4) t Ret dst td
      by (auto simp: NewWorkspace_def bnd_run andthen_run ret_run real_tb_defs Let_def split: option.splits)
  qed (use assms(4) t td in \<open>auto simp: NewWorkspace_def bnd_run\<close>)
qed

text \<open>
  C7.  The set-up of a test writes in the test's own directory only.  Whatever the module is
  (relative, with links that lead out of it, with files that cannot be read) and whichever
  calls fail, \<^verbatim>\<open>NewWorkspace\<close> and the overrides written after it leave every file, directory
  and link outside the temporary directory of the test as it was, the module included, and
  the workspace holds no link through which Terraform could write elsewhere.
\<close>

theorem workspace_stays_in_its_directory:
  fixes w :: "'m lt"
  assumes "Setup.fresh_test w r x" and "sealed (own_dir w r x) (w_fs w)" and "node_at (w_fs w) (own_dir w r x) = None"
    and "NewWorkspace fuel T md w = (oc, w')"
  shows "within (own_dir w r x) (w_fs w) (w_fs w') \<and>
     (\<forall>work. oc = Ret work \<longrightarrow>
        within (own_dir w r x) (w_fs w) (snd (WriteOverrides (ws_dir work) url (w_fs w'))))"
proof -
  note ws = NewWorkspace_within [OF assms]
  have pl: "fit UNIV [''001'', ''module'']" by (simp add: plain_def)
  have "within (own_dir w r x) (w_fs w) (w_fs w')" using ws by blast
  from this within_trans [OF this within_WriteOverrides [OF within_sealed [OF this] pl]] ws
  show ?thesis by auto
qed

definition linked_lw :: "unit lt" where
  "linked_lw = demo_lw\<lparr>w_fs := twin_tree\<rparr>"

theorem workspace_stays_in_its_directory_witness:
  "node_at (w_fs (snd (NewWorkspace 5 T ''/m'' linked_lw))) [''f''] = Some (NFile ''x'' 420)"
proof -
  have fs: "w_fs linked_lw = twin_tree" and d: "own_dir linked_lw [''tmp''] ''1'' = [''tmp'', ''TestX1'']"
    by (simp_all add: linked_lw_def own_dir_def demo_lw_def demo_T_def)
  have fresh: "Setup.fresh_test linked_lw [''tmp''] ''1''"
    by (simp add: Setup.fresh_test_def linked_lw_def demo_lw_def demo_T_def temp_root_def getenv_def
        abs_text_def path_text_def)
  have ok: "fs_ok twin_tree"
    by (simp add: fs_ok_def fs_wf_def twin_tree_def keys_distinct_def plain_def node_at_def)
  have at: "node_at twin_tree [''tmp''] = Some NDir" "node_at twin_tree ([''tmp'', ''TestX1''] @ y) = None" for y
    by (simp_all add: twin_tree_def node_at_def)
  have sealed: "sealed [''tmp'', ''TestX1''] twin_tree"
    using ok at by (simp add: sealed_at_def plain_def)
  obtain oc w' where run: "NewWorkspace 5 T ''/m'' linked_lw = (oc, w')" by fastforce
  have "within [''tmp'', ''TestX1''] twin_tree (w_fs w')"
    using workspace_stays_in_its_directory [OF fresh _ _ run] sealed at(2) [of "[]"] by (simp add: d fs)
  then have "node_at (w_fs w') [''f''] = node_at twin_tree [''f'']"
    by (simp add: within_at_def under_def)
  then show ?thesis
    by (simp add: run) (simp add: twin_tree_def node_at_def)
qed

end
