(* ===== verification/Copy_Ends.thy ===== *)
theory Copy_Ends
  imports Contained
begin

text \<open>
  When \<^verbatim>\<open>copyTree\<close> ends.  A module that links to one of its own directories is copied for ever
  (theory \<^verbatim>\<open>Workspace\<close>); one whose links lead to files, or nowhere, is not: the copy returns,
  with or without an error, after no more nested calls than the module is deep.
\<close>

text \<open>
  No link of the module leads to a directory, whatever the copy has put at its destination.
  The module and the destination are apart.
\<close>

definition links_to_files :: "fsys \<Rightarrow> string list \<Rightarrow> string list \<Rightarrow> bool" where
  "links_to_files s q d \<longleftrightarrow>
     (\<forall>x t s' target. node_at s (q @ x) = Some (NLink t) \<longrightarrow> within d s s' \<longrightarrow>
        eval_symlinks s' (abs_text (q @ x)) = Inr target \<longrightarrow> os_stat s' target \<noteq> Inr NDir)"

definition apart :: "fsys \<Rightarrow> string list \<Rightarrow> string list \<Rightarrow> bool" where
  "apart s q d \<longleftrightarrow> sealed d s \<and> list_all plain q \<and> \<not> under d q \<and> \<not> under q d"

lemma apart_same: "apart s q d \<Longrightarrow> within d s s' \<Longrightarrow> node_at s' (q @ x) = node_at s (q @ x)"
  using not_under_disjoint by (simp add: apart_def within_at_def)

lemma found_at_abs: "list_all plain (q @ y) \<Longrightarrow> found_at (abs_text q) (abs_text (q @ y)) y"
  by (simp add: found_at_def cleaned_def clean_comps_plain)

lemma plain_entry: "apart s q d \<Longrightarrow> node_at s (q @ y) \<noteq> None \<Longrightarrow> list_all plain (q @ y)"
  using fs_wf_node(1) [of s "q @ y"] by (cases "q @ y = []") (auto simp: apart_def sealed_at_def fs_ok_def)

lemma copySymlink_returns:
  assumes "\<And>target. eval_symlinks (fst st) path = Inr target \<Longrightarrow> os_stat (fst st) target \<noteq> Inr NDir"
  shows "copySymlink rec path dst st \<noteq> None"
  using assms by (auto simp: copySymlink_def Let_def split: sum.split prod.split)

lemma copy_entry_returns:
  assumes "apart s q d" and "links_to_files s q d" and "within d s (fst st)"
    and "err = None \<Longrightarrow> node_at s (q @ y) = n \<and> n \<noteq> None"
  shows "copy_entry rec src dst st (abs_text (q @ y)) n err \<noteq> None"
proof (cases err)
  case None
  then obtain m where m: "n = Some m" "node_at s (q @ y) = Some m" using assms(4) by auto
  have link: "copySymlink rec (abs_text (q @ y)) t st \<noteq> None" if "m = NLink l" for t l
    using assms(2,3) m(2) that unfolding links_to_files_def by (intro copySymlink_returns) blast
  show ?thesis
  proof (cases m)
    case (NLink l)
    with None m(1) link [OF NLink] show ?thesis
      by (simp add: copy_entry_def Let_def split: sum.split del: not_None_eq)
  qed (use None m(1) in \<open>auto simp: copy_entry_def Let_def split: sum.split prod.split\<close>)
qed (simp add: copy_entry_def)

lemma listed_entry:
  assumes "apart s q d" and "within d s s'" and "node_at s (q @ y) = Some NDir"
    and "os_read_dir s' (abs_text (q @ y)) = Inr ents" and "(c, m) \<in> set ents"
  shows "node_at s (q @ (y @ [c])) = Some m"
proof -
  have ok: "fs_wf s'" using assms(2) by (simp add: within_at_def sealed_at_def fs_ok_def)
  have pl: "list_all plain (q @ y)" using plain_entry [OF assms(1), of y] assms(3) by simp
  have at: "node_at s' (q @ y) = Some NDir" using apart_same [OF assms(1,2)] assms(3) by simp
  have "q @ y \<noteq> [] \<longrightarrow> dir_chain s' (butlast (q @ y))"
    using dir_chain_wf [OF ok] fs_wf_node(2) [OF ok at] by blast
  then have "locate s' True False (abs_text (q @ y)) = Inr (q @ y)"
    using locate_node [OF pl _ at] by simp
  then have "node_at s' (q @ (y @ [c])) = Some m"
    using assms(4,5) at by (auto simp: os_read_dir_def List.map_filter_def split: option.splits)
  then show ?thesis using apart_same [OF assms(1,2)] by metis
qed

lemma walk_returns:
  assumes apart: "apart s q d" and links: "links_to_files s q d" and rec: "contained d rec" and x: "list_all plain x"
  shows "within d s (fst st) \<Longrightarrow> node_at s (q @ y) = Some n \<Longrightarrow>
     \<forall>z. node_at s (q @ z) \<noteq> None \<longrightarrow> length z < fuel + length y \<Longrightarrow>
     walk_dir fst fuel (copy_entry rec (abs_text q) (abs_text (d @ x))) (abs_text (q @ y)) n st \<noteq> None"
proof (induction fuel arbitrary: st y n)
  case 0
  then show ?case by auto
next
  case (Suc fuel)
  let ?fn = "copy_entry rec (abs_text q) (abs_text (d @ x))"
  have inv: "walk_inv fst ?fn (\<lambda>st. within d s (fst st)) (\<lambda>p. \<exists>y. found_at (abs_text q) p y)"
    by (rule copy_entry_inv [OF rec]) (simp add: x)
  have entry: "?fn st (abs_text (q @ y)) (Some n) err \<noteq> None" if "within d s (fst st)" for st err
    using copy_entry_returns [OF apart links that] Suc.prems(2) by simp
  have path: "found_at (abs_text q) (abs_text (q @ y)) y"
    using found_at_abs [of q y] plain_entry [OF apart, of y] Suc.prems(2) by simp
  obtain r1 st1 where first: "?fn st (abs_text (q @ y)) (Some n) None = Some (r1, st1)"
    using entry [OF Suc.prems(1), of None] by auto
  have w1: "within d s (fst st1)"
    using inv Suc.prems(1) path first unfolding walk_inv_def by blast
  have entries: "walk_entries fst fuel ?fn (abs_text (q @ y)) ents st2 \<noteq> None"
    if "within d s (fst st2)" "\<And>c m. (c, m) \<in> set ents \<Longrightarrow> node_at s (q @ (y @ [c])) = Some m" for ents st2
    using that
  proof (induction ents arbitrary: st2)
    case (Cons e ents)
    obtain c m where e: "e = (c, m)" by (cases e)
    then have at: "node_at s (q @ (y @ [c])) = Some m" using Cons.prems(2) by simp
    have pl: "list_all plain (q @ (y @ [c]))" using plain_entry [OF apart, of "y @ [c]"] at by simp
    then have p: "path_join [abs_text (q @ y), c] = abs_text (q @ (y @ [c]))"
      using path_join_abs_text1 [of "q @ y" c] by simp
    obtain r3 st3 where one: "walk_dir fst fuel ?fn (abs_text (q @ (y @ [c]))) m st2 = Some (r3, st3)"
      using Suc.IH [OF Cons.prems(1) at] Suc.prems(3) by auto
    have "within d s (fst st3)"
      using walk_dir_keeps(1) [OF inv one Cons.prems(1)] found_at_abs [OF pl] by blast
    then have "walk_entries fst fuel ?fn (abs_text (q @ y)) ents st3 \<noteq> None"
      using Cons.IH Cons.prems(2) by simp
    with one p e show ?case by (cases r3) auto
  qed simp
  show ?case
  proof (cases "r1 = WOk \<and> n = NDir")
    case False
    with first show ?thesis by (cases r1) auto
  next
    case True
    show ?thesis
    proof (cases "os_read_dir (fst st1) (abs_text (q @ y))")
      case (Inl err)
      then show ?thesis
        using True first entry [OF w1, of "Some err"] by (auto split: option.split walk_ret.split)
    next
      case (Inr ents)
      have "node_at s (q @ (y @ [c])) = Some m" if "(c, m) \<in> set ents" for c m
        using listed_entry [OF apart w1 _ Inr that] Suc.prems(2) True by simp
      with Inr True first show ?thesis using entries [OF w1] by simp
    qed
  qed
qed

text \<open>
  C35.  The copy ends.  For a module, apart from the destination, whose links lead to files or
  nowhere, \<^verbatim>\<open>copyTree\<close> returns, whichever of its calls fail, however the files cannot be read:
  fuel above the depth of the module is enough.
\<close>

theorem copy_of_links_to_files_ends:
  assumes "apart s q d" and "links_to_files s q d" and "node_at s q = Some NDir"
    and "\<forall>x. node_at s (q @ x) \<noteq> None \<longrightarrow> length x < fuel"
  shows "\<exists>err s'. copyTree fuel (abs_text q) (abs_text d) s = Some (err, s')"
proof -
  obtain n where fuel: "fuel = Suc n"
    using assms(3,4) by (cases fuel) (auto dest: spec [of _ "[]"])
  let ?fn = "copy_entry (copyTree n) (abs_text q) (abs_text d)"
  have st: "within d s (fst (s, []))"
    using assms(1) by (simp add: apart_def within_refl)
  have "(case os_lstat s (abs_text q) of Inl e \<Rightarrow> ?fn (s, []) (abs_text q) None (Some e)
      | Inr m \<Rightarrow> walk_dir fst fuel ?fn (abs_text q) m (s, [])) \<noteq> None"
  proof (cases "os_lstat s (abs_text q)")
    case (Inl e)
    then show ?thesis by (simp add: copy_entry_def)
  next
    case (Inr m)
    have ok: "fs_wf s" "list_all plain q" using assms(1) by (simp_all add: apart_def sealed_at_def fs_ok_def)
    have "q \<noteq> [] \<longrightarrow> dir_chain s (butlast q)"
      using dir_chain_wf [OF ok(1)] fs_wf_node(2) [OF ok(1) assms(3)] by blast
    then have "locate s False False (abs_text q) = Inr q"
      using locate_node [OF ok(2) _ assms(3)] by simp
    with Inr assms(3) have "m = NDir" by (auto simp: os_lstat_def stat_with_def split: option.splits)
    then show ?thesis
      using walk_returns [OF assms(1,2) contained_copyTree, of "[]" "(s, [])" "[]" m fuel n] st Inr assms(3,4) by simp
  qed
  then obtain r st' where "(case os_lstat s (abs_text q) of Inl e \<Rightarrow> ?fn (s, []) (abs_text q) None (Some e)
      | Inr m \<Rightarrow> walk_dir fst (Suc n) ?fn (abs_text q) m (s, [])) = Some (r, st')"
    unfolding fuel by fastforce
  then show ?thesis
    unfolding fuel by (cases r) (simp_all add: walk_def)
qed

text \<open>A module with two links to one file outside it.\<close>

lemma twin_links_to_files: "links_to_files twin_tree [''m''] [''tmp'', ''module'']"
proof -
  have "os_stat s' target \<noteq> Inr NDir"
    if at: "node_at twin_tree ([''m''] @ x) = Some (NLink t)" and w: "within [''tmp'', ''module''] twin_tree s'"
      and r: "eval_symlinks s' (abs_text ([''m''] @ x)) = Inr target" for x t s' target
  proof -
    from at have x: "x = [''a''] \<or> x = [''b'']"
      by (auto simp: twin_tree_def node_at_def split: if_splits)
    have same: "node_at s' p = node_at twin_tree p" if "\<not> under [''tmp'', ''module''] p" for p
      using w that by (simp add: within_at_def)
    have n: "node_at s' [''m''] = Some NDir \<and> node_at s' [''m'', ''a''] = Some (NLink ''/f'') \<and>
        node_at s' [''m'', ''b''] = Some (NLink ''/f'') \<and> node_at s' [''f''] = Some (NFile ''x'' 420)"
      by (simp add: same under_def) (simp add: twin_tree_def node_at_def)
    have p: "plain ''m''" "plain ''a''" "plain ''b''" "plain ''f''" "rooted ''/f''" "components ''/f'' = [''f'']"
      by (simp_all add: plain_def rooted_def has_prefix_def components_def)
    have "target = ''/f''"
      using r x n p by (auto simp: eval_symlinks_def path_text_def split: option.splits)
    with n p show ?thesis by (simp add: os_stat_def stat_with_def locate_def split: option.split)
  qed
  then show ?thesis unfolding links_to_files_def by blast
qed

theorem copy_of_links_to_files_ends_witness:
  "\<exists>err s'. copyTree 3 ''/m'' ''/tmp/module'' twin_tree = Some (err, s')"
proof -
  have ok: "fs_ok twin_tree"
    by (simp add: fs_ok_def fs_wf_def twin_tree_def keys_distinct_def plain_def node_at_def)
  have apart: "apart twin_tree [''m''] [''tmp'', ''module'']"
    using ok by (auto simp: apart_def sealed_at_def twin_tree_def node_at_def plain_def under_def)
  have "\<forall>x. node_at twin_tree ([''m''] @ x) \<noteq> None \<longrightarrow> length x < 3"
    by (auto simp: twin_tree_def node_at_def split: if_splits)
  from copy_of_links_to_files_ends [OF apart twin_links_to_files _ this]
  show ?thesis by (simp add: abs_text_def path_text_def) (simp add: twin_tree_def node_at_def)
qed

end
