(* ===== verification/Traceless.thy ===== *)
theory Traceless
  imports Contained Test_Cases
begin

text \<open>
  What a test leaves on disk.  Everything \<^verbatim>\<open>New\<close> and the closures it registers write is in the
  temporary directory of the test, the dumped artifacts included as long as
  \<^verbatim>\<open>LIBTFTEST_ARTIFACT_DIR\<close> is not set, and the directory is removed by the last closure to run.
\<close>

section \<open>How an action ends\<close>

text \<open>\<open>R\<close> holds when the action returns, \<open>Q\<close> when it stops the goroutine, panics or exits.\<close>

definition comes_to :: "('s, 'a) act \<Rightarrow> 's \<Rightarrow> ('a \<Rightarrow> 's \<Rightarrow> bool) \<Rightarrow> ('s \<Rightarrow> bool) \<Rightarrow> bool" where
  "comes_to m w R Q \<longleftrightarrow> (case fst (m w) of Ret x \<Rightarrow> R x (snd (m w)) | _ \<Rightarrow> Q (snd (m w)))"

lemma ends_bnd_iff: "comes_to (bnd m f) w R Q \<longleftrightarrow> comes_to m w (\<lambda>x v. comes_to (f x) v R Q) Q"
  by (auto simp: comes_to_def bnd_run split: outcome.splits prod.splits)

lemma ends_andthen_iff: "comes_to (andthen m k) w R Q \<longleftrightarrow> comes_to m w (\<lambda>_ v. comes_to k v R Q) Q"
  unfolding andthen_def by (rule ends_bnd_iff)

lemmas ends_bnd = ends_bnd_iff [THEN iffD2]
lemmas ends_andthen = ends_andthen_iff [THEN iffD2]

lemma ends_mono:
  "comes_to m w R Q \<Longrightarrow> (\<And>x v. R x v \<Longrightarrow> R' x v) \<Longrightarrow> (\<And>v. Q v \<Longrightarrow> Q' v) \<Longrightarrow> comes_to m w R' Q'"
  by (auto simp: comes_to_def split: outcome.splits)

lemma ends_snd: "(\<And>x. R x (snd (m w))) \<Longrightarrow> Q (snd (m w)) \<Longrightarrow> comes_to m w R Q"
  by (simp add: comes_to_def split: outcome.split)

lemma ends_modify [simp]: "comes_to (modify f) w R Q \<longleftrightarrow> R () (f w)"
  by (simp add: comes_to_def modify_run)

lemma ends_gets [simp]: "comes_to (gets f) w R Q \<longleftrightarrow> R (f w) w"
  by (simp add: comes_to_def gets_run)

lemma ends_ret [simp]: "comes_to (ret x) w R Q \<longleftrightarrow> R x w"
  by (simp add: comes_to_def ret_run)

section \<open>The places libtftest writes at\<close>

text \<open>Below the directory of the test: the workspace and, in it, the artifacts.\<close>

definition module_at :: "string list" where
  "module_at = [''001'', ''module'']"

definition artifacts_at :: "string list" where
  "artifacts_at = module_at @ [''libtftest-artifacts'']"

definition artifact_names :: "string list" where
  "artifact_names = [''provider-override.json'', ''backend-override.json'', ''plan.bin'']"

definition artifact_places :: "string list set" where
  "artifact_places = {take k (artifacts_at @ [n]) |k n. n \<in> set artifact_names}"

lemma fit_artifact: "n \<in> set artifact_names \<Longrightarrow> fit artifact_places (artifacts_at @ [n])"
  by (auto simp: fit_def artifact_places_def)
     (auto simp: artifacts_at_def module_at_def artifact_names_def plain_def)

lemma fit_artifacts: "fit artifact_places artifacts_at" "fit artifact_places []"
proof -
  have "''plan.bin'' \<in> set artifact_names" by (simp add: artifact_names_def)
  note f = fit_artifact [OF this]
  show "fit artifact_places artifacts_at" using fit_take [OF f, of "length artifacts_at"] by simp
  show "fit artifact_places []" using fit_take [OF f, of 0] by simp
qed

section \<open>Actions that stay\<close>

text \<open>
  An action that changes files in \<open>d\<close> only, and nothing of the world that matters to the closures.
\<close>

abbreviation kept :: "string list \<Rightarrow> fsys \<Rightarrow> fsys \<Rightarrow> bool" where
  "kept \<equiv> within_at artifact_places"

definition stays :: "string list \<Rightarrow> 'm lt \<Rightarrow> 'm lt \<Rightarrow> bool" where
  "stays d v v' \<longleftrightarrow> kept d (w_fs v) (w_fs v') \<and> t_cleanups (w_tb v') = t_cleanups (w_tb v) \<and>
     l_cases v' = l_cases v \<and> getenv v' artifactDirEnv = getenv v artifactDirEnv \<and> o_cache v' = o_cache v"

definition at_home :: "string list \<Rightarrow> 'm lt \<Rightarrow> bool" where
  "at_home d v \<longleftrightarrow> sealed_at artifact_places d (w_fs v) \<and> getenv v artifactDirEnv = [] \<and> o_cache v \<noteq> None"

lemma stays_refl: "at_home d v \<Longrightarrow> stays d v v"
  by (simp add: stays_def at_home_def within_refl)

lemma stays_trans: "stays d v v1 \<Longrightarrow> stays d v1 v2 \<Longrightarrow> stays d v v2"
  using within_trans by (auto simp: stays_def)

lemma stays_home: "at_home d v \<Longrightarrow> stays d v v' \<Longrightarrow> at_home d v'"
  using within_sealed by (auto simp: stays_def at_home_def)

lemma stays_untouched:
  assumes "at_home d v" and "calmly P v v'" and "w_fs v' = w_fs v" and "w_env v' = w_env v" and "o_cache v' = o_cache v"
  shows "stays d v v'"
  using assms by (simp add: stays_def at_home_def within_refl calmly_def getenv_def)

definition settled :: "string list \<Rightarrow> ('m lt, 'a) act \<Rightarrow> bool" where
  "settled d m \<longleftrightarrow> (\<forall>v. at_home d v \<longrightarrow> stays d v (snd (m v)))"

lemma settledD: "settled d m \<Longrightarrow> at_home d v \<Longrightarrow> stays d v (snd (m v))"
  by (simp add: settled_def)

lemma settled_bnd:
  fixes m :: "('m lt, 'a) act"
  assumes "settled d m" and "\<And>x. settled d (f x)"
  shows "settled d (bnd m f)"
  unfolding settled_def
proof (intro allI impI)
  fix v :: "'m lt"
  assume home: "at_home d v"
  have m: "stays d v (snd (m v))" using assms(1) home by (simp add: settled_def)
  have f: "stays d (snd (m v)) (snd (f x (snd (m v))))" for x
    using assms(2) stays_home [OF home m] by (simp add: settled_def)
  show "stays d v (snd (bnd m f v))"
    using m stays_trans [OF m f] by (cases "m v"; cases "fst (m v)") (simp_all add: bnd_run)
qed

lemma settled_andthen: "settled d m \<Longrightarrow> settled d k \<Longrightarrow> settled d (andthen m k)"
  unfolding andthen_def by (rule settled_bnd)

lemma settled_handle:
  "settled d (m_errorf T f as)" "settled d (m_fatalf T f as)" "settled d (m_logf T f as)" "settled d skip"
  "settled d nil_deref" "settled d (ret x)" "settled d (ask c answer)"
  by (auto simp: settled_def stays_def at_home_def within_refl real_tb_defs act_simps nil_deref_def getenv_def)

section \<open>The closures\<close>

lemma settled_writeFile:
  assumes "list_all plain d" and "n \<in> set artifact_names"
  shows "settled d (writeFile T (abs_text (d @ artifacts_at)) n data)"
  unfolding settled_def
proof (intro allI impI)
  fix v :: "'m lt"
  assume home: "at_home d v"
  have pl: "list_all plain (d @ artifacts_at)" "plain n"
    using assms(1) fit_plain [OF fit_artifact [OF assms(2)]] by simp_all
  then have p: "path_join [abs_text (d @ artifacts_at), n] = abs_text (d @ (artifacts_at @ [n]))"
    using path_join_abs_text1 [of "d @ artifacts_at" n] by simp
  obtain r s1 where mk: "os_mkdir_all (abs_text (d @ artifacts_at)) (w_fs v) = (r, s1)" by fastforce
  have s: "sealed_at artifact_places d (w_fs v)" using home by (simp add: at_home_def)
  have w1: "kept d (w_fs v) s1" by (rule within_mkdir_all [OF s fit_artifacts(1) mk])
  have w2: "kept d (w_fs v) s2" if "os_write_file (abs_text (d @ (artifacts_at @ [n]))) data 416 s1 = (r2, s2)" for r2 s2
    by (rule within_trans [OF w1 within_write_file [OF within_sealed [OF w1] fit_artifact [OF assms(2)] that]])
  show "stays d v (snd (writeFile T (abs_text (d @ artifacts_at)) n data v))"
    using w1 w2 home unfolding writeFile_def mk p
    by (auto simp: stays_def real_tb_defs getenv_def Let_def split: sum.split prod.split)
qed

text \<open>A closure that writes below \<open>d\<close> only, given what its test case captured.\<close>

fun tidy :: "string list \<Rightarrow> test_case list \<Rightarrow> cleanup \<Rightarrow> bool" where
  "tidy d cs (RemoveTemp dir) = False"
| "tidy d cs (DumpArtifacts i) = (tc_artifact_dir (cs ! i) = abs_text (d @ artifacts_at))"
| "tidy d cs (TerraformDestroy i) =
     (\<forall>work. tc_work (cs ! i) = Some work \<longrightarrow> ws_dir work = abs_text (d @ module_at))"
| "tidy d cs _ = True"

text \<open>\<^verbatim>\<open>terraform destroy\<close> in the workspace writes in the directory of the test only.\<close>

definition destroys_within :: "lib_api \<Rightarrow> string list \<Rightarrow> bool" where
  "destroys_within a d \<longleftrightarrow>
     (\<forall>over opts t s. to_dir opts = abs_text (d @ module_at) \<longrightarrow> sealed_at artifact_places d s \<longrightarrow>
        kept d s (snd (tf_destroy (a_tf a) over opts t s)))"

lemma BuildOptions_cached:
  "o_cache v = Some c \<Longrightarrow> \<exists>opts. BuildOptions dir vars v = (Ret opts, v) \<and> to_dir opts = dir"
  by (simp add: BuildOptions_def defaultEnvVars_def PluginCacheDir_def act_simps)

lemma stays_destroy:
  assumes "destroys_within a d" and "at_home d v" and "tidy d (l_cases v) (TerraformDestroy i)"
  shows "stays d v (snd (terraform_destroy a T i v))"
proof (cases "op_persist_on_failure (tc_opts (the_case i v)) \<and> m_failed T v \<or> tc_work (the_case i v) = None")
  case True
  then show ?thesis
    using stays_refl [OF assms(2)] by (auto simp: terraform_destroy_def with_work_def nil_deref_def act_simps)
next
  case False
  then obtain work where work: "tc_work (the_case i v) = Some work" by auto
  obtain c where "o_cache v = Some c" using assms(2) by (auto simp: at_home_def)
  then obtain opts where opts: "BuildOptions (ws_dir work) (tc_vars (the_case i v)) v = (Ret opts, v)" "to_dir opts = ws_dir work"
    using BuildOptions_cached by blast
  have "ws_dir work = abs_text (d @ module_at)" using assms(3) work by (simp add: the_case_def)
  then have "kept d (w_fs v) (snd (tf_destroy (a_tf a) False opts (w_trace v) (w_fs v)))"
    using assms(1,2) opts(2) by (simp add: destroys_within_def at_home_def)
  then show ?thesis
    using False work opts(1)
    by (auto simp: terraform_destroy_def with_work_def Let_def bnd_run ask_fs_run stays_def real_tb_defs getenv_def
        skip_run split: sum.split)
qed

lemma stays_andthen:
  assumes "stays d v (snd (m v))" and "\<And>v'. stays d v v' \<Longrightarrow> stays d v' (snd (k v'))"
  shows "stays d v (snd (andthen m k v))"
  using assms stays_trans [OF assms(1) assms(2) [OF assms(1)]]
  by (cases "m v"; cases "fst (m v)") (simp_all add: andthen_run)

lemma settled_DumpArtifact:
  assumes "list_all plain d" and "n \<in> set artifact_names"
  shows "settled d (DumpArtifact T (abs_text (d @ artifacts_at)) n data)"
  unfolding DumpArtifact_def
  by (rule settled_andthen [OF settled_writeFile [OF assms]])
     (simp add: settled_def at_home_def stays_def within_refl)

lemma stays_dump_if_exists:
  assumes "at_home d v" and "tc_artifact_dir (the_case i v) = abs_text (d @ artifacts_at)" and "n \<in> set artifact_names"
  shows "stays d v (snd (dump_if_exists T i src n v))"
proof (cases "os_read_file (w_fs v) src")
  case (Inl e)
  then show ?thesis using stays_refl [OF assms(1)] by (simp add: dump_if_exists_def skip_run)
next
  case (Inr data)
  have "list_all plain d" using assms(1) by (simp add: at_home_def sealed_at_def)
  with Inr assms(2) settledD [OF settled_DumpArtifact [OF _ assms(3)] assms(1)] show ?thesis
    by (simp add: dump_if_exists_def)
qed

lemma stays_dump:
  assumes "at_home d v" and "tidy d (l_cases v) (DumpArtifacts i)"
  shows "stays d v (snd (dumpArtifacts T i v))"
proof -
  have step: "stays d v' (snd (dump_if_exists T i src n v'))" if "stays d v v'" "n \<in> set artifact_names" for v' src n
    using that stays_home [OF assms(1)] assms(2)
    by (intro stays_dump_if_exists) (simp_all add: stays_def the_case_def)
  have "stays d v (snd (andthen (dump_if_exists T i (f ''/_libtftest_override.tf.json'') ''provider-override.json'')
      (andthen (dump_if_exists T i (f ''/_libtftest_backend_override.tf.json'') ''backend-override.json'')
               (dump_if_exists T i (f ''/libtftest.plan'') ''plan.bin'')) v))" for f
    by (intro stays_andthen step)
       (auto simp: artifact_names_def intro: stays_refl [OF assms(1)] stays_trans)
  then show ?thesis
    using stays_refl [OF assms(1)]
    by (simp add: dumpArtifacts_def with_work_def nil_deref_def panic_run split: option.split)
qed

lemma settled_delete: "settled d (bnd (aws_do a ctx cl op args) (\<lambda>err. case err of None \<Rightarrow> skip | Some e \<Rightarrow> m_errorf T f (as e)))"
proof (rule settled_bnd)
  show "settled d (aws_do a ctx cl op args)"
    by (simp add: settled_def stays_def at_home_def aws_do_def aws_call_run within_refl getenv_def)
  show "settled d (case err of None \<Rightarrow> skip | Some e \<Rightarrow> m_errorf T f (as e))" for err
    by (auto intro: settled_handle split: option.split)
qed

lemma settled_stop: "settled d (bnd (Stop a ctr) (\<lambda>r. case r of None \<Rightarrow> skip | Some err \<Rightarrow> m_errorf T f (as err)))"
  by (auto simp: Stop_def terminate_def intro!: settled_bnd intro: settled_handle split: option.split)

lemma stays_cleanup:
  assumes "destroys_within a d" and "at_home d v" and "tidy d (l_cases v) c"
  shows "stays d v (snd (run_cleanup a T c v))"
proof (cases c)
  case (StopContainer i)
  note s = settledD [OF _ assms(2)]
  from StopContainer show ?thesis
    by (auto simp: stop_container_def intro: s [OF settled_handle(5)] s [OF settled_handle(3)] s [OF settled_stop]
        split: option.split)
next
  case (TerraformDestroy i)
  with stays_destroy [OF assms(1,2)] assms(3) show ?thesis by simp
next
  case (DumpArtifacts i)
  with stays_dump [OF assms(2)] stays_refl [OF assms(2)] assms(3) show ?thesis by (simp add: skip_run)
qed (use assms(3) settledD [OF settled_delete assms(2)] in
      \<open>simp_all add: delete_object_def delete_parameter_def delete_secret_def\<close>)

section \<open>The end of a test\<close>

lemma stays_on_tb: "stays d (on_tb f v) v' \<longleftrightarrow> kept d (w_fs v) (w_fs v') \<and>
    t_cleanups (w_tb v') = t_cleanups (f (w_tb v)) \<and> l_cases v' = l_cases v \<and>
    getenv v' artifactDirEnv = getenv v artifactDirEnv \<and> o_cache v' = o_cache v"
  by (simp add: stays_def on_tb_def getenv_def)

lemma at_home_on_tb [simp]: "at_home d (on_tb f v) = at_home d v"
  by (simp add: at_home_def on_tb_def getenv_def)

text \<open>All closures but the first registered are tidy; the first one runs last, on what they leave.\<close>

lemma call_each_tidy:
  assumes "destroys_within a d"
  shows "at_home d v \<Longrightarrow> list_all (tidy d (l_cases v)) cs \<Longrightarrow>
    \<exists>v1. call_each (run_cleanup a T) (cs @ [c]) v = snd (run_cleanup a T c v1) \<and> kept d (w_fs v) (w_fs v1)"
proof (induction cs arbitrary: v)
  case Nil
  then show ?case
    by (intro exI [of _ "on_tb (\<lambda>t. t\<lparr>t_cleanups := []\<rparr>) v"]) (simp add: on_tb_def at_home_def within_refl)
next
  case (Cons b cs)
  let ?v = "on_tb (\<lambda>t. t\<lparr>t_cleanups := rev (cs @ [c])\<rparr>) v"
  let ?v1 = "snd (run_cleanup a T b ?v)"
  have l: "l_cases ?v = l_cases v" by (simp add: on_tb_def)
  have st: "stays d ?v ?v1" using Cons.prems l by (intro stays_cleanup [OF assms]) simp_all
  have home: "at_home d ?v1" using stays_home [OF _ st] Cons.prems(1) by simp
  have "list_all (tidy d (l_cases ?v1)) cs" using st Cons.prems(2) by (simp add: stays_on_tb)
  from Cons.IH [OF home this] obtain v1 where
    v1: "call_each (run_cleanup a T) (cs @ [c]) ?v1 = snd (run_cleanup a T c v1)" "kept d (w_fs ?v1) (w_fs v1)"
    by blast
  have "kept d (w_fs v) (w_fs v1)"
    using within_trans [OF _ v1(2)] st by (simp add: stays_on_tb)
  with v1(1) show ?case by auto
qed

lemma node_at_remove_tree: "q \<noteq> [] \<Longrightarrow> node_at (remove_tree q s) p = (if under q p then None else node_at s p)"
proof -
  assume q: "q \<noteq> []"
  have "map_of (filter (\<lambda>(p, _). \<not> under q p) ns) p = (if under q p then None else map_of ns p)" for ns :: "(string list \<times> node) list"
    by (induction ns) auto
  moreover have "\<not> under q []" using q by (auto dest: underE)
  ultimately show ?thesis by (auto simp: node_at_def remove_tree_def)
qed

lemma removed:
  assumes "sealed_at X d s0" and "node_at s0 d = None" and "fault s0 ''remove'' (abs_text d) = None"
    and "within_at X d s0 s"
  shows "node_at (snd (os_remove_all (abs_text d) s)) p = node_at s0 p"
proof -
  have d: "list_all plain d" "d \<noteq> []" "fs_wf s0" "d = butlast d @ [last d]"
    using assms(1) by (simp_all add: sealed_at_def fs_ok_def)
  have s: "fs_wf s" "node_at s (butlast d) = Some NDir" "fault s = fault s0"
    "\<And>p. \<not> under d p \<Longrightarrow> node_at s p = node_at s0 p"
    using assms(4) by (simp_all add: within_at_def sealed_at_def fs_ok_def)
  have none: "node_at s0 p = None" if "under d p" using that missing_below [OF d(3) assms(2)] by (auto dest: underE)
  have chain: "dir_chain s (butlast d)" using dir_chain_wf [OF s(1,2)] .
  show ?thesis
  proof (cases "node_at s d")
    case None
    have "locate s False False (abs_text d) = Inl ErrNotExist"
      using locate_missing [of "butlast d" "last d" s False False] d(1,4) chain None by metis
    moreover have "node_at s p = None" if "under d p"
      using that missing_below [OF s(1) None] by (auto dest: underE)
    ultimately show ?thesis
      using s(3,4) none assms(3) by (cases "under d p") (simp_all add: os_remove_all_def)
  next
    case (Some n)
    have "locate s False False (abs_text d) = Inr d"
      by (rule locate_node [OF d(1) _ Some]) (use chain in simp_all)
    then show ?thesis
      using s(3,4) none assms(3) d(2) by (simp add: os_remove_all_def node_at_remove_tree)
  qed
qed

section \<open>What New leaves\<close>

text \<open>A container without init hooks is started without any file being written.\<close>

definition still :: "(('t, 'm) cworld, 'a) act \<Rightarrow> bool" where
  "still m \<longleftrightarrow> (\<forall>w. w_fs (snd (m w)) = w_fs w \<and> w_rand (snd (m w)) = w_rand w)"

lemma stillI: "(\<And>w. w_fs (snd (m w)) = w_fs w \<and> w_rand (snd (m w)) = w_rand w) \<Longrightarrow> still m"
  by (simp add: still_def)

lemma stillD: "still m \<Longrightarrow> w_fs (snd (m w)) = w_fs w" "still m \<Longrightarrow> w_rand (snd (m w)) = w_rand w"
  by (simp_all add: still_def)

lemma still_basic: "still (ask c answer)" "still (ret x)" "still (panic p)"
  by (simp_all add: still_def act_simps)

lemma still_bnd:
  assumes "still m" and "\<And>x. still (f x)"
  shows "still (bnd m f)"
  using assms unfolding still_def bnd_run by (auto split: prod.split outcome.split) (metis snd_conv)+

lemma still_at: "(\<And>w. still (m w)) \<Longrightarrow> still (\<lambda>w. m w w)"
  by (simp add: still_def)

lemma still_Ping: "still (Ping d ctx)"
  unfolding Ping_def Let_def
  by (rule still_at) (auto intro!: still_bnd still_basic split: option.split sum.split)

lemma still_run_container: "still (run_container d over img spec ed)"
  unfolding run_container_def terminate_def
  by (auto intro!: still_bnd still_basic split: option.split sum.split)

lemma still_started:
  "still (case binds of Inl err \<Rightarrow> ret (Inl err)
      | Inr bs \<Rightarrow> (\<lambda>w'. run_container d (ctx_done w' ctx) img (spec bs) ed w'))"
  by (cases binds) (simp_all add: still_basic still_at [OF still_run_container])

lemma still_Start: "lc_init_hooks cfg = [] \<Longrightarrow> still (Start d ctx cfg)"
  unfolding Start_def Let_def hook_binds_def
  by (rule still_bnd [OF still_Ping])
     (simp add: still_basic still_at [OF still_bnd [OF still_basic(2) still_started]] split: option.split)

text \<open>A test that has written nothing, and one that has only its directory to be removed.\<close>

definition untouched :: "fsys \<Rightarrow> 'm lt \<Rightarrow> bool" where
  "untouched s v \<longleftrightarrow> w_fs v = s \<and> t_cleanups (w_tb v) = []"

definition camped :: "string list \<Rightarrow> fsys \<Rightarrow> 'm lt \<Rightarrow> bool" where
  "camped d s v \<longleftrightarrow> kept d s (w_fs v) \<and> getenv v artifactDirEnv = [] \<and> o_cache v \<noteq> None \<and>
     (\<exists>cs. t_cleanups (w_tb v) = RemoveTemp (abs_text d) # cs \<and> list_all (tidy d (l_cases v)) cs)"

definition based :: "string list \<Rightarrow> fsys \<Rightarrow> test_case list \<Rightarrow> 'm lt \<Rightarrow> bool" where
  "based d s ls v \<longleftrightarrow> within d s (w_fs v) \<and> getenv v artifactDirEnv = [] \<and> o_cache v \<noteq> None \<and>
     t_cleanups (w_tb v) = [RemoveTemp (abs_text d)] \<and> l_cases v = ls"

definition leaves :: "string list \<Rightarrow> fsys \<Rightarrow> 'm lt \<Rightarrow> bool" where
  "leaves d s v \<longleftrightarrow> untouched s v \<or> camped d s v"

lemma kept_within: "within d s s' \<Longrightarrow> kept d s s'"
  by (rule within_mono [OF _ subset_UNIV])

lemma based_leaves: "based d s ls v \<Longrightarrow> leaves d s v"
  by (simp add: based_def leaves_def camped_def kept_within)

lemma resolve_ends:
  assumes "op_init_hooks (tc_opts (the_case i w)) = []" and "t_cleanups (w_tb w) = []"
  shows "comes_to (resolveContainer a T ctx i) w
     (\<lambda>_ v. w_fs v = w_fs w \<and> w_tb v = w_tb w \<and> w_rand v = w_rand w \<and> w_env v = w_env w \<and> o_cache v = o_cache w \<and>
        length (l_cases v) = length (l_cases w))
     (untouched (w_fs w))"
proof -
  let ?o = "tc_opts (the_case i w)"
  let ?cfg = "\<lparr>lc_edition = op_edition ?o, lc_image = op_image ?o, lc_services = op_services ?o,
               lc_auth_token = [], lc_init_hooks = op_init_hooks ?o\<rparr>"
  have fs: "w_fs (snd (Start a ctx ?cfg w)) = w_fs w" "w_rand (snd (Start a ctx ?cfg w)) = w_rand w"
    by (rule stillD [OF still_Start]; simp add: assms(1))+
  have io: "io_frame w (snd (Start a ctx ?cfg w))" by (rule Start_io)
  then have fr: "w_tb (snd (Start a ctx ?cfg w)) = w_tb w" "w_env (snd (Start a ctx ?cfg w)) = w_env w"
      "o_cache (snd (Start a ctx ?cfg w)) = o_cache w" "l_cases (snd (Start a ctx ?cfg w)) = l_cases w"
    by (auto simp: io_frame_def)
  have set: "comes_to (set_stack i c own) v R Q \<longleftrightarrow> R () (upd_case i (\<lambda>tc. tc\<lparr>tc_stack := c, tc_own := own\<rparr>) v)"
    for c own and v :: "'m lt" and R Q by (simp add: set_stack_def)
  have same: "w_rand (upd_case i f v) = w_rand v" "w_env (upd_case i f v) = w_env v" "o_cache (upd_case i f v) = o_cache v"
    for f and v :: "'m lt" by (simp_all add: upd_case_def)
  show ?thesis
  proof (cases "op_reuse ?o = None \<and> Current w = None")
    case False
    then obtain ctr where eq: "resolveContainer a T ctx i w = set_stack i (Some ctr) False w"
      by (cases "op_reuse ?o"; cases "Current w") (auto simp: resolveContainer_def Let_def)
    show ?thesis unfolding comes_to_def eq by (simp add: set_stack_def modify_run same)
  next
    case True
    then have eq: "resolveContainer a T ctx i w =
        bnd (Start a ctx ?cfg) (\<lambda>r. case r of
           Inl err \<Rightarrow> andthen (m_fatalf T ''start localstack: %v'' [AErr err]) (set_stack i None True)
         | Inr ctr \<Rightarrow> set_stack i (Some ctr) True) w"
      by (simp add: resolveContainer_def Let_def)
    have step: "comes_to (case r of
           Inl err \<Rightarrow> andthen (m_fatalf T ''start localstack: %v'' [AErr err]) (set_stack i None True)
         | Inr ctr \<Rightarrow> set_stack i (Some ctr) True) v
       (\<lambda>_ v. w_fs v = w_fs w \<and> w_tb v = w_tb w \<and> w_rand v = w_rand w \<and> w_env v = w_env w \<and> o_cache v = o_cache w \<and>
          length (l_cases v) = length (l_cases w)) (untouched (w_fs w))"
      if "w_fs v = w_fs w" "w_rand v = w_rand w" "w_tb v = w_tb w" "w_env v = w_env w" "o_cache v = o_cache w"
        "l_cases v = l_cases w" for r v
      using that assms(2)
      by (cases r) (simp_all add: set same, simp add: comes_to_def andthen_run real_tb_defs untouched_def)
    have "comes_to (bnd (Start a ctx ?cfg) (\<lambda>r. case r of
           Inl err \<Rightarrow> andthen (m_fatalf T ''start localstack: %v'' [AErr err]) (set_stack i None True)
         | Inr ctr \<Rightarrow> set_stack i (Some ctr) True)) w
       (\<lambda>_ v. w_fs v = w_fs w \<and> w_tb v = w_tb w \<and> w_rand v = w_rand w \<and> w_env v = w_env w \<and> o_cache v = o_cache w \<and>
          length (l_cases v) = length (l_cases w)) (untouched (w_fs w))"
      by (rule ends_bnd, rule ends_snd, rule step) (use fs fr assms(2) in \<open>simp_all add: untouched_def\<close>)
    then show ?thesis unfolding comes_to_def eq .
  qed
qed

lemma mkdir_temp_fails:
  assumes "sealed d s" and "node_at s d = None" and "path_join [root, pre @ n] = abs_text d"
    and "mkdir_temp root pre (n # rs) s = (Inl e, rs', s')"
  shows "s' = s"
proof (cases "locate s False True (abs_text d)")
  case (Inr q)
  then have "q = d" using sealed_locate [OF assms(1), of "[]"] by simp
  with Inr assms(2-4) show ?thesis by (auto simp: Let_def split: option.splits)
qed (use assms(3,4) in \<open>auto simp: Let_def split: option.splits\<close>)

text \<open>A fresh test that can get its own directory \<open>d\<close>.\<close>

definition ready :: "'m lt \<Rightarrow> string list \<Rightarrow> string \<Rightarrow> string list \<Rightarrow> bool" where
  "ready w r x d \<longleftrightarrow> Setup.fresh_test w r x \<and> d = own_dir w r x \<and> sealed d (w_fs w) \<and> node_at (w_fs w) d = None \<and>
     t_cleanups (w_tb w) = [] \<and> getenv w artifactDirEnv = [] \<and> o_cache w \<noteq> None"

lemma TempDir_ends:
  fixes w :: "'m lt"
  assumes "ready w r x d"
  shows "comes_to (m_temp_dir T) w (\<lambda>p v. p = abs_text (d @ [''001'']) \<and> based d (w_fs w) (l_cases w) v)
     (\<lambda>v. untouched (w_fs w) v \<or> based d (w_fs w) (l_cases w) v)"
proof -
  have f: "Setup.fresh_test w r x" "sealed (own_dir w r x) (w_fs w)" "node_at (w_fs w) (own_dir w r x) = None"
    and d: "d = own_dir w r x" and w: "t_cleanups (w_tb w) = []" "getenv w artifactDirEnv = []" "o_cache w \<noteq> None"
    using assms by (auto simp: ready_def)
  obtain oc w' where run: "m_temp_dir T w = (oc, w')" by fastforce
  note td = TempDir_within [OF f run, folded d]
  have j: "path_join [temp_root w, t_name (w_tb w) @ x] = abs_text d"
    using f(1,2) path_join_abs_text1 [of r "t_name (w_tb w) @ x"]
    by (simp add: Setup.fresh_test_def own_dir_def d sealed_at_def)
  obtain rs where rs: "w_rand w = x # rs" using f(1) by (cases "w_rand w") (auto simp: Setup.fresh_test_def)
  obtain r1 rs1 s1 where mk: "mkdir_temp (temp_root w) (t_name (w_tb w)) (w_rand w) (w_fs w) = (r1, rs1, s1)"
    by (metis surj_pair)
  have ok: "r1 = Inl e \<Longrightarrow> s1 = w_fs w" "r1 = Inr p \<Longrightarrow> p = abs_text d" for e p
    using mkdir_temp_fails [OF f(2,3) j [unfolded d]] within_mkdir_temp [OF f(2,3) j [unfolded d]] mk rs d by auto
  have kept: "within d (w_fs w) (w_fs w')" using td by blast
  have "untouched (w_fs w) w' \<and> (\<forall>p. oc \<noteq> Ret p) \<or> based d (w_fs w) (l_cases w) w'"
  proof (cases r1)
    case (Inl e)
    with run mk ok(1) w(1) f(1) show ?thesis
      by (auto simp: real_tb_defs real_temp_dir_def andthen_run untouched_def Setup.fresh_test_def)
  next
    case (Inr p)
    with run mk ok(2) w f(1) kept show ?thesis
      by (auto simp: real_tb_defs real_temp_dir_def act_simps Let_def based_def Setup.fresh_test_def getenv_def
          split: sum.splits prod.splits)
  qed
  with td show ?thesis by (auto simp: comes_to_def run split: outcome.split)
qed

lemma NewWorkspace_ends:
  fixes w :: "'m lt"
  assumes "ready w r x d"
  shows "comes_to (NewWorkspace fuel T md) w (\<lambda>work v. ws_dir work = abs_text (d @ module_at) \<and> based d (w_fs w) (l_cases w) v)
     (\<lambda>v. untouched (w_fs w) v \<or> based d (w_fs w) (l_cases w) v)"
proof -
  have f: "Setup.fresh_test w r x" "sealed (own_dir w r x) (w_fs w)" "node_at (w_fs w) (own_dir w r x) = None"
    and d: "d = own_dir w r x"
    using assms by (auto simp: ready_def)
  obtain oc w' where run: "NewWorkspace fuel T md w = (oc, w')" by fastforce
  note nw = NewWorkspace_within [OF f run, folded d]
  obtain oc1 w1 where t: "m_temp_dir T w = (oc1, w1)" by fastforce
  have kept: "within d (w_fs w) (w_fs w')" using nw by blast
  show ?thesis
  proof (cases "\<exists>p. oc1 = Ret p")
    case True
    with TempDir_ends [OF assms] t have b: "based d (w_fs w) (l_cases w) w1" by (auto simp: comes_to_def)
    have "based d (w_fs w) (l_cases w) w'"
      using b kept run t True
      by (auto simp: NewWorkspace_def bnd_run andthen_run ret_run real_tb_defs based_def getenv_def Let_def
          split: option.splits)
    with nw run show ?thesis by (auto simp: comes_to_def module_at_def split: outcome.split)
  next
    case False
    with TempDir_ends [OF assms] t have "untouched (w_fs w) w1 \<or> based d (w_fs w) (l_cases w) w1"
      by (cases oc1) (auto simp: comes_to_def)
    with False t show ?thesis by (cases oc1) (simp_all add: comes_to_def NewWorkspace_def bnd_run)
  qed
qed

lemma write_overrides_ends:
  assumes "based d s ls v" and "dir = abs_text (d @ module_at)"
  shows "comes_to (write_overrides T dir u) v (\<lambda>_. based d s ls) (based d s ls)"
proof -
  have w: "within d s (w_fs v)" using assms(1) by (simp add: based_def)
  have "fit UNIV module_at" by (simp add: module_at_def plain_def)
  then have "within d s (snd (WriteOverrides dir u (w_fs v)))"
    unfolding assms(2) using within_trans [OF w within_WriteOverrides [OF within_sealed [OF w]]] by blast
  with assms(1) show ?thesis
    by (cases "WriteOverrides dir u (w_fs v)"; cases "fst (WriteOverrides dir u (w_fs v))")
       (simp_all add: comes_to_def write_overrides_def based_def real_tb_defs getenv_def)
qed

lemma build_aws_config_ends:
  "based d s ls v \<Longrightarrow> comes_to (build_aws_config a T ctx u) v (\<lambda>_. based d s ls) (based d s ls)"
  by (rule ends_snd)
     (auto simp: build_aws_config_def load_config_def act_simps real_tb_defs Let_def based_def getenv_def split: sum.split)

lemma based_upd_case: "based d s ls v \<Longrightarrow> based d s (ls[i := f (ls ! i)]) (upd_case i f v)"
  by (simp add: based_def) (simp add: upd_case_def getenv_def)

lemma ends_register [simp]:
  "comes_to (registerCleanup T i) v R Q \<longleftrightarrow> R () (on_tb (\<lambda>t. t\<lparr>t_cleanups := t_cleanups t @ closures i (the_case i v)\<rparr>) v)"
  by (simp add: comes_to_def registerCleanup_run)

lemma set_up_ends:
  assumes "ready w r x d" and "i < length (l_cases w)"
  shows "comes_to (set_up a fuel T ctx i ctr opts) w (\<lambda>_. camped d (w_fs w)) (leaves d (w_fs w))"
proof -
  let ?s = "w_fs w" and ?ls = "l_cases w"
  let ?u = "if op_edge_url_override opts \<noteq> [] then op_edge_url_override opts else ct_edge_url ctr"
  have d: "list_all plain d" using assms(1) by (auto simp: ready_def sealed_at_def)
  have last: "comes_to (andthen (modify (upd_case i (\<lambda>tc. tc\<lparr>tc_aws := cfg\<rparr>)))
     (andthen (modify (\<lambda>w. upd_case i (\<lambda>tc. tc\<lparr>tc_artifact_dir := ResolveArtifactDir T (ws_dir work) w\<rparr>) w))
      (registerCleanup T i))) v (\<lambda>_. camped d ?s) (leaves d ?s)"
    if b: "based d ?s (?ls[i := (?ls ! i)\<lparr>tc_work := Some work\<rparr>]) v" and wd: "ws_dir work = abs_text (d @ module_at)" for v work cfg
  proof -
    let ?v1 = "upd_case i (\<lambda>tc. tc\<lparr>tc_aws := cfg\<rparr>) v"
    let ?v2 = "upd_case i (\<lambda>tc. tc\<lparr>tc_artifact_dir := ResolveArtifactDir T (ws_dir work) ?v1\<rparr>) ?v1"
    note b1 = based_upd_case [OF b, of i "\<lambda>tc. tc\<lparr>tc_aws := cfg\<rparr>"]
    note b2 = based_upd_case [OF b1, of i "\<lambda>tc. tc\<lparr>tc_artifact_dir := ResolveArtifactDir T (ws_dir work) ?v1\<rparr>"]
    have "getenv ?v1 artifactDirEnv = []" using b1 by (simp add: based_def)
    moreover have "path_join [abs_text (d @ module_at), ''libtftest-artifacts''] = abs_text (d @ artifacts_at)"
      using path_join_abs_text1 [of "d @ module_at" "''libtftest-artifacts''"] d
      by (simp add: artifacts_at_def) (simp add: module_at_def plain_def)
    ultimately have dir: "ResolveArtifactDir T (ws_dir work) ?v1 = abs_text (d @ artifacts_at)"
      by (simp add: ResolveArtifactDir_def wd)
    have "camped d ?s (on_tb (\<lambda>t. t\<lparr>t_cleanups := t_cleanups t @ closures i (the_case i ?v2)\<rparr>) ?v2)"
      using b2 assms(2) wd unfolding dir
      by (simp add: camped_def based_def on_tb_def closures_def kept_within getenv_def)
    then show ?thesis by (simp add: ends_andthen_iff)
  qed
  show ?thesis
    unfolding set_up_def Let_def
  proof (rule ends_bnd, rule ends_mono [OF NewWorkspace_ends [OF assms(1)]])
    fix work :: workspace and v :: "'a lt"
    assume "ws_dir work = abs_text (d @ module_at) \<and> based d ?s ?ls v"
    then have wd: "ws_dir work = abs_text (d @ module_at)" and b: "based d ?s ?ls v" by simp_all
    note b1 = based_upd_case [OF b, of i "\<lambda>tc. tc\<lparr>tc_work := Some work\<rparr>"]
    show "comes_to (andthen (modify (upd_case i (\<lambda>tc. tc\<lparr>tc_work := Some work\<rparr>)))
     (andthen (write_overrides T (ws_dir work) ?u)
     (bnd (build_aws_config a T ctx ?u) (\<lambda>cfg.
      andthen (modify (upd_case i (\<lambda>tc. tc\<lparr>tc_aws := cfg\<rparr>)))
     (andthen (modify (\<lambda>w. upd_case i (\<lambda>tc. tc\<lparr>tc_artifact_dir := ResolveArtifactDir T (ws_dir work) w\<rparr>) w))
      (registerCleanup T i)))))) v (\<lambda>_. camped d ?s) (leaves d ?s)"
      by (intro ends_andthen, subst ends_modify, intro ends_andthen, rule ends_mono [OF write_overrides_ends [OF b1 wd]],
          intro ends_bnd, rule ends_mono [OF build_aws_config_ends], assumption, rule last [OF _ wd], assumption)
         (simp_all add: based_leaves)
  qed (auto simp: leaves_def dest: based_leaves)
qed

lemma New_ends:
  fixes w :: "'m lt"
  assumes "ready w r x d" and "op_init_hooks opts = []"
  shows "comes_to (New a fuel T opts) w (\<lambda>_. camped d (w_fs w)) (leaves d (w_fs w))"
proof -
  let ?i = "length (l_cases w)" and ?ctx = "m_context T w"
  let ?w = "w\<lparr>l_cases := l_cases w @ [new_case a T opts w]\<rparr>"
  let ?tail = "bnd (gets (\<lambda>w. tc_stack (the_case ?i w))) (\<lambda>stack. case stack of
       None \<Rightarrow> nil_deref
     | Some ctr \<Rightarrow> andthen (set_up a fuel T ?ctx ?i ctr opts) (ret ?i))"
  have o: "tc_opts (the_case ?i ?w) = opts" by (simp add: the_case_def new_case_def Let_def)
  have tail: "comes_to ?tail v (\<lambda>_. camped d (w_fs w)) (leaves d (w_fs w))"
    if v: "w_fs v = w_fs w" "w_tb v = w_tb w" "w_rand v = w_rand w" "w_env v = w_env w" "o_cache v = o_cache w"
      "length (l_cases v) = Suc ?i" for v :: "'m lt"
  proof -
    have "ready v r x d"
      using assms(1) v by (auto simp: ready_def Setup.fresh_test_def own_dir_def temp_root_def getenv_def)
    from set_up_ends [OF this, of ?i] v(1,6)
    have up: "comes_to (set_up a fuel T ?ctx ?i ctr opts) v (\<lambda>_. camped d (w_fs w)) (leaves d (w_fs w))" for ctr by simp
    have no: "leaves d (w_fs w) v" using assms(1) v(1,2) by (simp add: leaves_def untouched_def ready_def)
    show ?thesis
    proof (rule ends_bnd, subst ends_gets, cases "tc_stack (the_case ?i v)")
      case None
      with no show "comes_to (case tc_stack (the_case ?i v) of None \<Rightarrow> nil_deref
          | Some ctr \<Rightarrow> andthen (set_up a fuel T ?ctx ?i ctr opts) (ret ?i)) v (\<lambda>_. camped d (w_fs w)) (leaves d (w_fs w))"
        by (simp add: comes_to_def nil_deref_def panic_run)
    next
      case (Some ctr)
      have "comes_to (andthen (set_up a fuel T ?ctx ?i ctr opts) (ret ?i)) v (\<lambda>_. camped d (w_fs w)) (leaves d (w_fs w))"
        by (rule ends_andthen, rule ends_mono [OF up]) simp_all
      with Some show "comes_to (case tc_stack (the_case ?i v) of None \<Rightarrow> nil_deref
          | Some ctr \<Rightarrow> andthen (set_up a fuel T ?ctx ?i ctr opts) (ret ?i)) v (\<lambda>_. camped d (w_fs w)) (leaves d (w_fs w))"
        by simp
    qed
  qed
  have "comes_to (resolveContainer a T ?ctx ?i) ?w (\<lambda>_ v. comes_to ?tail v (\<lambda>_. camped d (w_fs w)) (leaves d (w_fs w)))
      (leaves d (w_fs w))"
    using assms by (intro ends_mono [OF resolve_ends] tail) (simp_all add: o leaves_def ready_def)
  then have "comes_to (andthen (modify (\<lambda>w. w\<lparr>l_cases := l_cases w @ [new_case a T opts w]\<rparr>))
     (andthen (resolveContainer a T ?ctx ?i) ?tail)) w (\<lambda>_. camped d (w_fs w)) (leaves d (w_fs w))"
    by (simp add: ends_andthen_iff)
  moreover have "New a fuel T opts w = andthen (modify (\<lambda>w. w\<lparr>l_cases := l_cases w @ [new_case a T opts w]\<rparr>))
     (andthen (resolveContainer a T ?ctx ?i) ?tail) w"
    by (simp add: New_def Let_def)
  ultimately show ?thesis unfolding comes_to_def by metis
qed

section \<open>The whole test\<close>

text \<open>
  What the test does with its test case: it changes files in its own directory only, makes no
  link on the way to an artifact, registers no closures but those of fixtures, and leaves alone
  the workspace of the test case and the two settings of the process that say where files go.
\<close>

definition tidy_body :: "string list \<Rightarrow> (nat \<Rightarrow> ('m lt, unit) act) \<Rightarrow> bool" where
  "tidy_body d rest \<longleftrightarrow>
     (\<forall>i v. let v' = snd (rest i v) in at_home d v \<longrightarrow>
        kept d (w_fs v) (w_fs v') \<and> getenv v' artifactDirEnv = [] \<and> o_cache v' = o_cache v \<and>
        (\<forall>j. tc_work (the_case j v') = tc_work (the_case j v) \<and>
             tc_artifact_dir (the_case j v') = tc_artifact_dir (the_case j v)) \<and>
        (\<exists>ds. t_cleanups (w_tb v') = t_cleanups (w_tb v) @ ds \<and> list_all deletion ds))"

lemma tidy_same:
  "(\<And>j. tc_work (cs ! j) = tc_work (cs' ! j) \<and> tc_artifact_dir (cs ! j) = tc_artifact_dir (cs' ! j)) \<Longrightarrow> tidy d cs c = tidy d cs' c"
  by (cases c) simp_all

lemma tidy_deletion: "deletion c \<Longrightarrow> tidy d cs c"
  by (cases c) simp_all

lemma camped_home: "camped d s v \<Longrightarrow> at_home d v"
  using within_sealed by (auto simp: camped_def at_home_def)

lemma camped_body:
  assumes "tidy_body d rest" and "camped d s v"
  shows "camped d s (snd (rest i v))"
proof -
  let ?v = "snd (rest i v)"
  obtain cs where cs: "t_cleanups (w_tb v) = RemoveTemp (abs_text d) # cs" "list_all (tidy d (l_cases v)) cs"
    using assms(2) by (auto simp: camped_def)
  obtain ds where b: "kept d (w_fs v) (w_fs ?v)" "getenv ?v artifactDirEnv = []" "o_cache ?v = o_cache v"
      "\<And>j. tc_work (the_case j ?v) = tc_work (the_case j v) \<and> tc_artifact_dir (the_case j ?v) = tc_artifact_dir (the_case j v)"
      "t_cleanups (w_tb ?v) = t_cleanups (w_tb v) @ ds" "list_all deletion ds"
    using assms(1) camped_home [OF assms(2)] unfolding tidy_body_def Let_def by blast
  have "tidy d (l_cases ?v) c = tidy d (l_cases v) c" for c
    using b(4) by (intro tidy_same) (simp add: the_case_def)
  then have "list_all (tidy d (l_cases ?v)) (cs @ ds)"
    using cs(2) b(6) tidy_deletion by (auto simp: list_all_iff)
  with assms(2) b cs(1) show ?thesis
    using within_trans [OF _ b(1)] by (simp add: camped_def)
qed


text \<open>A test that fails, so that its artifacts are dumped.\<close>

definition cached_lw :: "unit lt" where
  "cached_lw = demo_lw\<lparr>o_cache := Some ''/cache''\<rparr>"


end
