(* ===== verification/Spec2Isabelle.thy ===== *)
theory Spec2Isabelle
  imports Fake_TB Map_Store Sneaky_Program Health Suite Idempotency Tags Extract Docgen_Matrix Copy_Ends
    Traceless
begin

text \<open>
  A model of \<^verbatim>\<open>libtftest\<close>, a Go library for integration tests of Terraform modules against
  LocalStack, with \<^verbatim>\<open>sneakystack\<close>, an HTTP proxy that fills gaps of LocalStack, and \<^verbatim>\<open>docgen\<close>, a
  tool that keeps a table of the functions that need the paid edition.

  \<^bold>\<open>The program.\<close>  A test calls \<^verbatim>\<open>libtftest.New\<close>, which finds or starts a LocalStack container,
  copies the module under test to a scratch directory, writes two override files there that
  point Terraform at the container, loads an AWS configuration, and registers with \<^verbatim>\<open>t.Cleanup\<close>
  what takes all this down again.  The test then applies, plans and asserts.  \<^verbatim>\<open>harness.Run\<close>, to be
  called from \<^verbatim>\<open>TestMain\<close>, puts up one container (and sidecars in front of it) for all tests of a
  package; \<^verbatim>\<open>New\<close> attaches to it.

  \<^bold>\<open>How it is modelled.\<close>  An action is a function from a world to an outcome and a world
  (\<^verbatim>\<open>Prelude\<close>): it returns, stops the goroutine (\<^verbatim>\<open>FailNow\<close>, \<^verbatim>\<open>SkipNow\<close>), panics or exits the process.
  The world (\<^verbatim>\<open>Testing\<close>, extended by \<^verbatim>\<open>Harness\<close>, \<^verbatim>\<open>Terraform_Files\<close> and \<^verbatim>\<open>Libtftest\<close> with their
  package variables) holds the test handle, the environment, the file system, the cancelled
  contexts, and the trace of all calls to code outside the repository.  Docker, testcontainers,
  Terratest, terraform-json, the AWS SDK, sockets and \<^verbatim>\<open>go/parser\<close> are records of functions that give
  the answers, as functions of the calls made before; they are arguments of every definition
  that uses them, and nothing is assumed of them but what a theorem states.  Errors are values;
  a nil pointer is \<open>None\<close>.  Go's standard library is written out as far as the code relies on it.

  \<^bold>\<open>Theories.\<close>
  \<^item> The standard library: \<^verbatim>\<open>Go_Strings\<close> (strings, strconv, lexical paths), \<^verbatim>\<open>File_System\<close> (os,
    filepath.WalkDir, symbolic links; a table of faults makes any call fail), \<^verbatim>\<open>Testing\<close>
    (\<^verbatim>\<open>testing.TB\<close> as the locale \<open>test_handle\<close>, \<^verbatim>\<open>testing.T\<close> as its interpretation, the order of
    cleanups), \<^verbatim>\<open>Json_Encode\<close>, \<^verbatim>\<open>Float64\<close>, \<^verbatim>\<open>Json_Strings\<close>, \<^verbatim>\<open>Json_Decode\<close>, \<^verbatim>\<open>Json_Struct\<close>
    (encoding/json: bytes to tokens to values to structs, and back; float64 with its shortest
    decimal), \<^verbatim>\<open>Outside\<close> (the calls that leave the process).
  \<^item> \<^verbatim>\<open>Fake_TB\<close>: \<^verbatim>\<open>internal/testfake\<close>, another interpretation of \<open>test_handle\<close>.
  \<^item> \<^verbatim>\<open>Map_Store\<close>, \<^verbatim>\<open>Proxy\<close>, \<^verbatim>\<open>Sneaky_Sidecar\<close>, \<^verbatim>\<open>Sneaky_Program\<close>: \<^verbatim>\<open>sneakystack/store.go\<close>, \<^verbatim>\<open>proxy.go\<close>,
    \<^verbatim>\<open>sidecar.go\<close>, \<^verbatim>\<open>cmd/sneakystack/main.go\<close>.  The Go interface \<^verbatim>\<open>Store\<close> is the locale
    \<open>object_store\<close>, interpreted on the map of maps; the program with its goroutines is a step
    relation.
  \<^item> \<^verbatim>\<open>Docker_Ping\<close>, \<^verbatim>\<open>Localstack\<close>, \<^verbatim>\<open>Health\<close>: \<^verbatim>\<open>internal/dockerx\<close> and the package \<^verbatim>\<open>localstack\<close>.
  \<^item> \<^verbatim>\<open>Harness\<close>: \<^verbatim>\<open>harness/testmain.go\<close> and \<^verbatim>\<open>sidecar.go\<close>.
  \<^item> \<^verbatim>\<open>Terraform_Files\<close> (\<^verbatim>\<open>tf/options.go\<close>, \<^verbatim>\<open>override.go\<close>), \<^verbatim>\<open>Workspace\<close> (\<^verbatim>\<open>tf/workspace.go\<close>), \<^verbatim>\<open>Naming\<close>
    (\<^verbatim>\<open>internal/naming\<close>, with SHA-256), \<^verbatim>\<open>Artifacts\<close> (\<^verbatim>\<open>internal/logx\<close>), \<^verbatim>\<open>Aws\<close> (\<^verbatim>\<open>awsx\<close>).
  \<^item> \<^verbatim>\<open>Libtftest\<close>: \<^verbatim>\<open>libtftest.go\<close>; \<^verbatim>\<open>Lifecycle\<close> and \<^verbatim>\<open>Setup\<close> hold the lemmas on what \<^verbatim>\<open>New\<close> does and
    when it succeeds, \<^verbatim>\<open>Test_Cases\<close> and \<^verbatim>\<open>Idempotency\<close> the properties of a test case, \<^verbatim>\<open>Suite\<close> a
    package of tests under \<^verbatim>\<open>harness.Run\<close>.
  \<^item> \<^verbatim>\<open>Files_Ok\<close>, \<^verbatim>\<open>Contained\<close>, \<^verbatim>\<open>Copy_Ends\<close>, \<^verbatim>\<open>Traceless\<close>: what everything that writes files keeps true
    of the file system (the locale \<open>typed_handle\<close> extends \<open>test_handle\<close>), where the set-up of a test
    writes, which modules are copied in finitely many steps, and what a test leaves on disk.
  \<^item> \<^verbatim>\<open>Fixtures\<close>, \<^verbatim>\<open>Aws_Assert\<close>, \<^verbatim>\<open>Tags\<close>, \<^verbatim>\<open>Snapshot\<close>, \<^verbatim>\<open>Extract\<close>: the packages \<^verbatim>\<open>fixtures/*\<close> and
    \<^verbatim>\<open>assert/*\<close>.
  \<^item> \<^verbatim>\<open>Docgen_Marker\<close>, \<^verbatim>\<open>Docgen_Scan\<close>, \<^verbatim>\<open>Docgen_IR\<close>, \<^verbatim>\<open>Docgen\<close>, \<^verbatim>\<open>Docgen_Matrix\<close>: \<^verbatim>\<open>tools/docgen\<close>: the
    grammar of markers, the two walks over the sources, the intermediate JSON, the rendering and
    the commands, and their composition.
  Definitions carry the names of the functions they model; a part of a function that has a
  definition of its own (a loop, a closure, a case of a switch) is named after what it does.

  \<^bold>\<open>What is proved.\<close>
  \<^item> Resources: \<^verbatim>\<open>Start\<close> leaves no container behind on error; \<^verbatim>\<open>Run\<close> takes down what it put up; no
    container outlives its test; a package has one container; and where this ends (a
    failed set-up, a panicking test, a signal during a request).
  \<^item> Results: \<^verbatim>\<open>New\<close> succeeds under stated conditions and yields a copy of the module with the
    overrides; whatever the module, its links included, the set-up writes in the directory of
    the test only, and a test leaves no file, not even the artifacts of its failure; each assertion fails its test exactly when the answer does not bear it out,
    on \<^verbatim>\<open>testing.T\<close> and on the fake; plans, tags, snapshots and policies likewise.
  \<^item> Data: the store refines a map; JSON that is written is read back; normal forms are stable
    and agree exactly for equal values; the regular expression accepts exactly the grammar of
    markers; the scan reports exactly the markers of a tree, and a tree that passes the check has
    a complete matrix.
  \<^item> Order and concurrency: the reports of maps do not depend on their order; the calls of a fake
    test handle, the prefixes of parallel tests and the requests to a store, which the code guards
    with a mutex, are sequences of whole calls, and what is claimed holds for all of them.

  \<^bold>\<open>Bounds and fuel.\<close>  \<open>copyTree\<close>, \<open>walk\<close> and what calls them have fuel, \<open>None\<close> when it runs out.  A
  tree of depth less than the fuel is copied and scanned to its end
  (\<open>copy_of_a_tree_without_links\<close>, \<open>scan_is_complete\<close>), and a copy that ends gives the same result
  with any larger fuel (\<open>copyTree_more\<close>).  Where links lead to files or nowhere, fuel above
  the depth is enough whatever goes wrong (\<open>copy_of_links_to_files_ends\<close>); for a directory that links
  to itself no fuel is (\<open>self_link_is_copied_for_ever\<close>), which is what the code does.  \<open>run_test\<close> runs
  as many cleanups as its fuel; the number of those registered is enough, as none registers
  another.  \<open>walk_links\<close> gives up after 40 links as the kernel does.  JSON nests at most 10000 deep,
  as in encoding/json.  Integers of the code that count are \<^typ>\<open>int\<close> or \<^typ>\<open>nat\<close>, as they are bounded
  by the length of an input; SHA-256 works on 32-bit words; a line number read from JSON must fit 64 bits.

  \<^bold>\<open>Not modelled.\<close>  Log output (slog) of the harness and of the programs, and what the flag package
  prints on a mistake; time (a timeout is an answer that may come at any moment); data races (the
  harness writes its edge URL under one mutex and reads it under another, which the model, with
  its atomic steps, does not show); the transport of the reverse proxy; \<^verbatim>\<open>url.Parse\<close> and
  \<^verbatim>\<open>go/parser\<close>, which are arguments.  \<^verbatim>\<open>cmd/libtftest\<close> and \<^verbatim>\<open>sneakystack/services\<close> hold no code.
\<close>

section \<open>A package and its container\<close>

definition demo_all_up :: sidecar_api where
  "demo_all_up = demo_sidecars\<lparr>s_start := \<lambda>_ _ _ _. Inr ''http://sc''\<rparr>"

lemma running_after_termination:
  "list_all neutral t \<Longrightarrow> running d before (cs @ t @ [TerminateContainer h]) = filter (\<lambda>k. k \<noteq> h) (running d before cs)"
  by (simp add: running_def handed_out_append handed_out_neutral terminated_append terminated_neutral)
     (auto simp: terminated_def intro!: filter_cong)

text \<open>
  C1.  A package of tests has one container.  Under \<^verbatim>\<open>harness.Run\<close>, with a container and sidecars
  that start, tests that make test cases with \<^verbatim>\<open>New\<close> and do with them what they like start no
  container of their own, whatever options they give.  When the tests have run, the process
  ends with their status and the container is stopped; when a test ends the process (it
  panics, or exits), the container is left running.
\<close>

theorem one_container_per_package:
  assumes "\<And>over img spec t. snd (d_run a over img spec t) \<noteq> None \<Longrightarrow> fst (d_run a over img spec t) = None"
    and "Start a startup_ctx (ls_cfg_of cfg) w = (Ret (Inr c), w1)"
    and "\<And>i b u t. s_start s i b u t = Inr (url i)"
    and "\<forall>(name, opts, rest)\<in>set tests. polite rest"
  shows "\<exists>w2. Current w2 = Some c \<and>
     handed_out a (w_trace w) (calls_of (Run a s (run_suite a fuel tests) cfg) w) =
       handed_out a (w_trace w) (calls_of (Start a startup_ctx (ls_cfg_of cfg)) w) \<and>
     (case fst (run_suite a fuel tests w2) of
        Ret code \<Rightarrow>
          fst (Run a s (run_suite a fuel tests) cfg w) = Exited code \<and>
          running a (w_trace w) (calls_of (Run a s (run_suite a fuel tests) cfg) w) = []
      | _ \<Rightarrow> running a (w_trace w) (calls_of (Run a s (run_suite a fuel tests) cfg) w) = [ct_id c])"
proof -
  let ?run = "Run a s (run_suite a fuel tests) cfg"
  obtain t0 where t0: "w_trace w1 = w_trace w @ t0" "calls_of (Start a startup_ctx (ls_cfg_of cfg)) w = t0"
    using only_callsE [OF Start_docker, of a startup_ctx "ls_cfg_of cfg" w] assms(2) by (metis snd_conv)
  have c: "ct_ctr c = Some (ct_id c)" "running a (w_trace w) t0 = [ct_id c]"
    using Start_ledger [OF assms(1), where ctx = startup_ctx and cfg = "ls_cfg_of cfg" and w = w] assms(2) t0(2)
    by simp_all
  obtain w2 t where w2: "Current w2 = Some c" "list_all neutral t"
     "case fst (run_suite a fuel tests w2) of
        Ret code \<Rightarrow> fst (?run w) = Exited code \<and> w_trace (snd (?run w)) = w_trace w1 @ t @ [TerminateContainer (ct_id c)]
      | _ \<Rightarrow> w_trace (snd (?run w)) = w_trace w1 @ t"
    using package_trace [OF assms(2,3) c(1) assms(4)] by metis
  show ?thesis
    by (intro exI [of _ w2])
       (use w2 c(2) t0 in \<open>auto simp: calls_of_def running_after_termination running_neutral_suffix handed_out_append
         handed_out_neutral split: outcome.splits\<close>)
qed

text \<open>A package without tests, and one with a test that does nothing with its test case.\<close>

lemma demo_lib_start:
  "\<exists>w1. Start demo_lib startup_ctx (ls_cfg_of (demo_hcfg [])) demo_lw = (Ret (Inr demo_ctr), w1) \<and>
     handed_out demo_lib [] (calls_of (Start demo_lib startup_ctx (ls_cfg_of (demo_hcfg []))) demo_lw) = [''c1'']"
  by (simp add: demo_docker_simps demo_lib_def docker_api.defs lib_api.defs demo_hcfg_def ls_cfg_of_def demo_lw_def
      DetectEdition_def getenv_def startup_ctx_def ctx_done_def calls_of_def)

lemma polite_skip: "polite (\<lambda>_. skip)"
  by (simp add: polite_def skip_run attached_refl)

theorem one_container_per_package_witness:
  "fst (Run demo_lib demo_all_up (run_suite demo_lib 3 []) (demo_hcfg []) demo_lw) = Exited 0 \<and>
   running demo_lib [] (calls_of (Run demo_lib demo_all_up (run_suite demo_lib 3 []) (demo_hcfg [])) demo_lw) = [] \<and>
   handed_out demo_lib [] (calls_of (Run demo_lib demo_all_up
     (run_suite demo_lib 3 [(''TestA'', demo_opts ''/m'', \<lambda>_. skip)]) (demo_hcfg [])) demo_lw) = [''c1'']"
proof -
  obtain w1 where w1: "Start demo_lib startup_ctx (ls_cfg_of (demo_hcfg [])) demo_lw = (Ret (Inr demo_ctr), w1)"
      "handed_out demo_lib [] (calls_of (Start demo_lib startup_ctx (ls_cfg_of (demo_hcfg []))) demo_lw) = [''c1'']"
    using demo_lib_start by blast
  have s: "s_start demo_all_up i b u t = Inr ''http://sc''" for i b u t
    by (simp add: demo_all_up_def)
  have t: "w_trace demo_lw = []" by (simp add: demo_lw_def)
  have "\<forall>(name, opts, rest)\<in>set [(''TestA'', demo_opts ''/m'', \<lambda>_. skip :: (unit lt, unit) act)]. polite rest"
    by (simp add: polite_skip)
  from one_container_per_package [OF demo_law w1(1) s this]
    one_container_per_package [OF demo_law w1(1) s, where tests = "[]" and fuel = 3]
  show ?thesis by (auto simp: t w1(2) ret_run)
qed

section \<open>From the sources to the matrix\<close>

text \<open>
  C2.  A tree that passes \<^verbatim>\<open>docgen check\<close> has a complete matrix.  On a well-formed tree whose
  sources parse and are UTF-8, when \<^verbatim>\<open>check\<close> ends normally, \<^verbatim>\<open>scan\<close> writes an intermediate JSON
  from which \<^verbatim>\<open>render\<close>, wherever it runs, writes a matrix with a row for every function
  outside tests that calls \<^verbatim>\<open>RequirePro\<close>.
\<close>

theorem checked_tree_has_complete_matrix:
  fixes p p' :: "'m process_scheme"
  assumes "readable (d_fs p) q fuel" and "d_stdout_err p = None"
    and "\<And>f. source (d_fs p) q is_source f \<Longrightarrow> parse_file parse (d_fs p) (abs_text f) = Inr (files f)"
    and "\<And>f. source (d_fs p) q is_source f \<Longrightarrow> utf8_file (abs_text f) (files f)"
    and "docgen_main parse fuel [''docgen'', ''check'', ''-root'', abs_text q] p = Some (Ret (), p')"
  shows "\<exists>ir matrix.
     docgen_main parse fuel [''docgen'', ''scan'', ''-root'', abs_text q] p =
       Some (Ret (), p\<lparr>d_stdout := d_stdout p @ ir\<rparr>) \<and>
     (\<forall>(r :: 'm process_scheme) parse' fuel'. stdinPiped r \<and> d_stdin r = Inr ir \<and> d_stdout_err r = None \<longrightarrow>
        docgen_main parse' fuel' [''docgen'', ''render''] r = Some (Ret (), r\<lparr>d_stdout := d_stdout r @ matrix\<rparr>)) \<and>
     (\<forall>f fn. source (d_fs p) q is_checked f \<and> FuncDecl fn \<in> set (gf_decls (files f)) \<and> calls_pro fn \<longrightarrow>
        (\<exists>m before after. matrix = before @ table_row m @ after \<and>
           mk_function m = fd_name fn \<and> mk_receiver m = receiverType fn \<and> mk_file m = abs_text f))"
proof -
  obtain ms where ms: "scan parse fuel (d_fs p) (abs_text q) = Some (Inr ms)"
     "set ms = {marker_of (abs_text f) (gf_package (files f)) fn c tr |f fn doc c tr.
        source (d_fs p) q is_source f \<and> FuncDecl fn \<in> set (gf_decls (files f)) \<and> fd_doc fn = Some doc \<and> c \<in> set doc \<and>
        parseMarker (cm_text c) = Some tr}"
    using scan_reports [OF assms(1,3)] by blast
  have src: "source (d_fs p) q is_source f" if "source (d_fs p) q is_checked f" for f
    using that by (auto simp: source_def is_checked_def is_source_def)
  have good: "good_marker m" if "m \<in> set ms" for m
    using that assms(4) unfolding ms(2) by (auto intro: marker_of_good)
  then have ir: "parseIR (ir_json ms @ nl) = Inr ms"
    using ir_round_trip [of ms] by (simp add: nl_def)
  obtain vs where vs: "check parse fuel (d_fs p) (abs_text q) = Some (Inr vs)"
     "set vs = {violation_of (abs_text f) (gf_package (files f)) fn |f fn.
        source (d_fs p) q is_checked f \<and> FuncDecl fn \<in> set (gf_decls (files f)) \<and> calls_pro fn \<and> \<not> marked fn}"
    using check_reports [OF assms(1), of parse files] assms(3) src by blast
  have "\<exists>m before after. render ms = before @ table_row m @ after \<and>
      mk_function m = fd_name fn \<and> mk_receiver m = receiverType fn \<and> mk_file m = abs_text f"
    if f: "source (d_fs p) q is_checked f" "FuncDecl fn \<in> set (gf_decls (files f))" "calls_pro fn" for f fn
  proof -
    have "marked fn"
      using check_command [OF vs(1)] assms(5) vs(2) f by auto
    then obtain doc c tr where "fd_doc fn = Some doc" "c \<in> set doc" "parseMarker (cm_text c) = Some tr"
      by (auto simp: marked_def)
    then have "marker_of (abs_text f) (gf_package (files f)) fn c tr \<in> set ms"
      using f(1,2) src unfolding ms(2) by blast
    then show ?thesis
      using row_in_matrix by (fastforce simp: marker_of_def)
  qed
  then show ?thesis
    using scan_command [OF ms(1) assms(2)] render_command ir by blast
qed

text \<open>The tree of the witness of \<open>check\<close>, with a marker this time.\<close>

definition marked_source :: go_file where
  "marked_source =
     \<lparr>gf_package = ''iam'', gf_decls =
        [FuncDecl \<lparr>fd_name = ''RoleExists'', fd_recv = None,
           fd_doc = Some [\<lparr>cm_text = ''// libtftest:requires pro IAM GetRole | only'', cm_line = 3\<rparr>],
           fd_body = Some (Node [Call (Selector (Ident ''libtftest'') ''RequirePro'') [Ident ''tb'']]), fd_line = 4\<rparr>]\<rparr>"

definition marked_parser :: go_parser where
  "marked_parser src = (if src = ''go'' then Inr marked_source else Inl (ErrText ''syntax error''))"

lemma marked_functions:
  assumes "FuncDecl fn \<in> set (gf_decls marked_source)"
  shows "calls_pro fn \<and> marked fn"
proof -
  have "parseMarker ''// libtftest:requires pro IAM GetRole | only'' \<noteq> None" by code_simp
  with assms show ?thesis by (auto simp: marked_source_def calls_pro_def marked_def)
qed

lemma marked_source_utf8: "utf8_file (abs_text [''r'', ''a.go'']) marked_source"
  by (auto simp: utf8_file_def marked_source_def receiverType_def abs_text_def path_text_def byte_def intro!: utf8_ascii)

lemma marked_tree_checks:
  "\<exists>p'. docgen_main marked_parser 4 [''docgen'', ''check'', ''-root'', abs_text [''r'']] demo_process = Some (Ret (), p')"
proof -
  have "parse_file marked_parser demo_repo (abs_text f) = Inr marked_source"
    if "source demo_repo [''r''] is_checked f" for f
    using demo_repo_parses [OF _ that] by (simp add: marked_parser_def)
  then obtain vs where vs: "check marked_parser 4 demo_repo (abs_text [''r'']) = Some (Inr vs)"
     "set vs = {violation_of (abs_text f) (gf_package marked_source) fn |f fn.
        source demo_repo [''r''] is_checked f \<and> FuncDecl fn \<in> set (gf_decls marked_source) \<and> calls_pro fn \<and> \<not> marked fn}"
    using check_reports [OF demo_repo_readable, of marked_parser "\<lambda>_. marked_source"] by blast
  have "v \<notin> set vs" for v
    unfolding vs(2) mem_Collect_eq using marked_functions by (meson)
  then have "vs = []" by (cases vs) auto
  with vs(1) check_command [of marked_parser 4 demo_process "abs_text [''r'']" vs] show ?thesis
    by (simp add: demo_process_def)
qed

theorem checked_tree_has_complete_matrix_witness:
  "\<exists>matrix m before after. matrix = before @ table_row m @ after \<and> mk_function m = ''RoleExists'' \<and>
     docgen_main marked_parser 0 [''docgen'', ''render'']
       (demo_process\<lparr>d_stdin_stat := Inr False, d_stdin := Inr (d_stdout (snd (the
          (docgen_main marked_parser 4 [''docgen'', ''scan'', ''-root'', abs_text [''r'']] demo_process))))\<rparr>) =
     Some (Ret (), demo_process\<lparr>d_stdin_stat := Inr False, d_stdin := Inr (d_stdout (snd (the
          (docgen_main marked_parser 4 [''docgen'', ''scan'', ''-root'', abs_text [''r'']] demo_process)))),
        d_stdout := matrix\<rparr>)"
proof -
  have p: "d_fs demo_process = demo_repo" "d_stdout_err demo_process = None" "d_stdout demo_process = []"
    by (simp_all add: demo_process_def)
  have parses: "parse_file marked_parser demo_repo (abs_text f) = Inr marked_source"
    if "source demo_repo [''r''] is_source f" for f
    using demo_repo_parses [OF _ that] by (simp add: marked_parser_def)
  have utf8: "utf8_file (abs_text f) marked_source" if "source demo_repo [''r''] is_source f" for f
    using demo_repo_sources [OF that] marked_source_utf8 by simp
  obtain p' where c: "docgen_main marked_parser 4 [''docgen'', ''check'', ''-root'', abs_text [''r'']] demo_process = Some (Ret (), p')"
    using marked_tree_checks by blast
  obtain ir matrix where m:
     "docgen_main marked_parser 4 [''docgen'', ''scan'', ''-root'', abs_text [''r'']] demo_process =
       Some (Ret (), demo_process\<lparr>d_stdout := d_stdout demo_process @ ir\<rparr>)"
     "\<forall>(r :: process) parse' fuel'. stdinPiped r \<and> d_stdin r = Inr ir \<and> d_stdout_err r = None \<longrightarrow>
        docgen_main parse' fuel' [''docgen'', ''render''] r = Some (Ret (), r\<lparr>d_stdout := d_stdout r @ matrix\<rparr>)"
     "\<forall>f fn. source demo_repo [''r''] is_checked f \<and> FuncDecl fn \<in> set (gf_decls marked_source) \<and> calls_pro fn \<longrightarrow>
        (\<exists>m before after. matrix = before @ table_row m @ after \<and>
           mk_function m = fd_name fn \<and> mk_receiver m = receiverType fn \<and> mk_file m = abs_text f)"
    using checked_tree_has_complete_matrix [of demo_process "[''r'']" 4 marked_parser "\<lambda>_. marked_source", OF _ p(2) _ _ c]
      demo_repo_readable parses utf8 unfolding p(1) by blast
  have "\<exists>fn. FuncDecl fn \<in> set (gf_decls marked_source) \<and> fd_name fn = ''RoleExists''"
    by (simp add: marked_source_def)
  then obtain fn where fn: "FuncDecl fn \<in> set (gf_decls marked_source)" "fd_name fn = ''RoleExists''" by blast
  with m(3) demo_repo_source marked_functions obtain k before after where
    "matrix = before @ table_row k @ after" "mk_function k = ''RoleExists''" by metis
  moreover have "stdinPiped (demo_process\<lparr>d_stdin_stat := Inr False, d_stdin := Inr ir\<rparr>)"
    by (simp add: stdinPiped_def)
  ultimately show ?thesis
    using m(1) m(2) [rule_format, of "demo_process\<lparr>d_stdin_stat := Inr False, d_stdin := Inr ir\<rparr>" marked_parser 0] p
    by (intro exI [of _ matrix] exI [of _ k] exI [of _ before] exI [of _ after]) simp
qed

end
